(* ===== verification/Go_Prelude.thy ===== *)
theory Go_Prelude
  imports Main "HOL-Library.Word" "HOL-Library.Signed_Division" "HOL-Library.Sublist"
    "HOL-Library.Multiset"
begin

text \<open>
  What every component of the service needs of Go: run-time panics and the
  state-passing computations of the service (\<open>gom\<close>), 64-bit integers, the parts of
  \<^verbatim>\<open>strings\<close> and \<^verbatim>\<open>strconv\<close> the sources call, the order in which a
  \<^verbatim>\<open>range\<close> over a map visits its entries, and the lemmas about them that the
  component proofs share. The collection \<open>go_monad\<close> evaluates computations, the
  collection \<open>go_frame\<close> shows that a computation leaves a part of the state alone.
\<close>

named_theorems go_monad \<open>equations that run a computation\<close>
named_theorems go_frame \<open>rules for computations that keep a part of the state\<close>

section \<open>Panics and computations\<close>

text \<open>
  A Go call returns, panics, or never returns. A computation over a state \<open>'s\<close> keeps the
  state it has reached when it panics: a deferred \<^verbatim>\<open>recover\<close> (the RPC layer has one)
  goes on from there.
\<close>

datatype panic = DivideByZero | NilDereference | IndexOutOfRange | TypeAssertion | Explicit string

datatype 'a outcome = Ret 'a | Panic panic | Hang

type_synonym ('s, 'a) gom = "'s \<Rightarrow> 'a outcome \<times> 's"

fun obind :: "'a outcome \<Rightarrow> ('a \<Rightarrow> 'b outcome) \<Rightarrow> 'b outcome" where
  "obind (Ret a) f = f a"
| "obind (Panic p) f = Panic p"
| "obind Hang f = Hang"

definition gret :: "'a \<Rightarrow> ('s, 'a) gom" where
  "gret a s = (Ret a, s)"

definition gbind :: "('s, 'a) gom \<Rightarrow> ('a \<Rightarrow> ('s, 'b) gom) \<Rightarrow> ('s, 'b) gom" where
  "gbind m f s = (case m s of (Ret a, t) \<Rightarrow> f a t | (Panic p, t) \<Rightarrow> (Panic p, t) | (Hang, t) \<Rightarrow> (Hang, t))"

definition glift :: "'a outcome \<Rightarrow> ('s, 'a) gom" where
  "glift r s = (r, s)"

definition gread :: "('s \<Rightarrow> 'a) \<Rightarrow> ('s, 'a) gom" where
  "gread f s = (Ret (f s), s)"

definition gmodify :: "('s \<Rightarrow> 's) \<Rightarrow> ('s, unit) gom" where
  "gmodify f s = (Ret (), f s)"

text \<open>A \<^verbatim>\<open>for range\<close> loop with an accumulator; a panic in the body ends it.\<close>

fun gfold :: "('x \<Rightarrow> 'a \<Rightarrow> ('s, 'a) gom) \<Rightarrow> 'x list \<Rightarrow> 'a \<Rightarrow> ('s, 'a) gom" where
  "gfold f [] acc = gret acc"
| "gfold f (x # xs) acc = gbind (f x acc) (gfold f xs)"

lemma gret_run [go_monad]: "gret a s = (Ret a, s)"
  by (simp add: gret_def)

lemma glift_run [go_monad]: "glift r s = (r, s)"
  by (simp add: glift_def)

lemma gread_run [go_monad, simp]: "gread f s = (Ret (f s), s)"
  by (simp add: gread_def)

lemma gmodify_run [go_monad, simp]: "gmodify f s = (Ret (), f s)"
  by (simp add: gmodify_def)

lemma gbind_Ret [go_monad]: "m s = (Ret a, t) \<Longrightarrow> gbind m f s = f a t"
  by (simp add: gbind_def)

lemma gbind_Panic [go_monad]: "m s = (Panic p, t) \<Longrightarrow> gbind m f s = (Panic p, t)"
  by (simp add: gbind_def)

lemma gbind_Hang [go_monad]: "m s = (Hang, t) \<Longrightarrow> gbind m f s = (Hang, t)"
  by (simp add: gbind_def)

lemma gbind_gret [simp]: "gbind (gret a) f = f a"
  by (simp add: gbind_def gret_def fun_eq_iff)

lemma gbind_gret_right [simp]: "gbind m gret = m"
  by (simp add: gbind_def gret_def fun_eq_iff split: prod.split outcome.split)

lemma gbind_assoc: "gbind (gbind m f) g = gbind m (\<lambda>a. gbind (f a) g)"
  by (simp add: gbind_def fun_eq_iff split: prod.split outcome.split)

lemma gbind_glift_Ret [simp]: "gbind (glift (Ret a)) f = f a"
  by (simp add: gbind_def glift_def fun_eq_iff)

lemma gbind_gread_run [simp]: "gbind (gread h) f s = f (h s) s"
  by (simp add: gbind_def)

lemma gbind_gmodify_run [simp]: "gbind (gmodify h) f s = f () (h s)"
  by (simp add: gbind_def)

lemma gbind_RetE:
  assumes "gbind m f s = (Ret b, u)"
  obtains a t where "m s = (Ret a, t)" and "f a t = (Ret b, u)"
  using assms by (auto simp: gbind_def split: prod.splits outcome.splits)

lemma obind_RetE:
  assumes "obind m f = Ret b"
  obtains a where "m = Ret a" and "f a = Ret b"
  using assms by (cases m) auto

lemma obind_Ret_iff: "obind m f = Ret b \<longleftrightarrow> (\<exists>a. m = Ret a \<and> f a = Ret b)"
  by (cases m) auto

lemma gfold_append: "gfold f (xs @ ys) acc = gbind (gfold f xs acc) (gfold f ys)"
proof (induction xs arbitrary: acc)
  case (Cons x xs)
  have "gfold f (xs @ ys) = (\<lambda>a. gbind (gfold f xs a) (gfold f ys))"
    by (rule ext) (rule Cons.IH)
  then show ?case by (simp add: gbind_assoc)
qed simp

text \<open>A loop whose body always returns and never writes is the fold of its results.\<close>

lemma gfold_pure:
  assumes "\<And>x acc. x \<in> set xs \<Longrightarrow> f x acc s = (Ret (g x acc), s)"
  shows "gfold f xs acc s = (Ret (fold g xs acc), s)"
  using assms by (induction xs arbitrary: acc) (simp_all add: gbind_def gret_def)

subsection \<open>Frames\<close>

text \<open>\<open>keeps h m\<close>: whatever \<open>m\<close> does, the part \<open>h\<close> of the state is as before.\<close>

definition keeps :: "('s \<Rightarrow> 'h) \<Rightarrow> ('s, 'a) gom \<Rightarrow> bool" where
  "keeps h m \<longleftrightarrow> (\<forall>s. h (snd (m s)) = h s)"

lemma keepsI: "(\<And>s. h (snd (m s)) = h s) \<Longrightarrow> keeps h m"
  by (simp add: keeps_def)

lemma keepsD: "keeps h m \<Longrightarrow> h (snd (m s)) = h s"
  by (simp add: keeps_def)

lemma keeps_run: "keeps h m \<Longrightarrow> m s = (r, t) \<Longrightarrow> h t = h s"
  by (metis keepsD snd_conv)

lemma keeps_gret [go_frame, intro!]: "keeps h (gret a)"
  by (simp add: keeps_def gret_def)

lemma keeps_glift [go_frame, intro!]: "keeps h (glift r)"
  by (simp add: keeps_def glift_def)

lemma keeps_gread [go_frame, intro!]: "keeps h (gread f)"
  by (simp add: keeps_def)

lemma keeps_gmodify [go_frame]: "(\<And>s. h (f s) = h s) \<Longrightarrow> keeps h (gmodify f)"
  by (simp add: keeps_def)

lemma keeps_gbind [go_frame, intro]:
  assumes "keeps h m" and "\<And>a. keeps h (f a)"
  shows "keeps h (gbind m f)"
proof (rule keepsI)
  fix s
  obtain r t where m: "m s = (r, t)" by force
  with assms(1) have t: "h t = h s" by (rule keeps_run)
  show "h (snd (gbind m f s)) = h s"
    by (cases r) (use m t keepsD [OF assms(2)] in \<open>simp_all add: gbind_def\<close>)
qed

lemma keeps_gfold [go_frame]:
  assumes "\<And>x acc. keeps h (f x acc)"
  shows "keeps h (gfold f xs acc)"
proof (induction xs arbitrary: acc)
  case Nil
  show ?case by (simp add: keeps_gret)
next
  case (Cons x xs)
  show ?case by (simp add: keeps_gbind assms Cons)
qed

lemma keeps_case_sum [go_frame]:
  assumes "\<And>a. keeps h (f a)" and "\<And>b. keeps h (g b)"
  shows "keeps h (case x of Inl a \<Rightarrow> f a | Inr b \<Rightarrow> g b)"
  by (cases x) (simp_all add: assms)

lemma keeps_case_option [go_frame]:
  assumes "keeps h m" and "\<And>b. keeps h (g b)"
  shows "keeps h (case x of None \<Rightarrow> m | Some b \<Rightarrow> g b)"
  by (cases x) (simp_all add: assms)

lemma keeps_case_prod [go_frame]:
  assumes "\<And>a b. keeps h (f a b)"
  shows "keeps h (case x of (a, b) \<Rightarrow> f a b)"
  by (cases x) (simp add: assms)

lemma keeps_if [go_frame]: "keeps h m \<Longrightarrow> keeps h n \<Longrightarrow> keeps h (if b then m else n)"
  by simp

section \<open>64-bit integers\<close>

text \<open>
  A \<^verbatim>\<open>uint64\<close> is a \<open>64 word\<close>. A Go \<^verbatim>\<open>int\<close> or \<^verbatim>\<open>int64\<close> is a HOL
  \<open>int\<close> in the range \<open>is_i64\<close>; every arithmetic operation of the source on such a
  value is followed by \<open>i64\<close>, the two's complement wrap-around. The conversions of the
  source are \<open>int_of_u64\<close> (\<^verbatim>\<open>int(x)\<close> of a \<^verbatim>\<open>uint64\<close>) and
  \<open>u64_of_int\<close> (\<^verbatim>\<open>uint64(x)\<close> of an \<^verbatim>\<open>int\<close>).
\<close>

type_synonym u64 = "64 word"

definition i64 :: "int \<Rightarrow> int" where
  "i64 x = signed_take_bit 63 x"

definition is_i64 :: "int \<Rightarrow> bool" where
  "is_i64 x \<longleftrightarrow> - (2 ^ 63) \<le> x \<and> x < 2 ^ 63"

definition max_i64 :: int where
  "max_i64 = 2 ^ 63 - 1"

definition int_of_u64 :: "u64 \<Rightarrow> int" where
  "int_of_u64 w = sint w"

definition u64_of_int :: "int \<Rightarrow> u64" where
  "u64_of_int x = word_of_int x"

text \<open>Integer division truncates towards zero and panics on a zero divisor.\<close>

definition int_quot :: "int \<Rightarrow> int \<Rightarrow> int outcome" where
  "int_quot a b = (if b = 0 then Panic DivideByZero else Ret (i64 (a sdiv b)))"

definition u64_quot :: "u64 \<Rightarrow> u64 \<Rightarrow> u64 outcome" where
  "u64_quot a b = (if b = 0 then Panic DivideByZero else Ret (a div b))"

definition u64_rem :: "u64 \<Rightarrow> u64 \<Rightarrow> u64 outcome" where
  "u64_rem a b = (if b = 0 then Panic DivideByZero else Ret (a mod b))"

lemma i64_id: "is_i64 x \<Longrightarrow> i64 x = x"
  by (simp add: i64_def is_i64_def signed_take_bit_int_eq_self)

lemma is_i64_i64 [simp]: "is_i64 (i64 x)"
  using signed_take_bit_int_greater_eq_minus_exp [of 63 x] signed_take_bit_int_less_exp [of 63 x]
  by (simp add: i64_def is_i64_def)

lemma i64_i64 [simp]: "i64 (i64 x) = i64 x"
  by (rule i64_id) simp

lemma is_i64_int_of_u64 [simp]: "is_i64 (int_of_u64 w)"
  using sint_greater_eq [of w] sint_less [of w]
  by (simp add: int_of_u64_def is_i64_def)

lemma u64_of_int_of_u64 [simp]: "u64_of_int (int_of_u64 w) = w"
  by (simp add: u64_of_int_def int_of_u64_def)

lemma int_of_u64_of_int: "int_of_u64 (u64_of_int x) = i64 x"
  by (simp add: u64_of_int_def int_of_u64_def i64_def sint_word_ariths signed_of_int)

lemma int_of_u64_inj: "int_of_u64 v = int_of_u64 w \<longleftrightarrow> v = w"
  by (metis u64_of_int_of_u64)

lemma u64_of_int_eq_iff: "is_i64 x \<Longrightarrow> w = u64_of_int x \<longleftrightarrow> int_of_u64 w = x"
  using int_of_u64_of_int i64_id int_of_u64_inj by metis

lemma int_of_u64_nonneg: "uint w < 2 ^ 63 \<Longrightarrow> int_of_u64 w = uint w"
proof -
  assume "uint w < 2 ^ 63"
  moreover have "- (2 ^ 63) \<le> uint w" by (rule order_trans [OF _ uint_ge_0]) simp
  ultimately have "i64 (uint w) = uint w" by (simp add: i64_id is_i64_def)
  then show ?thesis by (simp add: int_of_u64_def sint_uint i64_def)
qed

text \<open>A slot whose conversion to \<^verbatim>\<open>int\<close> is not negative.\<close>

lemma small_slot: "uint slot < 2 ^ 63 \<Longrightarrow> 0 \<le> int_of_u64 slot \<and> int_of_u64 slot = uint slot"
  by (simp add: int_of_u64_nonneg)

lemma int_quot_pos:
  assumes "0 \<le> a" and "a < 2 ^ 63" and "0 < b"
  shows "int_quot a b = Ret (a div b)"
proof -
  have "0 \<le> a div b" using assms by (simp add: pos_imp_zdiv_nonneg_iff)
  moreover have "a div b \<le> a"
    using assms by (smt (verit) div_by_1 zdiv_mono2)
  ultimately
  have "is_i64 (a div b)" using assms by (simp add: is_i64_def)
  moreover have "a sdiv b = a div b"
    using assms by (simp add: signed_divide_int_def sgn_if)
  ultimately show ?thesis
    using assms by (simp add: int_quot_def i64_id)
qed

section \<open>Strings and numbers\<close>

text \<open>
  A Go string is a \<open>string\<close>, one \<open>char\<close> per byte. \<^verbatim>\<open>ToLower\<close> and case folding
  are those of ASCII; bytes above 127 are left alone.
\<close>

definition HasPrefix :: "string \<Rightarrow> string \<Rightarrow> bool" where
  "HasPrefix s p = (take (length p) s = p)"

definition HasSuffix :: "string \<Rightarrow> string \<Rightarrow> bool" where
  "HasSuffix s p = (length p \<le> length s \<and> drop (length s - length p) s = p)"

definition lower_char :: "char \<Rightarrow> char" where
  "lower_char c = (let n = of_char c :: nat in if 65 \<le> n \<and> n \<le> 90 then char_of (n + 32) else c)"

definition ToLower :: "string \<Rightarrow> string" where
  "ToLower s = map lower_char s"

definition EqualFold :: "string \<Rightarrow> string \<Rightarrow> bool" where
  "EqualFold s t = (ToLower s = ToLower t)"

text \<open>\<^verbatim>\<open>strings.SplitN(s, sep, 2)\<close> for a one-character separator.\<close>

definition SplitN2 :: "char \<Rightarrow> string \<Rightarrow> string list" where
  "SplitN2 sep s =
     (case dropWhile (\<lambda>c. c \<noteq> sep) s of
        [] \<Rightarrow> [s]
      | _ # t \<Rightarrow> [takeWhile (\<lambda>c. c \<noteq> sep) s, t])"

lemma HasPrefix_iff: "HasPrefix s p \<longleftrightarrow> (\<exists>t. s = p @ t)"
  by (metis HasPrefix_def append_eq_conv_conj append_take_drop_id)

lemma HasPrefix_append [simp]: "HasPrefix (p @ s) p"
  by (simp add: HasPrefix_def)

lemma HasSuffix_iff: "HasSuffix s p \<longleftrightarrow> (\<exists>t. s = t @ p)"
proof
  assume "HasSuffix s p"
  then have "s = take (length s - length p) s @ p"
    by (metis HasSuffix_def append_take_drop_id)
  then show "\<exists>t. s = t @ p" ..
qed (auto simp: HasSuffix_def)

lemma split_at_first:
  assumes "x \<notin> set xs" and "x \<notin> set xs'"
  shows "xs @ x # ys = xs' @ x # ys' \<longleftrightarrow> xs = xs' \<and> ys = ys'"
proof
  assume eq: "xs @ x # ys = xs' @ x # ys'"
  have "takeWhile (\<lambda>c. c \<noteq> x) (zs @ x # zs') = zs" if "x \<notin> set zs" for zs zs'
    using that by (subst takeWhile_append2) auto
  with assms eq have "xs = xs'" by metis
  with eq show "xs = xs' \<and> ys = ys'" by simp
qed simp

text \<open>
  \<^verbatim>\<open>strconv.ParseUint(s, 10, 64)\<close>, \<^verbatim>\<open>ParseInt(s, 10, 64)\<close> and \<^verbatim>\<open>Atoi\<close> give a
  value beside their error: 0 for a syntax error, the nearest bound for one out of range.
  The digits are read from the left, so a value that has overflowed is reported as out of
  range even when a later character is no digit.
\<close>

datatype num_error = ErrSyntax | ErrRange

definition digit_val :: "char \<Rightarrow> nat option" where
  "digit_val c = (let n = of_char c :: nat in if 48 \<le> n \<and> n \<le> 57 then Some (n - 48) else None)"

definition digit_char :: "nat \<Rightarrow> char" where
  "digit_char d = char_of (48 + d)"

fun parse_digits :: "nat \<Rightarrow> string \<Rightarrow> nat \<times> num_error option" where
  "parse_digits n [] = (n, None)"
| "parse_digits n (c # cs) =
     (case digit_val c of
        None \<Rightarrow> (0, Some ErrSyntax)
      | Some d \<Rightarrow>
          if n * 10 + d > 2 ^ 64 - 1 then (2 ^ 64 - 1, Some ErrRange)
          else parse_digits (n * 10 + d) cs)"

definition ParseUint :: "string \<Rightarrow> nat \<times> num_error option" where
  "ParseUint s = (if s = [] then (0, Some ErrSyntax) else parse_digits 0 s)"

definition ParseInt :: "string \<Rightarrow> int \<times> num_error option" where
  "ParseInt s =
     (let (neg, t) = (case s of [] \<Rightarrow> (False, [])
                      | c # r \<Rightarrow> if c = CHR ''+'' then (False, r)
                                else if c = CHR ''-'' then (True, r) else (False, s));
          (un, err) = ParseUint t
      in if err = Some ErrSyntax then (0, Some ErrSyntax)
         else if \<not> neg \<and> un \<ge> 2 ^ 63 then (2 ^ 63 - 1, Some ErrRange)
         else if neg \<and> un > 2 ^ 63 then (- (2 ^ 63), Some ErrRange)
         else (if neg then - int un else int un, None))"

definition Atoi :: "string \<Rightarrow> int \<times> num_error option" where
  "Atoi s = ParseInt s"

fun format_nat :: "nat \<Rightarrow> string" where
  "format_nat n = (if n < 10 then [digit_char n] else format_nat (n div 10) @ [digit_char (n mod 10)])"

declare format_nat.simps [simp del]

definition FormatInt :: "int \<Rightarrow> string" where
  "FormatInt x = (if x < 0 then CHR ''-'' # format_nat (nat (- x)) else format_nat (nat x))"

lemma digit_val_char [simp]: "d < 10 \<Longrightarrow> digit_val (digit_char d) = Some d"
  by (simp add: digit_val_def digit_char_def)

lemma digit_char_not_sign:
  "d < 10 \<Longrightarrow> digit_char d \<noteq> CHR ''-''" "d < 10 \<Longrightarrow> digit_char d \<noteq> CHR ''+''"
proof -
  assume "d < 10"
  then have "of_char (digit_char d) = 48 + d"
    by (simp add: digit_char_def)
  then show "digit_char d \<noteq> CHR ''-''" "digit_char d \<noteq> CHR ''+''"
    by auto
qed

lemma digit_char_not_underscore: "d < 10 \<Longrightarrow> digit_char d \<noteq> CHR ''_''"
proof -
  assume "d < 10"
  then have "of_char (digit_char d) = 48 + d" by (simp add: digit_char_def)
  with \<open>d < 10\<close> show ?thesis by auto
qed

lemma format_nat_not_Nil [simp]: "format_nat n \<noteq> []"
  by (subst format_nat.simps) simp

lemma hd_format_nat: "hd (format_nat n) \<noteq> CHR ''-'' \<and> hd (format_nat n) \<noteq> CHR ''+''"
proof (induction n rule: format_nat.induct)
  case (1 n)
  then show ?case
    by (cases "n < 10") (simp_all add: format_nat.simps [of n] digit_char_not_sign hd_append)
qed

lemma parse_digits_append:
  "parse_digits n s = (m, None) \<Longrightarrow> parse_digits n (s @ t) = parse_digits m t"
  by (induction n s rule: parse_digits.induct) (auto split: option.splits if_splits)

lemma parse_digits_format_nat: "n < 2 ^ 64 \<Longrightarrow> parse_digits 0 (format_nat n) = (n, None)"
proof (induction n rule: format_nat.induct)
  case (1 n)
  show ?case
  proof (cases "n < 10")
    case True
    then show ?thesis by (simp add: format_nat.simps [of n])
  next
    case False
    moreover have "n div 10 < 2 ^ 64" using "1.prems" by simp
    ultimately have "parse_digits 0 (format_nat (n div 10)) = (n div 10, None)"
      using "1.IH" by blast
    moreover have "n div 10 * 10 + n mod 10 = n" by presburger
    ultimately show ?thesis
      using False "1.prems" by (simp add: format_nat.simps [of n] parse_digits_append)
  qed
qed

lemma ParseUint_format_nat: "n < 2 ^ 64 \<Longrightarrow> ParseUint (format_nat n) = (n, None)"
  by (simp add: ParseUint_def parse_digits_format_nat)

lemma ParseInt_FormatInt: "is_i64 x \<Longrightarrow> ParseInt (FormatInt x) = (x, None)"
proof (cases "x < 0")
  case True
  moreover assume "is_i64 x"
  ultimately have "nat (- x) \<le> 2 ^ 63" by (simp add: is_i64_def)
  then show ?thesis
    using True by (simp add: ParseInt_def FormatInt_def ParseUint_format_nat)
next
  case False
  assume "is_i64 x"
  with False have n: "nat x < 2 ^ 63" by (simp add: is_i64_def)
  obtain c r where cr: "format_nat (nat x) = c # r"
    by (cases "format_nat (nat x)") simp_all
  then have "c \<noteq> CHR ''-''" "c \<noteq> CHR ''+''"
    using hd_format_nat [of "nat x"] by simp_all
  then show ?thesis
    using False n cr ParseUint_format_nat [of "nat x"]
    by (simp add: ParseInt_def FormatInt_def)
qed

lemma ParseInt_i64: "is_i64 (fst (ParseInt s))"
  by (auto simp: ParseInt_def is_i64_def Let_def split: prod.split if_splits)

section \<open>The order of a map iteration\<close>

text \<open>
  Go leaves the order of \<^verbatim>\<open>for k, v := range m\<close> open. A map that is iterated is an
  association list in insertion order, and the run-time's choice is a parameter
  \<open>ord\<close>: for \<open>n\<close> entries, the list of positions in the order they are visited.
\<close>

definition is_order :: "(nat \<Rightarrow> nat list) \<Rightarrow> bool" where
  "is_order ord \<longleftrightarrow> (\<forall>n. mset (ord n) = mset [0..<n])"

definition visit :: "(nat \<Rightarrow> nat list) \<Rightarrow> 'a list \<Rightarrow> 'a list" where
  "visit ord xs = map ((!) xs) (ord (length xs))"

lemma mset_visit: "is_order ord \<Longrightarrow> mset (visit ord xs) = mset xs"
  by (metis (no_types, lifting) is_order_def map_nth mset_map visit_def)

lemma set_visit: "is_order ord \<Longrightarrow> set (visit ord xs) = set xs"
  by (rule mset_eq_setD) (rule mset_visit)

lemma length_visit: "is_order ord \<Longrightarrow> length (visit ord xs) = length xs"
  by (metis mset_visit size_mset)

lemma is_order_upt [simp]: "is_order (\<lambda>n. [0..<n])"
  by (simp add: is_order_def)

lemma visit_upt [simp]: "visit (\<lambda>n. [0..<n]) xs = xs"
  by (simp add: visit_def map_nth)

section \<open>Pairwise properties\<close>

text \<open>A symmetric property of all pairs of a list does not depend on its order.\<close>

lemma sorted_wrt_mset:
  assumes "\<And>x y. R x y \<Longrightarrow> R y x" and "mset xs = mset ys" and "sorted_wrt R xs"
  shows "sorted_wrt R ys"
  using assms(2,3)
proof (induction ys arbitrary: xs)
  case (Cons y ys)
  then have "y \<in> set xs" by (metis list.set_intros(1) mset_eq_setD)
  then obtain as bs where xs: "xs = as @ y # bs" by (meson split_list)
  with Cons.prems have m: "mset (as @ bs) = mset ys" and s: "sorted_wrt R (as @ bs)"
    by (simp_all add: sorted_wrt_append)
  have "R y z" if "z \<in> set ys" for z
  proof -
    from that have "z \<in> set (as @ bs)" using mset_eq_setD [OF m] by simp
    then show ?thesis using Cons.prems(2) assms(1) by (auto simp: xs sorted_wrt_append)
  qed
  with Cons.IH [OF m s] show ?case by simp
qed simp

end
