(* ===== verification/Go_Json.thy ===== *)
theory Go_Json
  imports Go_Prelude
begin

text \<open>
  \<^verbatim>\<open>encoding/json\<close> at the level of JSON values: what \<^verbatim>\<open>Unmarshal\<close> stores into
  the service's structs, slices and maps. A document that is not JSON is the absence of a
  value. A number keeps its literal, since Go parses it only once it knows the target type.
  A decoder takes the value and the old contents of its target and gives the new contents
  and whether a type error was met; like Go's, it keeps going after a type error and
  reports it at the end.
\<close>

datatype json =
    JNull
  | JBool bool
  | JNum string
  | JStr string
  | JArr "json list"
  | JObj "(string \<times> json) list"

type_synonym 'r dec = "json \<Rightarrow> 'r \<Rightarrow> 'r \<times> bool"

fun dec_string :: "string dec" where
  "dec_string (JStr s) old = (s, False)"
| "dec_string JNull old = (old, False)"
| "dec_string _ old = (old, True)"

fun dec_bool :: "bool dec" where
  "dec_bool (JBool b) old = (b, False)"
| "dec_bool JNull old = (old, False)"
| "dec_bool _ old = (old, True)"

fun dec_int :: "int dec" where
  "dec_int (JNum l) old = (case ParseInt l of (n, None) \<Rightarrow> (n, False) | (_, Some _) \<Rightarrow> (old, True))"
| "dec_int JNull old = (old, False)"
| "dec_int _ old = (old, True)"

text \<open>A \<^verbatim>\<open>json.RawMessage\<close> takes whatever is there; \<open>None\<close> is the nil message.\<close>

fun dec_raw :: "json option dec" where
  "dec_raw j old = (Some j, False)"

text \<open>
  Struct fields are found by their exact name first and by case folding second; keys
  without a field are skipped, a repeated key overwrites.
\<close>

definition find_field :: "(string \<times> 'r dec) list \<Rightarrow> string \<Rightarrow> 'r dec option" where
  "find_field fs k =
     (case map_of fs k of
        Some d \<Rightarrow> Some d
      | None \<Rightarrow> map_option snd (find (\<lambda>(n, _). EqualFold n k) fs))"

fun dec_fields :: "(string \<times> 'r dec) list \<Rightarrow> (string \<times> json) list \<Rightarrow> 'r \<Rightarrow> 'r \<times> bool" where
  "dec_fields fs [] r = (r, False)"
| "dec_fields fs ((k, v) # kvs) r =
     (case find_field fs k of
        None \<Rightarrow> dec_fields fs kvs r
      | Some d \<Rightarrow>
          (let (r1, e1) = d v r; (r2, e2) = dec_fields fs kvs r1 in (r2, e1 \<or> e2)))"

fun dec_struct :: "(string \<times> 'r dec) list \<Rightarrow> 'r dec" where
  "dec_struct fs (JObj kvs) r = dec_fields fs kvs r"
| "dec_struct fs JNull r = (r, False)"
| "dec_struct fs _ r = (r, True)"

definition dec_on :: "('r \<Rightarrow> 'a) \<Rightarrow> (('a \<Rightarrow> 'a) \<Rightarrow> 'r \<Rightarrow> 'r) \<Rightarrow> 'a dec \<Rightarrow> 'r dec" where
  "dec_on get upd d j r = (let (x, e) = d j (get r) in (upd (\<lambda>_. x) r, e))"

fun dec_list :: "'a dec \<Rightarrow> 'a \<Rightarrow> 'a list dec" where
  "dec_list d zero (JArr js) old =
     (map (\<lambda>j. fst (d j zero)) js, list_ex (\<lambda>j. snd (d j zero)) js)"
| "dec_list d zero JNull old = ([], False)"
| "dec_list d zero _ old = (old, True)"

text \<open>\<^verbatim>\<open>map[string]interface{}\<close>, in insertion order; a later duplicate overwrites.\<close>

fun alist_put :: "'k \<Rightarrow> 'v \<Rightarrow> ('k \<times> 'v) list \<Rightarrow> ('k \<times> 'v) list" where
  "alist_put k v [] = [(k, v)]"
| "alist_put k v ((k', v') # m) = (if k = k' then (k, v) # m else (k', v') # alist_put k v m)"

fun dec_object :: "(string \<times> json) list dec" where
  "dec_object (JObj kvs) old = (fold (\<lambda>(k, v). alist_put k v) kvs old, False)"
| "dec_object JNull old = ([], False)"
| "dec_object _ old = (old, True)"

text \<open>\<^verbatim>\<open>json.Unmarshal(raw, \&target)\<close>: a nil message is an unexpected end of input.\<close>

fun Unmarshal :: "'r dec \<Rightarrow> json option \<Rightarrow> 'r \<Rightarrow> 'r \<times> bool" where
  "Unmarshal d None old = (old, True)"
| "Unmarshal d (Some j) old = d j old"

lemma map_of_alist_put [simp]: "map_of (alist_put k v m) = (map_of m)(k \<mapsto> v)"
  by (induction m) (auto simp: fun_eq_iff)

lemma keys_alist_put: "set (map fst (alist_put k v m)) = insert k (set (map fst m))"
  by (induction k v m rule: alist_put.induct) (auto simp del: set_map)

lemma distinct_alist_put: "distinct (map fst m) \<Longrightarrow> distinct (map fst (alist_put k v m))"
  by (induction k v m rule: alist_put.induct) (auto simp: keys_alist_put simp del: set_map)

lemma set_alist_put_subset: "set (alist_put k v m) \<subseteq> insert (k, v) (set m)"
  by (induction k v m rule: alist_put.induct) auto

lemma alist_put_not_Nil [simp]: "alist_put k v m \<noteq> []"
  by (cases m) (auto split: if_splits)

lemma dec_int_FormatInt [simp]: "is_i64 n \<Longrightarrow> dec_int (JNum (FormatInt n)) old = (n, False)"
  by (simp add: ParseInt_FormatInt)

lemma find_field_exact: "map_of fs k = Some d \<Longrightarrow> find_field fs k = Some d"
  by (simp add: find_field_def)

lemma dec_fields_skip: "find_field fs k = None \<Longrightarrow> dec_fields fs ((k, v) # kvs) r = dec_fields fs kvs r"
  by simp

end
