(* ===== verification/Attacker_Types.thy ===== *)
theory Attacker_Types
  imports Go_Json
begin

text \<open>
  \<^verbatim>\<open>src/types/types.go\<close>: the commands the service answers with, the roles of a
  validator, the response record and the client's self-description.
\<close>

datatype AttackerCommand =
    CMD_NULL
  | CMD_CONTINUE
  | CMD_RETURN
  | CMD_ABORT
  | CMD_SKIP
  | CMD_ROLE_TO_NORMAL
  | CMD_ROLE_TO_ATTACKER
  | CMD_EXIT
  | CMD_UPDATE_STATE

datatype RoleType = NormalRole | AttackerRole

record AttackerResponse =
  Cmd :: AttackerCommand
  Result :: string

record ClientInfo =
  cli_UUID :: string
  cli_ValidatorIndex :: int

text \<open>The number of a command on the wire: its position in the \<^verbatim>\<open>iota\<close> block.\<close>

fun cmd_number :: "AttackerCommand \<Rightarrow> int" where
  "cmd_number CMD_NULL = 0"
| "cmd_number CMD_CONTINUE = 1"
| "cmd_number CMD_RETURN = 2"
| "cmd_number CMD_ABORT = 3"
| "cmd_number CMD_SKIP = 4"
| "cmd_number CMD_ROLE_TO_NORMAL = 5"
| "cmd_number CMD_ROLE_TO_ATTACKER = 6"
| "cmd_number CMD_EXIT = 7"
| "cmd_number CMD_UPDATE_STATE = 8"

lemma cmd_number_inj: "cmd_number a = cmd_number b \<longleftrightarrow> a = b"
  by (cases a; cases b) simp_all

text \<open>A response with no \<^verbatim>\<open>Result\<close> set has the empty string there.\<close>

definition respond :: "AttackerCommand \<Rightarrow> string \<Rightarrow> AttackerResponse" where
  "respond c r = \<lparr>Cmd = c, Result = r\<rparr>"

lemma respond_simps [simp]: "Cmd (respond c r) = c" "Result (respond c r) = r"
  by (simp_all add: respond_def)

lemma respond_inj [simp]: "respond c r = respond c' r' \<longleftrightarrow> c = c' \<and> r = r'"
  by (simp add: respond_def)

definition ClientInfo_fields :: "(string \<times> ClientInfo dec) list" where
  "ClientInfo_fields =
     [(''uuid'', dec_on cli_UUID cli_UUID_update dec_string),
      (''validatorIndex'', dec_on cli_ValidatorIndex cli_ValidatorIndex_update dec_int)]"

text \<open>\<^verbatim>\<open>ToClientInfo\<close> drops the decoder's error: what was stored before it stays.\<close>

definition ToClientInfo :: "json option \<Rightarrow> ClientInfo" where
  "ToClientInfo cliInfo =
     fst (Unmarshal (dec_struct ClientInfo_fields) cliInfo \<lparr>cli_UUID = [], cli_ValidatorIndex = 0\<rparr>)"

text \<open>\<^verbatim>\<open>Client.clientInfo\<close> of \<^verbatim>\<open>attackclient\<close> marshals the same struct.\<close>

definition clientInfo_json :: "ClientInfo \<Rightarrow> json" where
  "clientInfo_json c =
     JObj [(''uuid'', JStr (cli_UUID c)), (''validatorIndex'', JNum (FormatInt (cli_ValidatorIndex c)))]"

end
