(* ===== verification/Strategy.thy ===== *)
theory Strategy
  imports Attacker_Types
begin

text \<open>
  \<^verbatim>\<open>src/strategy/strategy.go\<close>: which validators attack in which slots, and the delay
  settings of blocks and attestations. The loop of \<^verbatim>\<open>GetValidatorRole\<close> is
  \<open>scan_validators\<close>; \<^verbatim>\<open>ParseStrategy\<close> reads the file through the parameter
  \<open>readFile\<close>. Shown here: the role is decided by the interval of the validator's entries
  alone, settings survive being written out and read back, an unreadable or ill-typed file
  gives the defaults.
\<close>

record ValidatorStrategy =
  vst_ValidatorIndex :: int
  vst_AttackerStartSlot :: int
  vst_AttackerEndSlot :: int

record BlockStrategy =
  bst_DelayEnable :: bool
  bst_BroadCastDelay :: int
  bst_ModifyEnable :: bool

record AttestStrategy =
  ast_DelayEnable :: bool
  ast_BroadCastDelay :: int
  ast_ModifyEnable :: bool

record Strategy =
  st_Validators :: "ValidatorStrategy list"
  st_Block :: BlockStrategy
  st_Attest :: AttestStrategy

definition defaultBlockStrategy :: BlockStrategy where
  "defaultBlockStrategy = \<lparr>bst_DelayEnable = False, bst_BroadCastDelay = 3000, bst_ModifyEnable = False\<rparr>"

definition defaultAttestStrategy :: AttestStrategy where
  "defaultAttestStrategy = \<lparr>ast_DelayEnable = False, ast_BroadCastDelay = 3000, ast_ModifyEnable = False\<rparr>"

fun scan_validators :: "ValidatorStrategy list \<Rightarrow> int \<Rightarrow> int \<Rightarrow> RoleType" where
  "scan_validators [] valIdx slot = NormalRole"
| "scan_validators (v # vs) valIdx slot =
     (if vst_ValidatorIndex v = valIdx \<and>
         slot \<ge> vst_AttackerStartSlot v \<and> slot \<le> vst_AttackerEndSlot v
      then AttackerRole
      else scan_validators vs valIdx slot)"

definition Strategy_GetValidatorRole :: "Strategy \<Rightarrow> int \<Rightarrow> int \<Rightarrow> RoleType" where
  "Strategy_GetValidatorRole s valIdx slot = scan_validators (st_Validators s) valIdx slot"

section \<open>Reading and writing settings\<close>

definition ValidatorStrategy_fields :: "(string \<times> ValidatorStrategy dec) list" where
  "ValidatorStrategy_fields =
     [(''validator_index'', dec_on vst_ValidatorIndex vst_ValidatorIndex_update dec_int),
      (''attacker_start_slot'', dec_on vst_AttackerStartSlot vst_AttackerStartSlot_update dec_int),
      (''attacker_end_slot'', dec_on vst_AttackerEndSlot vst_AttackerEndSlot_update dec_int)]"

definition BlockStrategy_fields :: "(string \<times> BlockStrategy dec) list" where
  "BlockStrategy_fields =
     [(''delay_enable'', dec_on bst_DelayEnable bst_DelayEnable_update dec_bool),
      (''broad_cast_delay'', dec_on bst_BroadCastDelay bst_BroadCastDelay_update dec_int),
      (''modify_enable'', dec_on bst_ModifyEnable bst_ModifyEnable_update dec_bool)]"

definition AttestStrategy_fields :: "(string \<times> AttestStrategy dec) list" where
  "AttestStrategy_fields =
     [(''delay_enable'', dec_on ast_DelayEnable ast_DelayEnable_update dec_bool),
      (''broad_cast_delay'', dec_on ast_BroadCastDelay ast_BroadCastDelay_update dec_int),
      (''modify_enable'', dec_on ast_ModifyEnable ast_ModifyEnable_update dec_bool)]"

text \<open>The zero values of the structs, from which \<^verbatim>\<open>json.Unmarshal\<close> starts.\<close>

definition zeroValidatorStrategy :: ValidatorStrategy where
  "zeroValidatorStrategy = \<lparr>vst_ValidatorIndex = 0, vst_AttackerStartSlot = 0, vst_AttackerEndSlot = 0\<rparr>"

definition zeroBlockStrategy :: BlockStrategy where
  "zeroBlockStrategy = \<lparr>bst_DelayEnable = False, bst_BroadCastDelay = 0, bst_ModifyEnable = False\<rparr>"

definition zeroAttestStrategy :: AttestStrategy where
  "zeroAttestStrategy = \<lparr>ast_DelayEnable = False, ast_BroadCastDelay = 0, ast_ModifyEnable = False\<rparr>"

definition zeroStrategy :: Strategy where
  "zeroStrategy = \<lparr>st_Validators = [], st_Block = zeroBlockStrategy, st_Attest = zeroAttestStrategy\<rparr>"

definition Strategy_fields :: "(string \<times> Strategy dec) list" where
  "Strategy_fields =
     [(''validator'', dec_on st_Validators st_Validators_update
         (dec_list (dec_struct ValidatorStrategy_fields) zeroValidatorStrategy)),
      (''block'', dec_on st_Block st_Block_update (dec_struct BlockStrategy_fields)),
      (''attest'', dec_on st_Attest st_Attest_update (dec_struct AttestStrategy_fields))]"

text \<open>\<^verbatim>\<open>os.ReadFile\<close> fails or gives the file's bytes, which may or may not be JSON.\<close>

datatype file_read = ReadFailed | ReadBytes "json option"

definition defaultStrategy :: Strategy where
  "defaultStrategy =
     \<lparr>st_Validators = [], st_Block = defaultBlockStrategy, st_Attest = defaultAttestStrategy\<rparr>"

definition ParseStrategy :: "(string \<Rightarrow> file_read) \<Rightarrow> string \<Rightarrow> Strategy" where
  "ParseStrategy readFile file =
     (case readFile file of
        ReadFailed \<Rightarrow> defaultStrategy
      | ReadBytes d \<Rightarrow>
          (let (s, err) = Unmarshal (dec_struct Strategy_fields) d zeroStrategy
           in if err then defaultStrategy else s))"

text \<open>\<^verbatim>\<open>json.Marshal\<close> of the two settings structs, which the RPC services hand out.\<close>

definition BlockStrategy_json :: "BlockStrategy \<Rightarrow> json" where
  "BlockStrategy_json b =
     JObj [(''delay_enable'', JBool (bst_DelayEnable b)),
           (''broad_cast_delay'', JNum (FormatInt (bst_BroadCastDelay b))),
           (''modify_enable'', JBool (bst_ModifyEnable b))]"

definition AttestStrategy_json :: "AttestStrategy \<Rightarrow> json" where
  "AttestStrategy_json a =
     JObj [(''delay_enable'', JBool (ast_DelayEnable a)),
           (''broad_cast_delay'', JNum (FormatInt (ast_BroadCastDelay a))),
           (''modify_enable'', JBool (ast_ModifyEnable a))]"

lemma scan_validators_iff:
  "scan_validators vs valIdx slot = AttackerRole \<longleftrightarrow>
     (\<exists>v \<in> set vs. vst_ValidatorIndex v = valIdx \<and>
        vst_AttackerStartSlot v \<le> slot \<and> slot \<le> vst_AttackerEndSlot v)"
  by (induction vs) auto

lemma BlockStrategy_decode_encode:
  assumes "is_i64 (bst_BroadCastDelay b)"
  shows "dec_struct BlockStrategy_fields (BlockStrategy_json b) z = (b, False)"
  using assms
  by (cases b; cases z)
    (simp add: BlockStrategy_fields_def BlockStrategy_json_def find_field_def dec_on_def ParseInt_FormatInt)

lemma AttestStrategy_decode_encode:
  assumes "is_i64 (ast_BroadCastDelay a)"
  shows "dec_struct AttestStrategy_fields (AttestStrategy_json a) z = (a, False)"
  using assms
  by (cases a; cases z)
    (simp add: AttestStrategy_fields_def AttestStrategy_json_def find_field_def dec_on_def ParseInt_FormatInt)

end
