(* ===== verification/Validator_Set.thy ===== *)
theory Validator_Set
  imports Go_Json
begin

text \<open>
  \<^verbatim>\<open>src/validatorSet/validatorSet.go\<close>: the validators the service has seen, by index
  and by public key, and the signed attestations and blocks collected per slot. Attestations
  (\<open>'att\<close>) and blocks (\<open>'blk\<close>) are protobuf messages the set only stores. The maps of
  one slot are iterated elsewhere and so are association lists; the others are HOL maps. The
  methods hold the set's lock for their whole body: one method is one step.

  The locale \<open>slot_store\<close> is the contract of a per-slot store; the attestation half and
  the block half of the set both interpret it. \<open>vset_step\<close> and \<open>vset_reachable\<close> give the
  states a run of the methods can reach, \<open>vset_wf\<close> their invariant.
\<close>

record ValidatorInfo =
  val_Index :: int
  val_Pubkey :: string

record 'att SlotAttestSet =
  Attestations :: "(string \<times> 'att) list"

record 'blk SlotBlockSet =
  Blocks :: "(string \<times> 'blk) list"

record ('att, 'blk) ValidatorDataSet =
  ValidatorByIndex :: "int \<Rightarrow> ValidatorInfo option"
  ValidatorByPubkey :: "string \<Rightarrow> ValidatorInfo option"
  AttestSet :: "u64 \<Rightarrow> 'att SlotAttestSet option"
  BlockSet :: "u64 \<Rightarrow> 'blk SlotBlockSet option"

definition NewValidatorSet :: "('att, 'blk) ValidatorDataSet" where
  "NewValidatorSet =
     \<lparr>ValidatorByIndex = Map.empty, ValidatorByPubkey = Map.empty,
      AttestSet = Map.empty, BlockSet = Map.empty\<rparr>"

definition padPubkey :: "string \<Rightarrow> string" where
  "padPubkey p = (if HasPrefix p ''0x'' then p else ''0x'' @ p)"

definition AddValidator ::
  "int \<Rightarrow> string \<Rightarrow> ('att, 'blk) ValidatorDataSet \<Rightarrow> ('att, 'blk) ValidatorDataSet" where
  "AddValidator index pubkey vs =
     (let pubkey = padPubkey pubkey;
          v = \<lparr>val_Index = index, val_Pubkey = pubkey\<rparr>
      in vs\<lparr>ValidatorByIndex := (ValidatorByIndex vs)(index \<mapsto> v),
            ValidatorByPubkey := (ValidatorByPubkey vs)(pubkey \<mapsto> v)\<rparr>)"

definition GetValidatorByIndex :: "('att, 'blk) ValidatorDataSet \<Rightarrow> int \<Rightarrow> ValidatorInfo option" where
  "GetValidatorByIndex vs index = ValidatorByIndex vs index"

definition GetValidatorByPubkey :: "('att, 'blk) ValidatorDataSet \<Rightarrow> string \<Rightarrow> ValidatorInfo option" where
  "GetValidatorByPubkey vs pubkey = ValidatorByPubkey vs (padPubkey pubkey)"

definition GetAttestSet :: "('att, 'blk) ValidatorDataSet \<Rightarrow> u64 \<Rightarrow> 'att SlotAttestSet option" where
  "GetAttestSet vs slot = AttestSet vs slot"

definition GetBlockSet :: "('att, 'blk) ValidatorDataSet \<Rightarrow> u64 \<Rightarrow> 'blk SlotBlockSet option" where
  "GetBlockSet vs slot = BlockSet vs slot"

definition AddSignedAttestation ::
  "u64 \<Rightarrow> string \<Rightarrow> 'att \<Rightarrow> ('att, 'blk) ValidatorDataSet \<Rightarrow> ('att, 'blk) ValidatorDataSet" where
  "AddSignedAttestation slot pubkey attestation vs =
     (let pubkey = padPubkey pubkey;
          set0 = (case AttestSet vs slot of None \<Rightarrow> \<lparr>Attestations = []\<rparr> | Some s \<Rightarrow> s);
          set1 = set0\<lparr>Attestations := alist_put pubkey attestation (Attestations set0)\<rparr>
      in vs\<lparr>AttestSet := (AttestSet vs)(slot \<mapsto> set1)\<rparr>)"

definition AddSignedBlock ::
  "u64 \<Rightarrow> string \<Rightarrow> 'blk \<Rightarrow> ('att, 'blk) ValidatorDataSet \<Rightarrow> ('att, 'blk) ValidatorDataSet" where
  "AddSignedBlock slot pubkey block vs =
     (let pubkey = padPubkey pubkey;
          set0 = (case BlockSet vs slot of None \<Rightarrow> \<lparr>Blocks = []\<rparr> | Some s \<Rightarrow> s);
          set1 = set0\<lparr>Blocks := alist_put pubkey block (Blocks set0)\<rparr>
      in vs\<lparr>BlockSet := (BlockSet vs)(slot \<mapsto> set1)\<rparr>)"

text \<open>What a reader finds for a slot and a key.\<close>

definition attest_entry :: "('att, 'blk) ValidatorDataSet \<Rightarrow> u64 \<Rightarrow> string \<Rightarrow> 'att option" where
  "attest_entry vs slot pubkey =
     Option.bind (GetAttestSet vs slot) (\<lambda>s. map_of (Attestations s) (padPubkey pubkey))"

definition block_entry :: "('att, 'blk) ValidatorDataSet \<Rightarrow> u64 \<Rightarrow> string \<Rightarrow> 'blk option" where
  "block_entry vs slot pubkey =
     Option.bind (GetBlockSet vs slot) (\<lambda>s. map_of (Blocks s) (padPubkey pubkey))"

section \<open>States of the set\<close>

inductive vset_step :: "('att, 'blk) ValidatorDataSet \<Rightarrow> ('att, 'blk) ValidatorDataSet \<Rightarrow> bool" where
  add_validator: "vset_step vs (AddValidator index pubkey vs)"
| add_attestation: "vset_step vs (AddSignedAttestation slot pubkey att vs)"
| add_block: "vset_step vs (AddSignedBlock slot pubkey blk vs)"

inductive vset_reachable :: "('att, 'blk) ValidatorDataSet \<Rightarrow> bool" where
  new: "vset_reachable NewValidatorSet"
| step: "vset_reachable vs \<Longrightarrow> vset_step vs vs' \<Longrightarrow> vset_reachable vs'"

text \<open>
  Every entry sits under its own key, keys are padded, an indexed key has its index on
  record, and no slot lists a key twice.
\<close>

definition keys_ok :: "(string \<times> 'a) list \<Rightarrow> bool" where
  "keys_ok m \<longleftrightarrow> distinct (map fst m) \<and> list_all (\<lambda>p. HasPrefix p ''0x'') (map fst m)"

definition vset_wf :: "('att, 'blk) ValidatorDataSet \<Rightarrow> bool" where
  "vset_wf vs \<longleftrightarrow>
     (\<forall>i v. ValidatorByIndex vs i = Some v \<longrightarrow> val_Index v = i \<and> HasPrefix (val_Pubkey v) ''0x'') \<and>
     (\<forall>p v. ValidatorByPubkey vs p = Some v \<longrightarrow>
        val_Pubkey v = p \<and> HasPrefix p ''0x'' \<and> val_Index v \<in> dom (ValidatorByIndex vs)) \<and>
     (\<forall>slot s. AttestSet vs slot = Some s \<longrightarrow> keys_ok (Attestations s)) \<and>
     (\<forall>slot s. BlockSet vs slot = Some s \<longrightarrow> keys_ok (Blocks s))"

lemma HasPrefix_padPubkey [simp]: "HasPrefix (padPubkey p) ''0x''"
  using HasPrefix_append [of "''0x''" p] by (simp add: padPubkey_def)

lemma padPubkey_idem [simp]: "padPubkey (padPubkey p) = padPubkey p"
  using HasPrefix_padPubkey [of p] by (simp add: padPubkey_def [of "padPubkey p"])

lemma padPubkey_prefixed: "HasPrefix p ''0x'' \<Longrightarrow> padPubkey p = p"
  by (simp add: padPubkey_def)

lemma attest_entry_AddSignedAttestation:
  "attest_entry (AddSignedAttestation slot p a vs) slot' p' =
     (if slot = slot' \<and> padPubkey p = padPubkey p' then Some a else attest_entry vs slot' p')"
  by (auto simp: attest_entry_def AddSignedAttestation_def GetAttestSet_def Let_def split: option.split)

lemma block_entry_AddSignedBlock:
  "block_entry (AddSignedBlock slot p b vs) slot' p' =
     (if slot = slot' \<and> padPubkey p = padPubkey p' then Some b else block_entry vs slot' p')"
  by (auto simp: block_entry_def AddSignedBlock_def GetBlockSet_def Let_def split: option.split)

lemma keys_ok_Nil [simp]: "keys_ok []"
  by (simp add: keys_ok_def)

lemma keys_ok_put [simp]: "keys_ok m \<Longrightarrow> keys_ok (alist_put (padPubkey k) v m)"
  by (simp add: keys_ok_def distinct_alist_put list_all_iff keys_alist_put del: set_map)

lemma vset_wf_NewValidatorSet [simp]: "vset_wf NewValidatorSet"
  by (simp add: vset_wf_def NewValidatorSet_def)

lemma vset_wf_AddValidator: "vset_wf vs \<Longrightarrow> vset_wf (AddValidator i p vs)"
  by (auto simp: vset_wf_def AddValidator_def Let_def)

lemma vset_wf_AddSignedAttestation: "vset_wf vs \<Longrightarrow> vset_wf (AddSignedAttestation slot p a vs)"
  by (auto simp: vset_wf_def AddSignedAttestation_def Let_def split: option.split)

lemma vset_wf_AddSignedBlock: "vset_wf vs \<Longrightarrow> vset_wf (AddSignedBlock slot p b vs)"
  by (auto simp: vset_wf_def AddSignedBlock_def Let_def split: option.split)

lemma vset_step_wf: "vset_step vs vs' \<Longrightarrow> vset_wf vs \<Longrightarrow> vset_wf vs'"
  by (induction rule: vset_step.induct)
    (simp_all add: vset_wf_AddValidator vset_wf_AddSignedAttestation vset_wf_AddSignedBlock)

section \<open>Attestations of known validators\<close>

text \<open>
  Every attestation on record has the key of a validator on record. The loop of the
  block service that collects them needs it: it dereferences the validator it finds for a key.
\<close>

definition known_attesters :: "('att, 'blk) ValidatorDataSet \<Rightarrow> bool" where
  "known_attesters vs \<longleftrightarrow>
     (\<forall>slot sa p a. GetAttestSet vs slot = Some sa \<longrightarrow> (p, a) \<in> set (Attestations sa) \<longrightarrow>
        GetValidatorByPubkey vs p \<noteq> None)"

lemma known_attesters_new [simp]: "known_attesters NewValidatorSet"
  by (simp add: known_attesters_def GetAttestSet_def NewValidatorSet_def)

lemma known_attesters_AddValidator: "known_attesters vs \<Longrightarrow> known_attesters (AddValidator i p vs)"
  by (fastforce simp: known_attesters_def GetAttestSet_def GetValidatorByPubkey_def AddValidator_def Let_def)

lemma known_attesters_AddSignedBlock: "known_attesters vs \<Longrightarrow> known_attesters (AddSignedBlock slot p b vs)"
  by (simp add: known_attesters_def GetAttestSet_def GetValidatorByPubkey_def AddSignedBlock_def Let_def)

lemma set_alist_put: "set (alist_put k v m) \<subseteq> insert (k, v) (set m)"
  by (induction k v m rule: alist_put.induct) auto

lemma known_attesters_AddSignedAttestation:
  assumes "known_attesters vs" and "GetValidatorByPubkey vs p \<noteq> None"
  shows "known_attesters (AddSignedAttestation slot p a vs)"
  unfolding known_attesters_def
proof (intro allI impI)
  fix slot' sa q b
  assume sa: "GetAttestSet (AddSignedAttestation slot p a vs) slot' = Some sa"
    and q: "(q, b) \<in> set (Attestations sa)"
  have same: "GetValidatorByPubkey (AddSignedAttestation slot p a vs) k = GetValidatorByPubkey vs k" for k
    by (simp add: GetValidatorByPubkey_def AddSignedAttestation_def Let_def)
  have "q = padPubkey p \<or> (\<exists>sa'. GetAttestSet vs slot' = Some sa' \<and> (q, b) \<in> set (Attestations sa'))"
    using sa q
    by (auto dest!: subsetD [OF set_alist_put] simp: GetAttestSet_def AddSignedAttestation_def Let_def split: if_splits option.splits)
  then show "GetValidatorByPubkey (AddSignedAttestation slot p a vs) q \<noteq> None"
  proof
    assume "q = padPubkey p"
    then show ?thesis unfolding same using assms(2) by (simp add: GetValidatorByPubkey_def)
  next
    assume "\<exists>sa'. GetAttestSet vs slot' = Some sa' \<and> (q, b) \<in> set (Attestations sa')"
    then show ?thesis using assms(1) unfolding known_attesters_def same by blast
  qed
qed

section \<open>The contract of a per-slot store\<close>

locale slot_store =
  fixes new :: "'v"
    and add :: "u64 \<Rightarrow> string \<Rightarrow> 'm \<Rightarrow> 'v \<Rightarrow> 'v"
    and entry :: "'v \<Rightarrow> u64 \<Rightarrow> string \<Rightarrow> 'm option"
  assumes entry_new: "entry new slot p = None"
    and entry_add: "entry (add slot p m v) slot' p' =
      (if slot = slot' \<and> padPubkey p = padPubkey p' then Some m else entry v slot' p')"
begin

definition add_all :: "(u64 \<times> string \<times> 'm) list \<Rightarrow> 'v \<Rightarrow> 'v" where
  "add_all xs v = fold (\<lambda>(slot, p, m). add slot p m) xs v"

lemma add_all_snoc: "add_all (xs @ [(slot, p, m)]) v = add slot p m (add_all xs v)"
  by (simp add: add_all_def)

text \<open>The abstract store is a map from slot and padded key; writes are map updates.\<close>

lemma entry_add_all:
  "entry (add_all xs new) slot p =
     map_of (rev (map (\<lambda>(s, q, m). ((s, padPubkey q), m)) xs)) (slot, padPubkey p)"
proof (induction xs rule: rev_induct)
  case Nil
  show ?case by (simp add: add_all_def entry_new)
next
  case (snoc x xs)
  obtain s q m where "x = (s, q, m)" by (cases x)
  with snoc show ?case by (auto simp: add_all_snoc entry_add)
qed

end

lemma attest_entry_new: "attest_entry NewValidatorSet slot p = None"
  by (simp add: attest_entry_def GetAttestSet_def NewValidatorSet_def)

lemma block_entry_new: "block_entry NewValidatorSet slot p = None"
  by (simp add: block_entry_def GetBlockSet_def NewValidatorSet_def)

interpretation attests: slot_store NewValidatorSet AddSignedAttestation attest_entry
  by unfold_locales (rule attest_entry_new attest_entry_AddSignedAttestation)+

interpretation blocks: slot_store NewValidatorSet AddSignedBlock block_entry
  by unfold_locales (rule block_entry_new block_entry_AddSignedBlock)+

end
