(* ===== verification/Beacon_Client.thy ===== *)
theory Beacon_Client
  imports Go_Json
begin

text \<open>
  \<^verbatim>\<open>src/beaconapi/beaconclient.go\<close> and \<^verbatim>\<open>type.go\<close>: the client of the beacon node's
  HTTP gateway. Its state is the endpoint and the cached chain configuration; what is outside
  the program is the record \<open>env\<close>: the answer of the node to the \<open>n\<close>-th exchange of the run,
  and the order of the \<open>n\<close>-th map iteration. The ghost field \<open>gw_clock\<close> counts both, so two
  equal requests may get different answers. Every operation works on any record that extends
  \<open>gw\<close>: the server's state does.

  Shown here: which part of the state the operations touch, that a fetched configuration is
  not fetched again, and where the operations panic.
\<close>

datatype http_request = HttpGet string | HttpPost string json

datatype http_answer = HttpFailed | HttpBody "json option"

record env =
  env_net :: "nat \<Rightarrow> http_request \<Rightarrow> http_answer"
  env_order :: "nat \<Rightarrow> nat \<Rightarrow> nat list"

record gw =
  gw_endpoint :: string
  gw_config :: "(string \<times> string) list"
  gw_clock :: nat

datatype beacon_error = UnmarshalFailed | NotFound

section \<open>The gateway's data\<close>

record TotalReward =
  rew_ValidatorIndex :: string
  rew_Head :: string
  rew_Target :: string
  rew_Source :: string
  rew_InclusionDelay :: string
  rew_Inactivity :: string

record RewardInfo =
  rew_TotalRewards :: "TotalReward list"

record BeaconHeaderMessage =
  msg_Slot :: string
  msg_ProposerIndex :: string
  msg_ParentRoot :: string
  msg_StateRoot :: string
  msg_BodyRoot :: string

record BeaconHeader =
  hdr_Message :: BeaconHeaderMessage
  hdr_Signature :: string

record BeaconHeaderInfo =
  hdi_Header :: BeaconHeader
  hdi_Root :: string
  hdi_Canonical :: bool

record ProposerDuty =
  pd_Pubkey :: string
  pd_ValidatorIndex :: string
  pd_Slot :: string

record AttestDuty =
  ad_Pubkey :: string
  ad_ValidatorIndex :: string
  ad_CommitteeIndex :: string
  ad_CommitteeLength :: string
  ad_CommitteesAtSlot :: string
  ad_ValidatorCommitteeIndex :: string
  ad_Slot :: string

record BeaconResponse =
  br_Data :: "json option"

definition TotalReward_fields :: "(string \<times> TotalReward dec) list" where
  "TotalReward_fields =
     [(''validator_index'', dec_on rew_ValidatorIndex rew_ValidatorIndex_update dec_string),
      (''head'', dec_on rew_Head rew_Head_update dec_string),
      (''target'', dec_on rew_Target rew_Target_update dec_string),
      (''source'', dec_on rew_Source rew_Source_update dec_string),
      (''inclusion_delay'', dec_on rew_InclusionDelay rew_InclusionDelay_update dec_string),
      (''inactivity'', dec_on rew_Inactivity rew_Inactivity_update dec_string)]"

definition zeroTotalReward :: TotalReward where
  "zeroTotalReward =
     \<lparr>rew_ValidatorIndex = [], rew_Head = [], rew_Target = [], rew_Source = [],
      rew_InclusionDelay = [], rew_Inactivity = []\<rparr>"

definition RewardInfo_fields :: "(string \<times> RewardInfo dec) list" where
  "RewardInfo_fields =
     [(''total_rewards'', dec_on rew_TotalRewards rew_TotalRewards_update
         (dec_list (dec_struct TotalReward_fields) zeroTotalReward))]"

definition BeaconHeaderMessage_fields :: "(string \<times> BeaconHeaderMessage dec) list" where
  "BeaconHeaderMessage_fields =
     [(''slot'', dec_on msg_Slot msg_Slot_update dec_string),
      (''proposer_index'', dec_on msg_ProposerIndex msg_ProposerIndex_update dec_string),
      (''parent_root'', dec_on msg_ParentRoot msg_ParentRoot_update dec_string),
      (''state_root'', dec_on msg_StateRoot msg_StateRoot_update dec_string),
      (''body_root'', dec_on msg_BodyRoot msg_BodyRoot_update dec_string)]"

definition BeaconHeader_fields :: "(string \<times> BeaconHeader dec) list" where
  "BeaconHeader_fields =
     [(''message'', dec_on hdr_Message hdr_Message_update (dec_struct BeaconHeaderMessage_fields)),
      (''signature'', dec_on hdr_Signature hdr_Signature_update dec_string)]"

definition BeaconHeaderInfo_fields :: "(string \<times> BeaconHeaderInfo dec) list" where
  "BeaconHeaderInfo_fields =
     [(''header'', dec_on hdi_Header hdi_Header_update (dec_struct BeaconHeader_fields)),
      (''root'', dec_on hdi_Root hdi_Root_update dec_string),
      (''canonical'', dec_on hdi_Canonical hdi_Canonical_update dec_bool)]"

definition zeroBeaconHeaderInfo :: BeaconHeaderInfo where
  "zeroBeaconHeaderInfo =
     \<lparr>hdi_Header =
        \<lparr>hdr_Message =
           \<lparr>msg_Slot = [], msg_ProposerIndex = [], msg_ParentRoot = [], msg_StateRoot = [],
            msg_BodyRoot = []\<rparr>,
         hdr_Signature = []\<rparr>,
      hdi_Root = [], hdi_Canonical = False\<rparr>"

definition ProposerDuty_fields :: "(string \<times> ProposerDuty dec) list" where
  "ProposerDuty_fields =
     [(''pubkey'', dec_on pd_Pubkey pd_Pubkey_update dec_string),
      (''validator_index'', dec_on pd_ValidatorIndex pd_ValidatorIndex_update dec_string),
      (''slot'', dec_on pd_Slot pd_Slot_update dec_string)]"

definition zeroProposerDuty :: ProposerDuty where
  "zeroProposerDuty = \<lparr>pd_Pubkey = [], pd_ValidatorIndex = [], pd_Slot = []\<rparr>"

definition AttestDuty_fields :: "(string \<times> AttestDuty dec) list" where
  "AttestDuty_fields =
     [(''pubkey'', dec_on ad_Pubkey ad_Pubkey_update dec_string),
      (''validator_index'', dec_on ad_ValidatorIndex ad_ValidatorIndex_update dec_string),
      (''committee_index'', dec_on ad_CommitteeIndex ad_CommitteeIndex_update dec_string),
      (''committee_length'', dec_on ad_CommitteeLength ad_CommitteeLength_update dec_string),
      (''committees_at_slot'', dec_on ad_CommitteesAtSlot ad_CommitteesAtSlot_update dec_string),
      (''validator_committee_index'',
         dec_on ad_ValidatorCommitteeIndex ad_ValidatorCommitteeIndex_update dec_string),
      (''slot'', dec_on ad_Slot ad_Slot_update dec_string)]"

definition zeroAttestDuty :: AttestDuty where
  "zeroAttestDuty =
     \<lparr>ad_Pubkey = [], ad_ValidatorIndex = [], ad_CommitteeIndex = [], ad_CommitteeLength = [],
      ad_CommitteesAtSlot = [], ad_ValidatorCommitteeIndex = [], ad_Slot = []\<rparr>"

definition BeaconResponse_fields :: "(string \<times> BeaconResponse dec) list" where
  "BeaconResponse_fields = [(''data'', dec_on br_Data br_Data_update dec_raw)]"

definition zeroBeaconResponse :: BeaconResponse where
  "zeroBeaconResponse = \<lparr>br_Data = None\<rparr>"

section \<open>The environment\<close>

definition exchange :: "env \<Rightarrow> http_request \<Rightarrow> ('z gw_scheme, http_answer) gom" where
  "exchange E req =
     gbind (gread gw_clock) (\<lambda>n.
     gbind (gmodify (gw_clock_update Suc)) (\<lambda>_. gret (env_net E n req)))"

definition range_map :: "env \<Rightarrow> 'a list \<Rightarrow> ('z gw_scheme, 'a list) gom" where
  "range_map E m =
     gbind (gread gw_clock) (\<lambda>n.
     gbind (gmodify (gw_clock_update Suc)) (\<lambda>_. gret (visit (env_order E n) m)))"

section \<open>Requests\<close>

definition NewBeaconGwClient :: "string \<Rightarrow> gw" where
  "NewBeaconGwClient endpoint = \<lparr>gw_endpoint = endpoint, gw_config = [], gw_clock = 0\<rparr>"

text \<open>
  \<^verbatim>\<open>doGet\<close> and \<^verbatim>\<open>doPost\<close> report a failed exchange only; a body that does not decode
  is logged and leaves the zero response.
\<close>

definition decode_response :: "http_answer \<Rightarrow> BeaconResponse \<times> bool" where
  "decode_response ans =
     (case ans of
        HttpFailed \<Rightarrow> (zeroBeaconResponse, True)
      | HttpBody b \<Rightarrow>
          (fst (Unmarshal (dec_struct BeaconResponse_fields) b zeroBeaconResponse), False))"

definition doGet :: "env \<Rightarrow> string \<Rightarrow> ('z gw_scheme, BeaconResponse \<times> bool) gom" where
  "doGet E url = gbind (exchange E (HttpGet url)) (\<lambda>ans. gret (decode_response ans))"

definition doPost :: "env \<Rightarrow> string \<Rightarrow> json \<Rightarrow> ('z gw_scheme, BeaconResponse \<times> bool) gom" where
  "doPost E url body = gbind (exchange E (HttpPost url body)) (\<lambda>ans. gret (decode_response ans))"

definition gw_url :: "'z gw_scheme \<Rightarrow> string \<Rightarrow> string" where
  "gw_url s path = ''http://'' @ gw_endpoint s @ path"

text \<open>
  \<^verbatim>\<open>getBeaconConfig\<close> overwrites the error of \<^verbatim>\<open>doGet\<close>, logs the one of
  \<^verbatim>\<open>Unmarshal\<close> and returns nil: it never fails.
\<close>

definition getBeaconConfig :: "env \<Rightarrow> ('z gw_scheme, (string \<times> json) list) gom" where
  "getBeaconConfig E =
     gbind (gread (\<lambda>s. gw_url s ''/eth/v1/config/spec'')) (\<lambda>url.
     gbind (doGet E url) (\<lambda>(response, _).
     gret (fst (Unmarshal dec_object (br_Data response) []))))"

fun store_config :: "string \<times> json \<Rightarrow> unit \<Rightarrow> ('z gw_scheme, unit) gom" where
  "store_config (key, JStr v) u = gmodify (gw_config_update (alist_put key v))"
| "store_config (key, _) u = glift (Panic TypeAssertion)"

definition GetBeaconConfig :: "env \<Rightarrow> ('z gw_scheme, (string \<times> string) list) gom" where
  "GetBeaconConfig E =
     gbind (gread gw_config) (\<lambda>cached.
     if cached = [] then
       gbind (getBeaconConfig E) (\<lambda>config.
       gbind (gmodify (gw_config_update (\<lambda>_. []))) (\<lambda>_.
       gbind (range_map E config) (\<lambda>entries.
       gbind (gfold store_config entries ()) (\<lambda>_. gread gw_config))))
     else gret cached)"

definition GetIntConfig :: "env \<Rightarrow> string \<Rightarrow> ('z gw_scheme, int \<times> num_error option) gom" where
  "GetIntConfig E key =
     gbind (GetBeaconConfig E) (\<lambda>config.
       gret (case map_of config key of None \<Rightarrow> (0, None) | Some v \<Rightarrow> Atoi v))"

definition SLOTS_PER_EPOCH :: string where
  "SLOTS_PER_EPOCH = ''SLOTS_PER_EPOCH''"

definition SECONDS_PER_SLOT :: string where
  "SECONDS_PER_SLOT = ''SECONDS_PER_SLOT''"

definition unmarshal_or_fail :: "'a dec \<Rightarrow> json option \<Rightarrow> 'a \<Rightarrow> beacon_error + 'a" where
  "unmarshal_or_fail d raw zero =
     (let (x, err) = Unmarshal d raw zero in if err then Inl UnmarshalFailed else Inr x)"

text \<open>\<^verbatim>\<open>headers[0]\<close> panics when the node lists no header.\<close>

definition GetLatestBeaconHeader :: "env \<Rightarrow> ('z gw_scheme, beacon_error + BeaconHeaderInfo) gom" where
  "GetLatestBeaconHeader E =
     gbind (gread (\<lambda>s. gw_url s ''/eth/v1/beacon/headers'')) (\<lambda>url.
     gbind (doGet E url) (\<lambda>(response, _).
     case unmarshal_or_fail (dec_list (dec_struct BeaconHeaderInfo_fields) zeroBeaconHeaderInfo)
            (br_Data response) [] of
       Inl e \<Rightarrow> gret (Inl e)
     | Inr [] \<Rightarrow> glift (Panic IndexOutOfRange)
     | Inr (h # _) \<Rightarrow> gret (Inr h)))"

definition GetAllValReward :: "env \<Rightarrow> int \<Rightarrow> ('z gw_scheme, beacon_error + TotalReward list) gom" where
  "GetAllValReward E epoch =
     gbind (gread (\<lambda>s. gw_url s (''/eth/v1/beacon/rewards/attestations/'' @ FormatInt epoch))) (\<lambda>url.
     gbind (doPost E url (JArr [])) (\<lambda>(response, _).
     gret (map_sum id rew_TotalRewards
       (unmarshal_or_fail (dec_struct RewardInfo_fields) (br_Data response) \<lparr>rew_TotalRewards = []\<rparr>))))"

definition index_strings :: "int list \<Rightarrow> json" where
  "index_strings vals = JArr (map (\<lambda>v. JStr (FormatInt v)) vals)"

definition GetValReward :: "env \<Rightarrow> int \<Rightarrow> int list \<Rightarrow> ('z gw_scheme, BeaconResponse \<times> bool) gom" where
  "GetValReward E epoch valIdxs =
     gbind (gread (\<lambda>s. gw_url s (''/eth/v1/beacon/rewards/attestations/'' @ FormatInt epoch))) (\<lambda>url.
     doPost E url (index_strings valIdxs))"

definition GetProposerDuties :: "env \<Rightarrow> int \<Rightarrow> ('z gw_scheme, beacon_error + ProposerDuty list) gom" where
  "GetProposerDuties E epoch =
     gbind (gread (\<lambda>s. gw_url s (''/eth/v1/validator/duties/proposer/'' @ FormatInt epoch))) (\<lambda>url.
     gbind (doGet E url) (\<lambda>(response, _).
     gret (unmarshal_or_fail (dec_list (dec_struct ProposerDuty_fields) zeroProposerDuty)
       (br_Data response) [])))"

definition GetAttesterDuties ::
  "env \<Rightarrow> int \<Rightarrow> int list \<Rightarrow> ('z gw_scheme, beacon_error + AttestDuty list) gom" where
  "GetAttesterDuties E epoch vals =
     gbind (gread (\<lambda>s. gw_url s (''/eth/v1/validator/duties/attester/'' @ FormatInt epoch))) (\<lambda>url.
     gbind (doPost E url (index_strings vals)) (\<lambda>(response, _).
     gret (unmarshal_or_fail (dec_list (dec_struct AttestDuty_fields) zeroAttestDuty)
       (br_Data response) [])))"

text \<open>
  The four epoch helpers share their first half: the epoch of the latest header, with the
  division by the configured epoch length.
\<close>

definition current_epoch :: "env \<Rightarrow> ('z gw_scheme, beacon_error + int) gom" where
  "current_epoch E =
     gbind (GetLatestBeaconHeader E) (\<lambda>r.
     case r of
       Inl e \<Rightarrow> gret (Inl e)
     | Inr latestHeader \<Rightarrow>
         gbind (GetIntConfig E SLOTS_PER_EPOCH) (\<lambda>(slotPerEpoch, _).
         gbind (glift (int_quot (fst (Atoi (msg_Slot (hdr_Message (hdi_Header latestHeader))))) slotPerEpoch))
           (\<lambda>epoch. gret (Inr epoch))))"

definition first_64 :: "int list" where
  "first_64 = map int [0..<64]"

definition GetNextEpochProposerDuties ::
  "env \<Rightarrow> ('z gw_scheme, beacon_error + ProposerDuty list) gom" where
  "GetNextEpochProposerDuties E =
     gbind (current_epoch E) (\<lambda>r.
       case r of Inl e \<Rightarrow> gret (Inl e) | Inr epoch \<Rightarrow> GetProposerDuties E (i64 (epoch + 1)))"

definition GetCurrentEpochProposerDuties ::
  "env \<Rightarrow> ('z gw_scheme, beacon_error + ProposerDuty list) gom" where
  "GetCurrentEpochProposerDuties E =
     gbind (current_epoch E) (\<lambda>r.
       case r of Inl e \<Rightarrow> gret (Inl e) | Inr epoch \<Rightarrow> GetProposerDuties E epoch)"

definition GetCurrentEpochAttestDuties ::
  "env \<Rightarrow> ('z gw_scheme, beacon_error + AttestDuty list) gom" where
  "GetCurrentEpochAttestDuties E =
     gbind (current_epoch E) (\<lambda>r.
       case r of Inl e \<Rightarrow> gret (Inl e) | Inr epoch \<Rightarrow> GetAttesterDuties E epoch first_64)"

definition GetNextEpochAttestDuties ::
  "env \<Rightarrow> ('z gw_scheme, beacon_error + AttestDuty list) gom" where
  "GetNextEpochAttestDuties E =
     gbind (current_epoch E) (\<lambda>r.
       case r of Inl e \<Rightarrow> gret (Inl e) | Inr epoch \<Rightarrow> GetAttesterDuties E (i64 (epoch + 1)) first_64)"

section \<open>Frames\<close>

text \<open>
  A part of the state that depends neither on the cached configuration nor on the clock, such
  as the endpoint or whatever an extended record adds, survives every operation.
\<close>

definition beacon_frame :: "('z gw_scheme \<Rightarrow> 'h) \<Rightarrow> bool" where
  "beacon_frame h \<longleftrightarrow>
     (\<forall>s f. h (gw_clock_update f s) = h s) \<and> (\<forall>s f. h (gw_config_update f s) = h s)"

lemma beacon_frame_more [simp]: "beacon_frame gw.more"
  by (simp add: beacon_frame_def)

lemma beacon_frame_endpoint [simp]: "beacon_frame gw_endpoint"
  by (simp add: beacon_frame_def)

lemma keeps_exchange [go_frame]: "beacon_frame h \<Longrightarrow> keeps h (exchange E req)"
  by (auto simp: exchange_def beacon_frame_def intro!: go_frame)

lemma keeps_range_map [go_frame]: "beacon_frame h \<Longrightarrow> keeps h (range_map E m)"
  by (auto simp: range_map_def beacon_frame_def intro!: go_frame)

lemma keeps_doGet [go_frame]: "beacon_frame h \<Longrightarrow> keeps h (doGet E url)"
  by (auto simp: doGet_def intro!: go_frame)

lemma keeps_doPost [go_frame]: "beacon_frame h \<Longrightarrow> keeps h (doPost E url body)"
  by (auto simp: doPost_def intro!: go_frame)

lemma keeps_store_config [go_frame]: "beacon_frame h \<Longrightarrow> keeps h (store_config x u)"
  by (induction x u rule: store_config.induct) (auto simp: beacon_frame_def intro!: go_frame)

lemma keeps_GetBeaconConfig [go_frame]: "beacon_frame h \<Longrightarrow> keeps h (GetBeaconConfig E)"
proof -
  assume h: "beacon_frame h"
  then have "keeps h (gmodify (gw_config_update (\<lambda>_. [])))"
    by (auto simp: beacon_frame_def intro!: go_frame)
  with h show ?thesis
    unfolding GetBeaconConfig_def getBeaconConfig_def by (auto intro!: go_frame)
qed

lemma keeps_GetIntConfig [go_frame]: "beacon_frame h \<Longrightarrow> keeps h (GetIntConfig E key)"
  by (auto simp: GetIntConfig_def intro!: go_frame)

lemma keeps_GetLatestBeaconHeader [go_frame]: "beacon_frame h \<Longrightarrow> keeps h (GetLatestBeaconHeader E)"
  unfolding GetLatestBeaconHeader_def by (auto intro!: go_frame split: sum.split list.split)

lemma keeps_GetAllValReward [go_frame]: "beacon_frame h \<Longrightarrow> keeps h (GetAllValReward E epoch)"
  unfolding GetAllValReward_def by (auto intro!: go_frame)

lemma keeps_GetProposerDuties [go_frame]: "beacon_frame h \<Longrightarrow> keeps h (GetProposerDuties E epoch)"
  unfolding GetProposerDuties_def by (auto intro!: go_frame)

lemma keeps_GetAttesterDuties [go_frame]: "beacon_frame h \<Longrightarrow> keeps h (GetAttesterDuties E epoch vals)"
  unfolding GetAttesterDuties_def by (auto intro!: go_frame)

lemma keeps_current_epoch [go_frame]: "beacon_frame h \<Longrightarrow> keeps h (current_epoch E)"
  unfolding current_epoch_def by (auto intro!: go_frame split: sum.split)

lemma keeps_GetCurrentEpochProposerDuties [go_frame]:
  "beacon_frame h \<Longrightarrow> keeps h (GetCurrentEpochProposerDuties E)"
  unfolding GetCurrentEpochProposerDuties_def by (auto intro!: go_frame)

lemma keeps_GetCurrentEpochAttestDuties [go_frame]:
  "beacon_frame h \<Longrightarrow> keeps h (GetCurrentEpochAttestDuties E)"
  unfolding GetCurrentEpochAttestDuties_def by (auto intro!: go_frame)

section \<open>Runs\<close>

definition env_ok :: "env \<Rightarrow> bool" where
  "env_ok E \<longleftrightarrow> (\<forall>n. is_order (env_order E n))"

lemma exchange_run [go_monad]:
  "exchange E req s = (Ret (env_net E (gw_clock s) req), s\<lparr>gw_clock := Suc (gw_clock s)\<rparr>)"
  by (simp add: exchange_def gret_run)

lemma range_map_run [go_monad]:
  "range_map E m s = (Ret (visit (env_order E (gw_clock s)) m), s\<lparr>gw_clock := Suc (gw_clock s)\<rparr>)"
  by (simp add: range_map_def gret_run)

lemma doGet_run [go_monad]:
  "doGet E url s =
     (Ret (decode_response (env_net E (gw_clock s) (HttpGet url))), s\<lparr>gw_clock := Suc (gw_clock s)\<rparr>)"
  by (simp add: doGet_def gbind_def exchange_run gret_run)

lemma visit_Nil: "env_ok E \<Longrightarrow> visit (env_order E n) [] = []"
  using mset_visit [of "env_order E n" "[]"] by (simp add: env_ok_def)

lemma GetBeaconConfig_cached:
  "gw_config s \<noteq> [] \<Longrightarrow> GetBeaconConfig E s = (Ret (gw_config s), s)"
  by (simp add: GetBeaconConfig_def gret_run)

lemma GetIntConfig_cached:
  "gw_config s \<noteq> [] \<Longrightarrow>
   GetIntConfig E key s = (Ret (case map_of (gw_config s) key of None \<Rightarrow> (0, None) | Some v \<Rightarrow> Atoi v), s)"
  by (simp add: GetIntConfig_def gbind_def GetBeaconConfig_cached gret_run)

text \<open>The configuration entries a node's answer holds, keyed as Go's map keys them.\<close>

definition spec_entries :: "http_answer \<Rightarrow> (string \<times> json) list" where
  "spec_entries ans = fst (Unmarshal dec_object (br_Data (fst (decode_response ans))) [])"

lemma getBeaconConfig_run [go_monad]:
  "getBeaconConfig E s =
     (Ret (spec_entries (env_net E (gw_clock s) (HttpGet (gw_url s ''/eth/v1/config/spec'')))),
      s\<lparr>gw_clock := Suc (gw_clock s)\<rparr>)"
  by (simp add: getBeaconConfig_def gbind_def doGet_run gret_run spec_entries_def split: prod.split)

definition all_strings :: "(string \<times> json) list \<Rightarrow> bool" where
  "all_strings es \<longleftrightarrow> list_all (\<lambda>(k, j). case j of JStr _ \<Rightarrow> True | _ \<Rightarrow> False) es"

definition string_of :: "json \<Rightarrow> string" where
  "string_of j = (case j of JStr v \<Rightarrow> v | _ \<Rightarrow> [])"

lemma gfold_store_config:
  "all_strings es \<Longrightarrow>
   gfold store_config es () s =
     (Ret (), s\<lparr>gw_config := fold (\<lambda>(k, j). alist_put k (string_of j)) es (gw_config s)\<rparr>)"
proof (induction es arbitrary: s)
  case Nil
  show ?case by (simp add: gret_run)
next
  case (Cons e es)
  then obtain k v where "e = (k, JStr v)" "all_strings es"
    by (cases e) (auto simp: all_strings_def split: json.splits)
  with Cons.IH show ?case by (simp add: gbind_def string_of_def)
qed

lemma fold_alist_put_distinct:
  "distinct (map fst es) \<Longrightarrow>
   map_of (fold (\<lambda>(k, j). alist_put k (f j)) es m) key =
     (case map_of es key of None \<Rightarrow> map_of m key | Some j \<Rightarrow> Some (f j))"
proof (induction es arbitrary: m)
  case (Cons e es)
  obtain k j where e: "e = (k, j)" by (cases e)
  with Cons.prems have "map_of es k = None" by (simp add: map_of_eq_None_iff)
  with Cons e show ?case by (auto split: option.split)
qed simp

lemma distinct_fold_alist_put:
  "distinct (map fst m) \<Longrightarrow> distinct (map fst (fold (\<lambda>(k, v). alist_put k v) kvs m))"
  by (induction kvs arbitrary: m) (auto simp: distinct_alist_put)

lemma distinct_spec_entries: "distinct (map fst (spec_entries ans))"
proof -
  have "distinct (map fst (fst (dec_object j [])))" for j
    by (cases j) (auto intro: distinct_fold_alist_put)
  then have "distinct (map fst (fst (Unmarshal dec_object raw [])))" for raw
    by (cases raw) simp_all
  then show ?thesis by (simp add: spec_entries_def)
qed

text \<open>One fetch: what \<^verbatim>\<open>GetBeaconConfig\<close> leaves in the cache, whatever the order.\<close>

definition spec_answer :: "env \<Rightarrow> 'z gw_scheme \<Rightarrow> (string \<times> json) list" where
  "spec_answer E s = spec_entries (env_net E (gw_clock s) (HttpGet (gw_url s ''/eth/v1/config/spec'')))"

definition fetched :: "env \<Rightarrow> 'z gw_scheme \<Rightarrow> (string \<times> string) list" where
  "fetched E s =
     fold (\<lambda>(k, j). alist_put k (string_of j))
       (visit (env_order E (Suc (gw_clock s))) (spec_answer E s)) []"

lemma GetBeaconConfig_fetch:
  assumes "gw_config s = []" and "env_ok E" and "all_strings (spec_answer E s)"
  shows "GetBeaconConfig E s =
    (Ret (fetched E s), s\<lparr>gw_clock := Suc (Suc (gw_clock s)), gw_config := fetched E s\<rparr>)"
proof -
  have "all_strings (visit (env_order E n) (spec_answer E s))" for n
    using assms(2,3) by (simp add: all_strings_def list_all_iff set_visit env_ok_def)
  then show ?thesis
    using assms(1)
    by (simp add: GetBeaconConfig_def gbind_def getBeaconConfig_run range_map_run gfold_store_config
        fetched_def spec_answer_def [symmetric])
qed

lemma map_of_fetched:
  assumes "env_ok E"
  shows "map_of (fetched E s) key = map_option string_of (map_of (spec_answer E s) key)"
proof -
  let ?v = "visit (env_order E (Suc (gw_clock s))) (spec_answer E s)"
  have ord: "is_order (env_order E (Suc (gw_clock s)))" using assms by (simp add: env_ok_def)
  have m: "mset ?v = mset (spec_answer E s)" by (rule mset_visit [OF ord])
  have d: "distinct (map fst (spec_answer E s))"
    unfolding spec_answer_def by (rule distinct_spec_entries)
  then have dv: "distinct (map fst ?v)"
    using m by (metis mset_eq_imp_distinct_iff mset_map)
  have "map_of ?v = map_of (spec_answer E s)"
    using m d dv by (metis map_of_inject_set mset_eq_setD)
  then show ?thesis
    by (simp add: fetched_def fold_alist_put_distinct [OF dv] split: option.split)
qed

end
