(* ===== verification/Backend.thy ===== *)
theory Backend
  imports Strategy Validator_Set Beacon_Client
begin

text \<open>
  \<^verbatim>\<open>src/server/apis/backend.go\<close> and \<^verbatim>\<open>slot.go\<close>: the interface the RPC services are
  written against. The Go interface is the record \<open>backend\<close> of computations over the state
  of whoever implements it. \<^verbatim>\<open>GetStrategy\<close> hands out a pointer, so a write through it
  (\<^verbatim>\<open>s.b.GetStrategy().Block = x\<close>) is an operation of the record too.

  The locale \<open>slot_clock\<close> is what \<^verbatim>\<open>SlotTool\<close> needs of its \<^verbatim>\<open>SlotI\<close>; the locale
  \<open>backend_laws\<close> is the contract the handlers rely on. The services' theories prove their
  handlers inside it; the server interprets it.
\<close>

record ('s, 'att, 'blk) backend =
  b_GetStrategy :: "('s, Strategy) gom"
  b_SetBlock :: "BlockStrategy \<Rightarrow> ('s, unit) gom"
  b_SetAttest :: "AttestStrategy \<Rightarrow> ('s, unit) gom"
  b_UpdateBlockBroadDelay :: "int \<Rightarrow> ('s, unit) gom"
  b_UpdateAttestBroadDelay :: "int \<Rightarrow> ('s, unit) gom"
  b_GetValidatorRole :: "int \<Rightarrow> int \<Rightarrow> ('s, RoleType) gom"
  b_GetValidatorRoleByPubkey :: "int \<Rightarrow> string \<Rightarrow> ('s, RoleType) gom"
  b_GetCurrentEpochProposeDuties :: "('s, beacon_error + ProposerDuty list) gom"
  b_GetSlotsPerEpoch :: "('s, int) gom"
  b_SlotsPerEpoch :: "('s, int) gom"
  b_GetIntervalPerSlot :: "('s, int) gom"
  b_AddSignedAttestation :: "u64 \<Rightarrow> string \<Rightarrow> 'att \<Rightarrow> ('s, unit) gom"
  b_AddSignedBlock :: "u64 \<Rightarrow> string \<Rightarrow> 'blk \<Rightarrow> ('s, unit) gom"
  b_GetAttestSet :: "u64 \<Rightarrow> ('s, 'att SlotAttestSet option) gom"
  b_GetBlockSet :: "u64 \<Rightarrow> ('s, 'blk SlotBlockSet option) gom"
  b_GetValidatorDataSet :: "('s, ('att, 'blk) ValidatorDataSet) gom"
  b_GetValidatorByProposeSlot :: "u64 \<Rightarrow> ('s, beacon_error + int) gom"
  b_GetProposeDuties :: "int \<Rightarrow> ('s, beacon_error + ProposerDuty list) gom"

section \<open>Slots and epochs\<close>

definition SlotToEpoch :: "('s, int) gom \<Rightarrow> int \<Rightarrow> ('s, int) gom" where
  "SlotToEpoch slotsPerEpoch slot = gbind slotsPerEpoch (\<lambda>n. glift (int_quot slot n))"

definition EpochEnd :: "('s, int) gom \<Rightarrow> int \<Rightarrow> ('s, int) gom" where
  "EpochEnd slotsPerEpoch epoch = gbind slotsPerEpoch (\<lambda>n. gret (i64 (i64 (i64 (epoch + 1) * n) - 1)))"

definition EpochStart :: "('s, int) gom \<Rightarrow> int \<Rightarrow> ('s, int) gom" where
  "EpochStart slotsPerEpoch epoch = gbind slotsPerEpoch (\<lambda>n. gret (i64 (epoch * n)))"

lemma keeps_SlotToEpoch [go_frame]: "keeps h m \<Longrightarrow> keeps h (SlotToEpoch m slot)"
  unfolding SlotToEpoch_def by (intro go_frame)

lemma keeps_EpochEnd [go_frame]: "keeps h m \<Longrightarrow> keeps h (EpochEnd m slot)"
  unfolding EpochEnd_def by (intro go_frame)

lemma keeps_EpochStart [go_frame]: "keeps h m \<Longrightarrow> keeps h (EpochStart m slot)"
  unfolding EpochStart_def by (intro go_frame)

text \<open>
  An epoch length that is positive and stays the same while the state is \<open>ready\<close>. Then the
  three functions compute the usual partition of the slots into epochs, as long as the end of
  the epoch still fits an \<^verbatim>\<open>int\<close>.
\<close>

locale slot_clock =
  fixes slotsPerEpoch :: "('s, int) gom" and n :: int and ready :: "'s \<Rightarrow> bool"
  assumes stable: "ready s \<Longrightarrow> slotsPerEpoch s = (Ret n, s)"
    and positive: "ready s \<Longrightarrow> 0 < n"
begin

lemma epoch_fits:
  assumes "0 \<le> slot" and "slot + n < 2 ^ 63" and "0 < n"
  shows "0 \<le> slot div n" and "slot div n * n \<le> slot" and "slot < (slot div n + 1) * n"
    and "is_i64 (slot div n + 1)" and "is_i64 (slot div n * n)" and "is_i64 ((slot div n + 1) * n)"
    and "is_i64 ((slot div n + 1) * n - 1)"
proof -
  have eq: "slot div n * n + slot mod n = slot" by simp
  have r: "0 \<le> slot mod n" "slot mod n < n" using assms(3) by simp_all
  have "(slot div n + 1) * n = slot div n * n + n" by (simp add: distrib_right)
  with eq r show le: "slot div n * n \<le> slot" and lt: "slot < (slot div n + 1) * n"
    by linarith+
  show d: "0 \<le> slot div n" using assms by (simp add: pos_imp_zdiv_nonneg_iff)
  have "slot div n \<le> slot div n * n" using d assms(3) by (simp add: mult_le_cancel_left1)
  then show "is_i64 (slot div n + 1)" using d le assms by (simp add: is_i64_def)
  have "0 \<le> slot div n * n" using d assms(3) by simp
  then show "is_i64 (slot div n * n)" "is_i64 ((slot div n + 1) * n)" "is_i64 ((slot div n + 1) * n - 1)"
    using le assms by (simp_all add: is_i64_def algebra_simps)
qed

lemma SlotToEpoch_run:
  assumes "ready s" and "0 \<le> slot" and "slot < 2 ^ 63"
  shows "SlotToEpoch slotsPerEpoch slot s = (Ret (slot div n), s)"
  using assms stable positive by (simp add: SlotToEpoch_def gbind_def glift_run int_quot_pos)

lemma EpochStart_run:
  assumes "ready s" and "0 \<le> slot" and "slot + n < 2 ^ 63"
  shows "EpochStart slotsPerEpoch (slot div n) s = (Ret (slot div n * n), s)"
  using assms stable epoch_fits [OF assms(2,3)] positive
  by (simp add: EpochStart_def gbind_def gret_run i64_id)

lemma EpochEnd_run:
  assumes "ready s" and "0 \<le> slot" and "slot + n < 2 ^ 63"
  shows "EpochEnd slotsPerEpoch (slot div n) s = (Ret ((slot div n + 1) * n - 1), s)"
  using assms stable epoch_fits [OF assms(2,3)] positive
  by (simp add: EpochEnd_def gbind_def gret_run i64_id)

text \<open>Every slot lies between the start and the end of its epoch, and the epochs abut.\<close>

lemma slot_in_epoch:
  assumes "ready s" and "0 \<le> slot" and "slot + n < 2 ^ 63"
  shows "\<exists>epoch first. SlotToEpoch slotsPerEpoch slot s = (Ret epoch, s) \<and>
    EpochStart slotsPerEpoch epoch s = (Ret first, s) \<and>
    EpochEnd slotsPerEpoch epoch s = (Ret (first + n - 1), s) \<and> first \<le> slot \<and> slot \<le> first + n - 1"
  using SlotToEpoch_run [of s slot] EpochStart_run [OF assms] EpochEnd_run [OF assms]
    epoch_fits [OF assms(2,3)] positive [OF assms(1)] assms
  by (auto simp: algebra_simps)

end

section \<open>The contract of the backend\<close>

text \<open>A public key on record whose validator attacks in the slot.\<close>

definition attacker_in :: "Strategy \<Rightarrow> ('att, 'blk) ValidatorDataSet \<Rightarrow> int \<Rightarrow> string \<Rightarrow> bool" where
  "attacker_in st vs slot p =
     (case GetValidatorByPubkey vs p of
        None \<Rightarrow> False
      | Some v \<Rightarrow> Strategy_GetValidatorRole st (val_Index v) slot = AttackerRole)"

text \<open>A part of the state that no reading operation of the backend changes.\<close>

definition backend_frame :: "('s, 'att, 'blk) backend \<Rightarrow> ('s \<Rightarrow> 'h) \<Rightarrow> bool" where
  "backend_frame B h \<longleftrightarrow>
     keeps h (b_GetStrategy B) \<and> (\<forall>slot idx. keeps h (b_GetValidatorRole B slot idx)) \<and>
     (\<forall>slot p. keeps h (b_GetValidatorRoleByPubkey B slot p)) \<and>
     keeps h (b_GetCurrentEpochProposeDuties B) \<and> keeps h (b_GetSlotsPerEpoch B) \<and>
     keeps h (b_SlotsPerEpoch B) \<and> keeps h (b_GetIntervalPerSlot B) \<and>
     (\<forall>w. keeps h (b_GetAttestSet B w)) \<and> (\<forall>w. keeps h (b_GetBlockSet B w)) \<and>
     keeps h (b_GetValidatorDataSet B) \<and> (\<forall>w. keeps h (b_GetValidatorByProposeSlot B w)) \<and>
     (\<forall>e. keeps h (b_GetProposeDuties B e))"

lemma backend_frameD [go_frame]:
  assumes "backend_frame B h"
  shows "keeps h (b_GetStrategy B)" "keeps h (b_GetValidatorRole B slot idx)"
    "keeps h (b_GetValidatorRoleByPubkey B slot p)" "keeps h (b_GetCurrentEpochProposeDuties B)"
    "keeps h (b_GetSlotsPerEpoch B)" "keeps h (b_SlotsPerEpoch B)" "keeps h (b_GetIntervalPerSlot B)"
    "keeps h (b_GetAttestSet B w)" "keeps h (b_GetBlockSet B w)" "keeps h (b_GetValidatorDataSet B)"
    "keeps h (b_GetValidatorByProposeSlot B w)" "keeps h (b_GetProposeDuties B e)"
  using assms by (simp_all add: backend_frame_def)

text \<open>
  \<open>strat\<close> and \<open>vset\<close> read the strategy and the validator set out of the state. At a slot
  that is not negative a role is a matter of the strategy alone; no reader writes either.
\<close>

locale backend_laws =
  fixes B :: "('s, 'att, 'blk) backend"
    and strat :: "'s \<Rightarrow> Strategy"
    and vset :: "'s \<Rightarrow> ('att, 'blk) ValidatorDataSet"
  assumes GetStrategy_law: "b_GetStrategy B s = (Ret (strat s), s)"
    and SetBlock_law: "\<exists>t. b_SetBlock B x s = (Ret (), t) \<and>
      strat t = (strat s)\<lparr>st_Block := x\<rparr> \<and> vset t = vset s"
    and SetAttest_law: "\<exists>t. b_SetAttest B y s = (Ret (), t) \<and>
      strat t = (strat s)\<lparr>st_Attest := y\<rparr> \<and> vset t = vset s"
    and role_law: "0 \<le> slot \<Longrightarrow> b_GetValidatorRole B slot idx s =
      (Ret (Strategy_GetValidatorRole (strat s) idx slot), s)"
    and pubkey_role_law: "0 \<le> slot \<Longrightarrow> b_GetValidatorRoleByPubkey B slot p s =
      (Ret (case GetValidatorByPubkey (vset s) p of
              None \<Rightarrow> NormalRole
            | Some v \<Rightarrow> Strategy_GetValidatorRole (strat s) (val_Index v) slot), s)"
    and pubkey_known: "b_GetValidatorRoleByPubkey B slot p s = (Ret AttackerRole, t) \<Longrightarrow>
      GetValidatorByPubkey (vset s) p \<noteq> None"
    and GetAttestSet_law: "b_GetAttestSet B w s = (Ret (GetAttestSet (vset s) w), s)"
    and GetBlockSet_law: "b_GetBlockSet B w s = (Ret (GetBlockSet (vset s) w), s)"
    and GetValidatorDataSet_law: "b_GetValidatorDataSet B s = (Ret (vset s), s)"
    and AddSignedAttestation_law: "\<exists>t. b_AddSignedAttestation B w p a s = (Ret (), t) \<and>
      strat t = strat s \<and> vset t = AddSignedAttestation w p a (vset s)"
    and reads_keep: "backend_frame B strat" "backend_frame B vset"
begin

lemma pubkey_role: "0 \<le> slot \<Longrightarrow> b_GetValidatorRoleByPubkey B slot p s =
    (Ret (if attacker_in (strat s) (vset s) slot p then AttackerRole else NormalRole), s)"
  using RoleType.exhaust by (auto simp: pubkey_role_law attacker_in_def split: option.split)

end

end
