(* ===== verification/Go_Base64.thy ===== *)
theory Go_Base64
  imports Go_Prelude
begin

text \<open>
  \<^verbatim>\<open>base64.StdEncoding\<close>, which carries blocks and attestations through the RPC. A byte
  slice is a \<open>string\<close>. \<^verbatim>\<open>DecodeString\<close> skips line breaks, requires padding and does
  not look at the unused bits of the last quantum. Shown here: decoding inverts encoding.
\<close>

definition b64_char :: "nat \<Rightarrow> char" where
  "b64_char n =
     (if n < 26 then char_of (65 + n)
      else if n < 52 then char_of (97 + (n - 26))
      else if n < 62 then char_of (48 + (n - 52))
      else if n = 62 then CHR ''+'' else CHR ''/'')"

definition b64_val :: "char \<Rightarrow> nat option" where
  "b64_val c =
     (let n = of_char c :: nat in
      if 65 \<le> n \<and> n \<le> 90 then Some (n - 65)
      else if 97 \<le> n \<and> n \<le> 122 then Some (n - 97 + 26)
      else if 48 \<le> n \<and> n \<le> 57 then Some (n - 48 + 52)
      else if n = 43 then Some 62
      else if n = 47 then Some 63
      else None)"

fun EncodeToString :: "string \<Rightarrow> string" where
  "EncodeToString [] = []"
| "EncodeToString [a] =
     (let x = of_char a * 16 in [b64_char (x div 64), b64_char (x mod 64), CHR ''='', CHR ''=''])"
| "EncodeToString [a, b] =
     (let x = (of_char a * 256 + of_char b) * 4
      in [b64_char (x div 4096), b64_char (x div 64 mod 64), b64_char (x mod 64), CHR ''=''])"
| "EncodeToString (a # b # c # r) =
     (let x = (of_char a * 256 + of_char b) * 256 + of_char c
      in [b64_char (x div 262144), b64_char (x div 4096 mod 64),
          b64_char (x div 64 mod 64), b64_char (x mod 64)] @ EncodeToString r)"

fun b64_quanta :: "string \<Rightarrow> string option" where
  "b64_quanta [] = Some []"
| "b64_quanta (c1 # c2 # c3 # c4 # r) =
     (case (b64_val c1, b64_val c2) of
        (Some v1, Some v2) \<Rightarrow>
          if c3 = CHR ''='' then
            (if c4 = CHR ''='' \<and> r = [] then Some [char_of ((v1 * 64 + v2) div 16)] else None)
          else (case b64_val c3 of
                  None \<Rightarrow> None
                | Some v3 \<Rightarrow>
                    if c4 = CHR ''='' then
                      (if r = [] then
                         (let x = ((v1 * 64 + v2) * 64 + v3) div 4
                          in Some [char_of (x div 256), char_of (x mod 256)])
                       else None)
                    else (case (b64_val c4, b64_quanta r) of
                            (Some v4, Some bs) \<Rightarrow>
                              (let x = ((v1 * 64 + v2) * 64 + v3) * 64 + v4
                               in Some (char_of (x div 65536) # char_of (x div 256 mod 256) #
                                        char_of (x mod 256) # bs))
                          | _ \<Rightarrow> None))
      | _ \<Rightarrow> None)"
| "b64_quanta _ = None"

definition DecodeString :: "string \<Rightarrow> string option" where
  "DecodeString s = b64_quanta (filter (\<lambda>c. of_char c \<noteq> (10 :: nat) \<and> of_char c \<noteq> (13 :: nat)) s)"

lemma of_char_b64_char:
  "n < 64 \<Longrightarrow> of_char (b64_char n) =
     (if n < 26 then 65 + n else if n < 52 then 71 + n else if n < 62 then n - 4
      else if n = 62 then 43 else 47 :: nat)"
  by (auto simp: b64_char_def)

lemma b64_val_char [simp]: "n < 64 \<Longrightarrow> b64_val (b64_char n) = Some n"
  by (auto simp: b64_val_def of_char_b64_char Let_def)

lemma b64_char_not_pad: "n < 64 \<Longrightarrow> b64_char n \<noteq> CHR ''=''"
proof
  assume "n < 64" "b64_char n = CHR ''=''"
  then have "b64_val (CHR ''='') = Some n" using b64_val_char by metis
  then show False by (simp add: b64_val_def)
qed

lemma b64_char_not_break:
  "n < 64 \<Longrightarrow> of_char (b64_char n) \<noteq> (10 :: nat)" "n < 64 \<Longrightarrow> of_char (b64_char n) \<noteq> (13 :: nat)"
  by (auto simp: of_char_b64_char)

lemma char_of_eqI: "n = of_char c \<Longrightarrow> char_of n = c"
  by simp

text \<open>
  The arithmetic of one quantum of three, two and one bytes: what the encoder cuts into
  six-bit digits is put back together by the decoder.
\<close>

lemma digits_back:
  fixes x :: nat
  shows "x div 64 * 64 + x mod 64 = x"
    and "x div 4096 * 64 + x div 64 mod 64 = x div 64"
    and "x div 262144 * 64 + x div 4096 mod 64 = x div 4096"
proof -
  have "x div 4096 = x div 64 div 64" and "x div 262144 = x div 4096 div 64"
    by (simp_all add: div_mult2_eq [symmetric])
  then show "x div 64 * 64 + x mod 64 = x"
    and "x div 4096 * 64 + x div 64 mod 64 = x div 64"
    and "x div 262144 * 64 + x div 4096 mod 64 = x div 4096"
    by (simp_all only: div_mult_mod_eq)
qed

lemma byte_pair:
  fixes a b :: nat
  assumes "b < 256"
  shows "(a * 256 + b) div 256 = a" and "(a * 256 + b) mod 256 = b"
  using assms by simp_all

lemma quantum3:
  fixes a b c :: nat
  assumes "a < 256" "b < 256" "c < 256"
  shows "((a * 256 + b) * 256 + c) div 262144 < 64"
    and "((a * 256 + b) * 256 + c) div 65536 = a"
    and "((a * 256 + b) * 256 + c) div 256 mod 256 = b"
proof -
  let ?x = "(a * 256 + b) * 256 + c"
  show "?x div 262144 < 64" by (rule less_mult_imp_div_less) (use assms in simp)
  have x: "?x div 256 = a * 256 + b" by (rule byte_pair [OF assms(3)])
  then show "?x div 256 mod 256 = b" by (simp only: byte_pair [OF assms(2)])
  have "?x div 65536 = ?x div 256 div 256" by (simp add: div_mult2_eq [symmetric])
  then show "?x div 65536 = a" by (simp only: x byte_pair [OF assms(2)])
qed

lemma quantum2:
  fixes a b :: nat
  assumes "a < 256" "b < 256"
  shows "(a * 256 + b) * 4 div 4096 < 64" and "(a * 256 + b) * 4 div 4 = a * 256 + b"
proof -
  show "(a * 256 + b) * 4 div 4096 < 64" by (rule less_mult_imp_div_less) (use assms in simp)
qed simp

lemma quantum1:
  fixes a :: nat
  assumes "a < 256"
  shows "a * 16 div 64 < 64" and "a * 16 div 16 = a"
proof -
  show "a * 16 div 64 < 64" by (rule less_mult_imp_div_less) (use assms in simp)
qed simp

lemma b64_quanta_1:
  assumes "x div 64 < 64"
  shows "b64_quanta [b64_char (x div 64), b64_char (x mod 64), CHR ''='', CHR ''='']
    = Some [char_of (x div 16)]"
  using assms by (simp add: digits_back)

lemma b64_quanta_2:
  assumes "x div 4096 < 64"
  shows "b64_quanta [b64_char (x div 4096), b64_char (x div 64 mod 64), b64_char (x mod 64), CHR ''='']
    = Some [char_of (x div 4 div 256), char_of (x div 4 mod 256)]"
  using assms by (simp add: digits_back b64_char_not_pad Let_def)

lemma b64_quanta_3:
  assumes "x div 262144 < 64" and "b64_quanta r = Some bs"
  shows "b64_quanta (b64_char (x div 262144) # b64_char (x div 4096 mod 64) #
      b64_char (x div 64 mod 64) # b64_char (x mod 64) # r)
    = Some (char_of (x div 65536) # char_of (x div 256 mod 256) # char_of (x mod 256) # bs)"
  using assms by (simp add: digits_back b64_char_not_pad Let_def)

lemma b64_quanta_encode: "b64_quanta (EncodeToString bs) = Some bs"
proof (induction bs rule: EncodeToString.induct)
  case (2 a)
  note q = quantum1 [OF nat_of_char_less_256 [of a]]
  show ?case
    unfolding EncodeToString.simps Let_def b64_quanta_1 [OF q(1)] q(2) by simp
next
  case (3 a b)
  note q = quantum2 [OF nat_of_char_less_256 [of a] nat_of_char_less_256 [of b]]
  show ?case
    unfolding EncodeToString.simps Let_def b64_quanta_2 [OF q(1)] q(2)
      byte_pair [OF nat_of_char_less_256 [of b]] by simp
next
  case (4 a b c r)
  note q = quantum3 [OF nat_of_char_less_256 [of a] nat_of_char_less_256 [of b] nat_of_char_less_256 [of c]]
  show ?case
    unfolding EncodeToString.simps Let_def append_Cons append_Nil b64_quanta_3 [OF q(1) "4.IH" [OF refl]] q(2,3)
      byte_pair(2) [OF nat_of_char_less_256 [of c]] by simp
qed simp

lemma encode_no_breaks:
  "filter (\<lambda>c. of_char c \<noteq> (10 :: nat) \<and> of_char c \<noteq> (13 :: nat)) (EncodeToString bs) = EncodeToString bs"
proof (induction bs rule: EncodeToString.induct)
  case (2 a)
  then show ?case
    using quantum1(1) [OF nat_of_char_less_256 [of a]] by (simp add: Let_def b64_char_not_break)
next
  case (3 a b)
  then show ?case
    using quantum2(1) [OF nat_of_char_less_256 [of a] nat_of_char_less_256 [of b]]
    by (simp add: Let_def b64_char_not_break)
next
  case (4 a b c r)
  then show ?case
    using quantum3(1) [OF nat_of_char_less_256 [of a] nat_of_char_less_256 [of b] nat_of_char_less_256 [of c]]
    by (simp add: Let_def b64_char_not_break)
qed simp

lemma Decode_Encode [simp]: "DecodeString (EncodeToString bs) = Some bs"
  by (simp add: DecodeString_def encode_no_breaks b64_quanta_encode)

end
