(* ===== verification/Attest_Api.thy ===== *)
theory Attest_Api
  imports Backend Go_Base64
begin

text \<open>
  \<^verbatim>\<open>src/server/apis/attest.go\<close> and \<^verbatim>\<open>roles.go\<close>: the attestation service and the
  admin service. \<open>unmarshalAtt\<close> stands for \<^verbatim>\<open>proto.Unmarshal\<close> into an
  \<^verbatim>\<open>ethpb.Attestation\<close>. Shown under the backend's contract: an attestation is collected
  exactly when its validator attacks in the slot and the data decodes, the data is always
  handed back unchanged, and exactly the attackers are told not to broadcast.
\<close>

definition Attest_GetStrategy :: "('s, 'att, 'blk) backend \<Rightarrow> ('s, json) gom" where
  "Attest_GetStrategy B = gbind (b_GetStrategy B) (\<lambda>st. gret (AttestStrategy_json (st_Attest st)))"

text \<open>The result is whether an error was returned.\<close>

definition Attest_UpdateStrategy :: "('s, 'att, 'blk) backend \<Rightarrow> json option \<Rightarrow> ('s, bool) gom" where
  "Attest_UpdateStrategy B data =
     (let (attestStrategy, err) = Unmarshal (dec_struct AttestStrategy_fields) data zeroAttestStrategy
      in if err then gret True
         else gbind (b_SetAttest B attestStrategy) (\<lambda>_. gret False))"

definition Attest_BeforeBroadCast :: "u64 \<Rightarrow> ('s, AttackerResponse) gom" where
  "Attest_BeforeBroadCast slot = gret (respond CMD_NULL [])"

definition Attest_AfterBroadCast :: "u64 \<Rightarrow> ('s, AttackerResponse) gom" where
  "Attest_AfterBroadCast slot = gret (respond CMD_NULL [])"

definition Attest_BeforeSign :: "u64 \<Rightarrow> string \<Rightarrow> string \<Rightarrow> ('s, AttackerResponse) gom" where
  "Attest_BeforeSign slot pubkey attestDataBase64 = gret (respond CMD_NULL attestDataBase64)"

definition Attest_AfterSign ::
  "('s, 'att, 'blk) backend \<Rightarrow> (string \<Rightarrow> 'att option) \<Rightarrow> u64 \<Rightarrow> string \<Rightarrow> string \<Rightarrow>
     ('s, AttackerResponse) gom" where
  "Attest_AfterSign B unmarshalAtt slot pubkey signedAttestDataBase64 =
     (let same = gret (respond CMD_NULL signedAttestDataBase64)
      in case DecodeString signedAttestDataBase64 of
           None \<Rightarrow> same
         | Some signedAttestData \<Rightarrow>
             gbind (b_GetValidatorRoleByPubkey B (int_of_u64 slot) pubkey) (\<lambda>role.
             if role = NormalRole then same
             else case unmarshalAtt signedAttestData of
                    None \<Rightarrow> same
                  | Some attest \<Rightarrow> gbind (b_AddSignedAttestation B slot pubkey attest) (\<lambda>_. same)))"

definition Attest_BeforePropose ::
  "('s, 'att, 'blk) backend \<Rightarrow> u64 \<Rightarrow> string \<Rightarrow> string \<Rightarrow> ('s, AttackerResponse) gom" where
  "Attest_BeforePropose B slot pubkey signedAttestDataBase64 =
     gbind (b_GetValidatorRoleByPubkey B (int_of_u64 slot) pubkey) (\<lambda>role.
       let isAttacker = (role = AttackerRole)
       in if isAttacker then gret (respond CMD_RETURN []) else gret (respond CMD_NULL []))"

definition Attest_AfterPropose :: "u64 \<Rightarrow> string \<Rightarrow> string \<Rightarrow> ('s, AttackerResponse) gom" where
  "Attest_AfterPropose slot pubkey signedAttestDataBase64 = gret (respond CMD_NULL signedAttestDataBase64)"

text \<open>The bodies of the two methods of the admin service are comments.\<close>

definition SetRoleAttacker :: "int \<Rightarrow> ('s, unit) gom" where
  "SetRoleAttacker valIndex = gret ()"

definition SetRoleNormal :: "int \<Rightarrow> ('s, unit) gom" where
  "SetRoleNormal valIndex = gret ()"

text \<open>Which attestation a call of \<^verbatim>\<open>AfterSign\<close> collects, if any.\<close>

definition collected ::
  "Strategy \<Rightarrow> ('att, 'blk) ValidatorDataSet \<Rightarrow> (string \<Rightarrow> 'att option) \<Rightarrow> u64 \<Rightarrow> string \<Rightarrow> string \<Rightarrow>
     'att option" where
  "collected st vs unmarshalAtt slot p data =
     (if attacker_in st vs (uint slot) p then Option.bind (DecodeString data) unmarshalAtt else None)"

lemma keeps_Attest_BeforePropose [go_frame]:
  "backend_frame B h \<Longrightarrow> keeps h (Attest_BeforePropose B slot p data)"
  unfolding Attest_BeforePropose_def Let_def by (intro go_frame)

context backend_laws
begin

lemma Attest_AfterSign_run:
  assumes "uint slot < 2 ^ 63"
  shows "\<exists>t. Attest_AfterSign B unmarshalAtt slot p data s = (Ret (respond CMD_NULL data), t) \<and>
    strat t = strat s \<and>
    vset t = (case collected (strat s) (vset s) unmarshalAtt slot p data of
                None \<Rightarrow> vset s
              | Some a \<Rightarrow> AddSignedAttestation slot p a (vset s))"
proof (cases "collected (strat s) (vset s) unmarshalAtt slot p data")
  case None
  then show ?thesis
    using small_slot [OF assms]
    by (auto simp: Attest_AfterSign_def collected_def Let_def gbind_def gret_run pubkey_role
        split: option.split if_splits bind_splits)
next
  case (Some a)
  then obtain bs where "attacker_in (strat s) (vset s) (uint slot) p" "DecodeString data = Some bs" "unmarshalAtt bs = Some a"
    by (auto simp: collected_def split: if_splits bind_splits)
  moreover obtain t where "b_AddSignedAttestation B slot p a s = (Ret (), t)"
    "strat t = strat s" "vset t = AddSignedAttestation slot p a (vset s)"
    using AddSignedAttestation_law by blast
  ultimately show ?thesis
    using Some small_slot [OF assms]
    by (simp add: Attest_AfterSign_def Let_def gbind_def gret_run pubkey_role)
qed

lemma Attest_BeforePropose_run:
  assumes "uint slot < 2 ^ 63"
  shows "Attest_BeforePropose B slot p data s =
    (Ret (respond (if attacker_in (strat s) (vset s) (uint slot) p then CMD_RETURN else CMD_NULL) []), s)"
  using small_slot [OF assms]
  by (simp add: Attest_BeforePropose_def gbind_def gret_run pubkey_role Let_def)

lemma Attest_Update_Get:
  assumes "is_i64 (ast_BroadCastDelay a)"
  shows "\<exists>t. Attest_UpdateStrategy B (Some (AttestStrategy_json a)) s = (Ret False, t) \<and>
    Attest_GetStrategy B t = (Ret (AttestStrategy_json a), t) \<and>
    st_Block (strat t) = st_Block (strat s) \<and> st_Validators (strat t) = st_Validators (strat s) \<and>
    vset t = vset s"
proof -
  obtain t where "b_SetAttest B a s = (Ret (), t)" "strat t = (strat s)\<lparr>st_Attest := a\<rparr>" "vset t = vset s"
    using SetAttest_law by blast
  then show ?thesis
    by (simp add: Attest_UpdateStrategy_def Attest_GetStrategy_def AttestStrategy_decode_encode [OF assms]
        gbind_def gret_run GetStrategy_law)
qed

lemma Attest_Update_error:
  "snd (Unmarshal (dec_struct AttestStrategy_fields) data zeroAttestStrategy) \<Longrightarrow>
   Attest_UpdateStrategy B data s = (Ret True, s)"
  by (cases "Unmarshal (dec_struct AttestStrategy_fields) data zeroAttestStrategy")
    (simp add: Attest_UpdateStrategy_def gret_run)

text \<open>
  At any slot at all, whatever the outcome: the set stays or gains an attestation of a known
  validator.
\<close>

lemma Attest_AfterSign_effect:
  fixes unmarshalAtt slot p data s
  defines "t \<equiv> snd (Attest_AfterSign B unmarshalAtt slot p data s)"
  shows "strat t = strat s \<and> (vset t = vset s \<or>
    (\<exists>a. GetValidatorByPubkey (vset s) p \<noteq> None \<and> vset t = AddSignedAttestation slot p a (vset s)))"
proof -
  let ?role = "b_GetValidatorRoleByPubkey B (int_of_u64 slot) p s"
  obtain r s1 where role: "?role = (r, s1)" by force
  have v1: "vset s1 = vset s" and st1: "strat s1 = strat s"
    using keeps_run [OF backend_frameD(3) [OF reads_keep(2)] role]
      keeps_run [OF backend_frameD(3) [OF reads_keep(1)] role] by simp_all
  show ?thesis
  proof (cases "\<exists>bs a. DecodeString data = Some bs \<and> unmarshalAtt bs = Some a \<and> r = Ret AttackerRole")
    case True
    then obtain bs a where "DecodeString data = Some bs" "unmarshalAtt bs = Some a" and r: "r = Ret AttackerRole"
      by blast
    moreover have "GetValidatorByPubkey (vset s) p \<noteq> None"
      using pubkey_known role r by auto
    moreover obtain t' where "b_AddSignedAttestation B slot p a s1 = (Ret (), t')"
      "strat t' = strat s1" "vset t' = AddSignedAttestation slot p a (vset s1)"
      using AddSignedAttestation_law by blast
    ultimately show ?thesis
      using role v1 st1 by (auto simp: t_def Attest_AfterSign_def gbind_def gret_run Let_def)
  next
    case False
    then have "t = s \<or> t = s1"
      unfolding t_def using role
      by (auto simp: Attest_AfterSign_def gbind_def gret_run Let_def split: option.split outcome.split)
        (metis RoleType.exhaust)+
    with v1 st1 show ?thesis by auto
  qed
qed

lemma Attest_UpdateStrategy_effect:
  "\<exists>a. strat (snd (Attest_UpdateStrategy B data s)) = (strat s)\<lparr>st_Attest := a\<rparr>"
  "vset (snd (Attest_UpdateStrategy B data s)) = vset s"
proof -
  obtain a err where u: "Unmarshal (dec_struct AttestStrategy_fields) data zeroAttestStrategy = (a, err)"
    by force
  obtain t where "b_SetAttest B a s = (Ret (), t)" "strat t = (strat s)\<lparr>st_Attest := a\<rparr>" "vset t = vset s"
    using SetAttest_law by blast
  then have "strat (snd (Attest_UpdateStrategy B data s)) =
      (strat s)\<lparr>st_Attest := (if err then st_Attest (strat s) else a)\<rparr>
    \<and> vset (snd (Attest_UpdateStrategy B data s)) = vset s"
    using u by (simp add: Attest_UpdateStrategy_def gbind_def gret_run)
  then show "\<exists>a. strat (snd (Attest_UpdateStrategy B data s)) = (strat s)\<lparr>st_Attest := a\<rparr>"
    "vset (snd (Attest_UpdateStrategy B data s)) = vset s" by blast+
qed

end

end
