(* ===== verification/Proposer_Atts.thy ===== *)
theory Proposer_Atts
  imports Go_Prelude
begin

text \<open>
  \<^verbatim>\<open>src/types/atts.go\<close>: the list of attestations a proposer packs into a block.
  Attestations, bit lists and \<^verbatim>\<open>MaxCover\<close> belong to Prysm and go-bitfield; the record
  \<open>att_lib\<close> holds what the code calls of them. \<^verbatim>\<open>Dedup\<close> is modelled with its index
  arithmetic on one slice: the inner loop is \<open>dedup_j\<close>, the outer one \<open>dedup_i\<close>, and a
  removal is \<open>swap_remove\<close>. Shown here: both loops end, what is left is an antichain of
  the input under bit inclusion that still covers it, sorting permutes, limiting truncates.
\<close>

record ('att, 'data, 'root, 'bits, 'b64, 'keys) att_lib =
  att_Data :: "'att \<Rightarrow> 'data option"
  att_AggregationBits :: "'att \<Rightarrow> 'bits"
  data_Slot :: "'data \<Rightarrow> u64"
  HashTreeRoot :: "'data option \<Rightarrow> ('root \<times> bool) outcome"
  bits_Contains :: "'bits \<Rightarrow> 'bits \<Rightarrow> bool option"
  bits_Count :: "'bits \<Rightarrow> nat"
  bits_ToBitlist64 :: "'bits \<Rightarrow> 'b64 option"
  MaxCover :: "'b64 list \<Rightarrow> nat \<Rightarrow> bool \<Rightarrow> 'keys option"
  keys_Count :: "'keys \<Rightarrow> nat"
  keys_Not :: "'keys \<Rightarrow> 'keys"
  keys_BitIndices :: "'keys \<Rightarrow> nat list"

section \<open>Grouping by a key\<close>

text \<open>\<^verbatim>\<open>m[k] = append(m[k], x)\<close> on a map from keys to slices, keys in insertion order.\<close>

fun bucket_add :: "'k \<Rightarrow> 'a \<Rightarrow> ('k \<times> 'a list) list \<Rightarrow> ('k \<times> 'a list) list" where
  "bucket_add k x [] = [(k, [x])]"
| "bucket_add k x ((k', xs) # m) =
     (if k = k' then (k', xs @ [x]) # m else (k', xs) # bucket_add k x m)"

definition buckets :: "('a \<Rightarrow> 'k) \<Rightarrow> 'a list \<Rightarrow> ('k \<times> 'a list) list" where
  "buckets key xs = fold (\<lambda>x. bucket_add (key x) x) xs []"

lemma keys_bucket_add: "set (map fst (bucket_add k x m)) = insert k (set (map fst m))"
  by (induction k x m rule: bucket_add.induct) (auto simp del: set_map)

lemma distinct_bucket_add:
  "distinct (map fst m) \<Longrightarrow> distinct (map fst (bucket_add k x m))"
  by (induction k x m rule: bucket_add.induct) (auto simp: keys_bucket_add simp del: set_map)

lemma map_of_bucket_add:
  "map_of (bucket_add k x m) k' =
     (if k' = k then Some (case map_of m k of None \<Rightarrow> [x] | Some xs \<Rightarrow> xs @ [x]) else map_of m k')"
  by (induction k x m rule: bucket_add.induct) auto

lemma mset_bucket_add:
  "mset (concat (map snd (bucket_add k x m))) = add_mset x (mset (concat (map snd m)))"
  by (induction k x m rule: bucket_add.induct) auto

lemma buckets_snoc: "buckets key (xs @ [x]) = bucket_add (key x) x (buckets key xs)"
  by (simp add: buckets_def)

lemma distinct_buckets: "distinct (map fst (buckets key xs))"
  by (induction xs rule: rev_induct) (simp_all add: buckets_snoc distinct_bucket_add buckets_def)

lemma map_of_buckets:
  "map_of (buckets key xs) k =
     (if k \<in> key ` set xs then Some (filter (\<lambda>x. key x = k) xs) else None)"
proof (induction xs rule: rev_induct)
  case Nil
  show ?case by (simp add: buckets_def)
next
  case (snoc x xs)
  then show ?case
    by (auto simp: buckets_snoc map_of_bucket_add filter_empty_conv) (metis imageI)
qed

lemma mset_buckets: "mset (concat (map snd (buckets key xs))) = mset xs"
  by (induction xs rule: rev_induct) (simp_all add: buckets_snoc mset_bucket_add, simp add: buckets_def)

lemma buckets_member:
  "(k, ys) \<in> set (buckets key xs) \<longleftrightarrow> k \<in> key ` set xs \<and> ys = filter (\<lambda>x. key x = k) xs"
  using map_of_eq_Some_iff [OF distinct_buckets, of key xs k ys]
  by (auto simp: map_of_buckets split: if_splits)

section \<open>Filter and limit\<close>

definition ProposerAtts_Filter :: "('att \<Rightarrow> bool) \<Rightarrow> 'att list \<Rightarrow> 'att list \<times> 'att list" where
  "ProposerAtts_Filter verifies a =
     fold (\<lambda>att (valid, invalid).
             if verifies att then (valid @ [att], invalid) else (valid, invalid @ [att]))
       a ([], [])"

definition LimitToMaxAttestations :: "u64 \<Rightarrow> 'att list \<Rightarrow> 'att list" where
  "LimitToMaxAttestations maxAttestations a =
     (if word_of_nat (length a) > maxAttestations then take (unat maxAttestations) a else a)"

section \<open>Dedup\<close>

definition swap_remove :: "'a list \<Rightarrow> nat \<Rightarrow> 'a list" where
  "swap_remove xs j = butlast (xs[j := last xs])"

lemma length_swap_remove [simp]: "length (swap_remove xs j) = length xs - 1"
  by (simp add: swap_remove_def)

lemma nth_swap_remove:
  "q < length xs - 1 \<Longrightarrow> swap_remove xs j ! q = (if q = j then last xs else xs ! q)"
  by (simp add: swap_remove_def nth_butlast nth_list_update)

text \<open>
  The inner loop compares element \<open>i\<close> with the elements from \<open>j\<close> on: \<open>None\<close> for the error
  of \<^verbatim>\<open>Contains\<close>, otherwise the slice left and whether element \<open>i\<close> was the redundant
  one (the \<^verbatim>\<open>break\<close> with \<^verbatim>\<open>i--\<close>).
\<close>

function dedup_j ::
  "('a \<Rightarrow> 'a \<Rightarrow> bool option) \<Rightarrow> 'a list \<Rightarrow> nat \<Rightarrow> nat \<Rightarrow> ('a list \<times> bool) option" where
  "dedup_j contains atts i j =
     (if j < length atts then
        (case contains (atts ! i) (atts ! j) of
           None \<Rightarrow> None
         | Some True \<Rightarrow> dedup_j contains (swap_remove atts j) i j
         | Some False \<Rightarrow>
             (case contains (atts ! j) (atts ! i) of
                None \<Rightarrow> None
              | Some True \<Rightarrow> Some (swap_remove atts i, True)
              | Some False \<Rightarrow> dedup_j contains atts i (Suc j)))
      else Some (atts, False))"
  by pat_completeness auto
termination
  by (relation "measure (\<lambda>(contains, atts, i, j). length atts - j)") auto

declare dedup_j.simps [simp del]

text \<open>One turn of the inner loop, by what the two comparisons say.\<close>

lemma dedup_j_turn:
  "\<not> j < length atts \<Longrightarrow> dedup_j contains atts i j = Some (atts, False)"
  "j < length atts \<Longrightarrow> contains (atts ! i) (atts ! j) = Some True \<Longrightarrow>
     dedup_j contains atts i j = dedup_j contains (swap_remove atts j) i j"
  "j < length atts \<Longrightarrow> contains (atts ! i) (atts ! j) = Some False \<Longrightarrow>
     contains (atts ! j) (atts ! i) = Some True \<Longrightarrow>
     dedup_j contains atts i j = Some (swap_remove atts i, True)"
  "j < length atts \<Longrightarrow> contains (atts ! i) (atts ! j) = Some False \<Longrightarrow>
     contains (atts ! j) (atts ! i) = Some False \<Longrightarrow>
     dedup_j contains atts i j = dedup_j contains atts i (Suc j)"
  by (simp_all add: dedup_j.simps [of contains atts i j])

lemma dedup_j_length:
  assumes "dedup_j contains atts i j = Some (atts', again)" and "i < j"
  shows "length atts' \<le> length atts \<and> (again \<longrightarrow> length atts' < length atts)"
  using assms
proof (induction contains atts i j rule: dedup_j.induct)
  case (1 contains atts i j)
  from "1.prems" show ?case
    by (subst (asm) dedup_j.simps)
      (use "1.IH" in \<open>fastforce split: if_splits option.splits bool.splits\<close>)
qed

text \<open>
  The outer loop. Before the first call of the inner loop \<open>j = i + 1\<close>, so the slice never
  grows and shrinks when the same position is visited again.
\<close>

function dedup_i :: "('a \<Rightarrow> 'a \<Rightarrow> bool option) \<Rightarrow> 'a list \<Rightarrow> nat \<Rightarrow> 'a list option" where
  "dedup_i contains atts i =
     (if i < length atts then
        (case dedup_j contains atts i (Suc i) of
           None \<Rightarrow> None
         | Some (atts', True) \<Rightarrow> dedup_i contains atts' i
         | Some (atts', False) \<Rightarrow> dedup_i contains atts' (Suc i))
      else Some atts)"
  by pat_completeness auto
termination
  by (relation "measure (\<lambda>(contains, atts, i). length atts + (length atts - i))")
    (auto dest!: dedup_j_length)

declare dedup_i.simps [simp del]

lemma dedup_i_turn:
  "\<not> i < length atts \<Longrightarrow> dedup_i contains atts i = Some atts"
  "i < length atts \<Longrightarrow> dedup_j contains atts i (Suc i) = Some (atts', True) \<Longrightarrow>
     dedup_i contains atts i = dedup_i contains atts' i"
  "i < length atts \<Longrightarrow> dedup_j contains atts i (Suc i) = Some (atts', False) \<Longrightarrow>
     dedup_i contains atts i = dedup_i contains atts' (Suc i)"
  by (simp_all add: dedup_i.simps [of contains atts i])

fun dedup_groups ::
  "('a \<Rightarrow> 'a \<Rightarrow> bool option) \<Rightarrow> 'a list list \<Rightarrow> 'a list \<Rightarrow> 'a list option" where
  "dedup_groups contains [] uniqAtts = Some uniqAtts"
| "dedup_groups contains (atts # gs) uniqAtts =
     (case dedup_i contains atts 0 of
        None \<Rightarrow> None
      | Some atts' \<Rightarrow> dedup_groups contains gs (uniqAtts @ atts'))"

text \<open>The first loop: group by data root, skipping attestations whose root fails.\<close>

fun hash_groups ::
  "('att, 'data, 'root, 'bits, 'b64, 'keys) att_lib \<Rightarrow> 'att list \<Rightarrow> ('root \<times> 'att list) list \<Rightarrow>
     ('root \<times> 'att list) list outcome" where
  "hash_groups L [] m = Ret m"
| "hash_groups L (att # a) m =
     obind (HashTreeRoot L (att_Data L att))
       (\<lambda>(root, err). if err then hash_groups L a m else hash_groups L a (bucket_add root att m))"

definition atts_contain ::
  "('att, 'data, 'root, 'bits, 'b64, 'keys) att_lib \<Rightarrow> 'att \<Rightarrow> 'att \<Rightarrow> bool option" where
  "atts_contain L a b = bits_Contains L (att_AggregationBits L a) (att_AggregationBits L b)"

text \<open>\<open>Ret None\<close> is \<^verbatim>\<open>return nil, err\<close>.\<close>

definition Dedup ::
  "('att, 'data, 'root, 'bits, 'b64, 'keys) att_lib \<Rightarrow> (nat \<Rightarrow> nat list) \<Rightarrow> 'att list \<Rightarrow>
     'att list option outcome" where
  "Dedup L ord a =
     (if length a < 2 then Ret (Some a)
      else obind (hash_groups L a [])
        (\<lambda>attsByDataRoot. Ret (dedup_groups (atts_contain L) (visit ord (map snd attsByDataRoot)) [])))"

subsection \<open>The loops\<close>

text \<open>Elements that neither contain the other.\<close>

definition incomparable :: "('a \<Rightarrow> 'a \<Rightarrow> bool option) \<Rightarrow> 'a \<Rightarrow> 'a \<Rightarrow> bool" where
  "incomparable contains a b \<longleftrightarrow> contains a b = Some False \<and> contains b a = Some False"

text \<open>The positions before \<open>i\<close> are settled: incomparable with everything after them.\<close>

definition settled :: "('a \<Rightarrow> 'a \<Rightarrow> bool option) \<Rightarrow> 'a list \<Rightarrow> nat \<Rightarrow> bool" where
  "settled contains xs i \<longleftrightarrow>
     (\<forall>p < i. \<forall>q. p < q \<longrightarrow> q < length xs \<longrightarrow> incomparable contains (xs ! p) (xs ! q))"

lemma last_nth: "j < length xs \<Longrightarrow> last xs = xs ! (length xs - 1)"
  by (rule last_conv_nth) auto

lemma settled_swap_remove:
  assumes "settled contains xs i" and "i \<le> j" and "j < length xs"
  shows "settled contains (swap_remove xs j) i"
  unfolding settled_def
proof (intro allI impI)
  fix p q
  assume "p < i" "p < q" "q < length (swap_remove xs j)"
  moreover from this assms have "xs \<noteq> []" by auto
  ultimately show "incomparable contains (swap_remove xs j ! p) (swap_remove xs j ! q)"
    using assms by (auto simp: nth_swap_remove last_conv_nth settled_def)
qed

lemma mset_swap_remove:
  assumes "j < length xs"
  shows "mset xs = add_mset (xs ! j) (mset (swap_remove xs j))"
proof -
  have "xs \<noteq> []" using assms by auto
  then obtain ys y where xs: "xs = ys @ [y]" by (cases xs rule: rev_cases) auto
  show ?thesis
  proof (cases "j = length ys")
    case True
    then show ?thesis by (simp add: xs swap_remove_def list_update_append nth_append)
  next
    case False
    with assms have "j < length ys" by (simp add: xs)
    then show ?thesis
      by (simp add: xs swap_remove_def list_update_append nth_append mset_update)
  qed
qed

lemma set_swap_remove: "j < length xs \<Longrightarrow> set xs = insert (xs ! j) (set (swap_remove xs j))"
  using mset_swap_remove [of j xs] by (metis set_mset_add_mset_insert set_mset_mset)

lemma in_swap_remove:
  assumes "i < length xs" "j < length xs" "i \<noteq> j"
  shows "xs ! i \<in> set (swap_remove xs j)"
proof (cases "i = length xs - 1")
  case True
  with assms have "swap_remove xs j ! j = xs ! i" "j < length (swap_remove xs j)"
    by (auto simp: nth_swap_remove last_nth [OF assms(1)])
  then show ?thesis by (metis nth_mem)
next
  case False
  with assms have "swap_remove xs j ! i = xs ! i" "i < length (swap_remove xs j)"
    by (auto simp: nth_swap_remove)
  then show ?thesis by (metis nth_mem)
qed

text \<open>\<open>ys\<close> keeps every element of \<open>xs\<close> or one that contains it.\<close>

definition covers :: "('a \<Rightarrow> 'a \<Rightarrow> bool option) \<Rightarrow> 'a list \<Rightarrow> 'a list \<Rightarrow> bool" where
  "covers contains ys xs \<longleftrightarrow> (\<forall>x \<in> set xs. \<exists>y \<in> set ys. contains y x = Some True)"

definition is_preorder :: "('a \<Rightarrow> 'a \<Rightarrow> bool option) \<Rightarrow> bool" where
  "is_preorder contains \<longleftrightarrow>
     (\<forall>a. contains a a = Some True) \<and>
     (\<forall>a b c. contains a b = Some True \<longrightarrow> contains b c = Some True \<longrightarrow> contains a c = Some True)"

lemma covers_refl: "is_preorder contains \<Longrightarrow> covers contains xs xs"
  by (auto simp: covers_def is_preorder_def)

lemma covers_trans:
  "is_preorder contains \<Longrightarrow> covers contains zs ys \<Longrightarrow> covers contains ys xs \<Longrightarrow> covers contains zs xs"
  unfolding covers_def is_preorder_def by metis

lemma covers_swap_remove:
  assumes "is_preorder contains" and "i < length xs" and "j < length xs" and "i \<noteq> j"
    and "contains (xs ! i) (xs ! j) = Some True"
  shows "covers contains (swap_remove xs j) xs"
  unfolding covers_def
proof
  fix x
  assume "x \<in> set xs"
  then have "x = xs ! j \<or> x \<in> set (swap_remove xs j)"
    using assms(3) set_swap_remove by fast
  then show "\<exists>y \<in> set (swap_remove xs j). contains y x = Some True"
    using assms in_swap_remove [OF assms(2,3,4)] by (auto simp: is_preorder_def)
qed

text \<open>What one run of the inner loop does.\<close>

definition j_inv :: "('a \<Rightarrow> 'a \<Rightarrow> bool option) \<Rightarrow> 'a list \<Rightarrow> nat \<Rightarrow> nat \<Rightarrow> bool" where
  "j_inv contains xs i j \<longleftrightarrow>
     i < j \<and> i < length xs \<and> settled contains xs i \<and>
     (\<forall>q. i < q \<longrightarrow> q < j \<longrightarrow> q < length xs \<longrightarrow> incomparable contains (xs ! i) (xs ! q))"

lemma j_inv_swap_remove:
  assumes "j_inv contains xs i j" and "j < length xs"
  shows "j_inv contains (swap_remove xs j) i j"
proof -
  from assms have ij: "i < j" "i < length xs - 1" by (auto simp: j_inv_def)
  with assms show ?thesis
    by (auto simp: j_inv_def settled_swap_remove nth_swap_remove)
qed

lemma dedup_j_settled:
  assumes "dedup_j contains xs i j = Some (ys, again)" and "j_inv contains xs i j"
  shows "settled contains ys (if again then i else Suc i)"
  using assms
proof (induction contains xs i j rule: dedup_j.induct)
  case (1 contains xs i j)
  note inv = \<open>j_inv contains xs i j\<close>
  show ?case
  proof (cases "j < length xs")
    case False
    with "1.prems" have ys: "ys = xs" "\<not> again"
      by (auto simp: dedup_j.simps [of contains xs i j])
    from inv False have "incomparable contains (xs ! i) (xs ! q)" if "i < q" "q < length xs" for q
      using that by (simp add: j_inv_def)
    with inv ys show ?thesis by (auto simp: j_inv_def settled_def less_Suc_eq)
  next
    case True
    consider (sub) "contains (xs ! i) (xs ! j) = Some True"
      | (sup) "contains (xs ! i) (xs ! j) = Some False" "contains (xs ! j) (xs ! i) = Some True"
      | (inc) "contains (xs ! i) (xs ! j) = Some False" "contains (xs ! j) (xs ! i) = Some False"
      using True "1.prems"(1)
      by (auto simp: dedup_j.simps [of contains xs i j] split: option.splits bool.splits)
    then show ?thesis
    proof cases
      case sub
      with True "1.prems" "1.IH"(1) j_inv_swap_remove [OF inv True] show ?thesis
        by (simp add: dedup_j.simps [of contains xs i j])
    next
      case sup
      with True "1.prems" have "ys = swap_remove xs i" "again"
        by (auto simp: dedup_j.simps [of contains xs i j])
      with inv show ?thesis by (simp add: j_inv_def settled_swap_remove)
    next
      case inc
      with inv True have "j_inv contains xs i (Suc j)"
        by (auto simp: j_inv_def incomparable_def less_Suc_eq)
      with inc True "1.prems" "1.IH"(2) [OF True inc(1) _ inc(2)] show ?thesis
        by (simp add: dedup_j.simps [of contains xs i j])
    qed
  qed
qed

lemma dedup_j_frame:
  assumes "dedup_j contains xs i j = Some (ys, again)" and "i < j" and "i < length xs"
  shows "mset ys \<subseteq># mset xs \<and> (is_preorder contains \<longrightarrow> covers contains ys xs)"
  using assms
proof (induction contains xs i j rule: dedup_j.induct)
  case (1 contains xs i j)
  show ?case
  proof (cases "j < length xs")
    case False
    with "1.prems" show ?thesis
      by (auto simp: dedup_j.simps [of contains xs i j] covers_refl)
  next
    case True
    have ij: "i < length xs" "i \<noteq> j" using "1.prems" by auto
    consider (sub) "contains (xs ! i) (xs ! j) = Some True"
      | (sup) "contains (xs ! i) (xs ! j) = Some False" "contains (xs ! j) (xs ! i) = Some True"
      | (inc) "contains (xs ! i) (xs ! j) = Some False" "contains (xs ! j) (xs ! i) = Some False"
      using True "1.prems"(1)
      by (auto simp: dedup_j.simps [of contains xs i j] split: option.splits bool.splits)
    then show ?thesis
    proof cases
      case sub
      have IH: "mset ys \<subseteq># mset (swap_remove xs j) \<and>
          (is_preorder contains \<longrightarrow> covers contains ys (swap_remove xs j))"
        using sub True "1.prems" "1.IH"(1) [OF True sub]
        by (simp add: dedup_j.simps [of contains xs i j])
      moreover have "mset (swap_remove xs j) \<subseteq># mset xs"
        by (simp add: mset_swap_remove [OF True])
      moreover have "is_preorder contains \<longrightarrow> covers contains (swap_remove xs j) xs"
        using covers_swap_remove ij(1) True ij(2) sub by metis
      ultimately show ?thesis by (metis covers_trans subset_mset.order_trans)
    next
      case sup
      with True "1.prems" have "ys = swap_remove xs i"
        by (auto simp: dedup_j.simps [of contains xs i j])
      with sup ij True show ?thesis
        by (auto simp: mset_swap_remove [of i xs] intro!: covers_swap_remove [where i = j and j = i])
    next
      case inc
      with True "1.prems" "1.IH"(2) [OF True inc(1) _ inc(2)] show ?thesis
        by (simp add: dedup_j.simps [of contains xs i j])
    qed
  qed
qed

text \<open>The outer loop leaves an antichain of the slice that covers it.\<close>

lemma dedup_i_settled:
  assumes "dedup_i contains xs i = Some ys" and "settled contains xs i"
  shows "settled contains ys (length ys)"
  using assms
proof (induction contains xs i rule: dedup_i.induct)
  case (1 contains xs i)
  show ?case
  proof (cases "i < length xs")
    case False
    with "1.prems" show ?thesis
      by (auto simp: dedup_i.simps [of contains xs i] settled_def)
  next
    case True
    with "1.prems"(1) obtain zs again where dj: "dedup_j contains xs i (Suc i) = Some (zs, again)"
      by (auto simp: dedup_i.simps [of contains xs i] split: option.splits)
    have "j_inv contains xs i (Suc i)"
      using True "1.prems"(2) by (auto simp: j_inv_def)
    with dj have st: "settled contains zs (if again then i else Suc i)"
      by (rule dedup_j_settled)
    show ?thesis
    proof (cases again)
      case True
      then show ?thesis
        using "1.prems"(1) "1.IH"(1) [OF \<open>i < length xs\<close> dj refl] dj st \<open>i < length xs\<close>
        by (simp add: dedup_i.simps [of contains xs i])
    next
      case False
      then show ?thesis
        using "1.prems"(1) "1.IH"(2) [OF \<open>i < length xs\<close> dj refl] dj st \<open>i < length xs\<close>
        by (simp add: dedup_i.simps [of contains xs i])
    qed
  qed
qed

lemma dedup_i_frame:
  assumes "dedup_i contains xs i = Some ys"
  shows "mset ys \<subseteq># mset xs \<and> (is_preorder contains \<longrightarrow> covers contains ys xs)"
  using assms
proof (induction contains xs i rule: dedup_i.induct)
  case (1 contains xs i)
  show ?case
  proof (cases "i < length xs")
    case False
    with "1.prems" show ?thesis
      by (auto simp: dedup_i.simps [of contains xs i] covers_refl)
  next
    case True
    with "1.prems"(1) obtain zs again where dj: "dedup_j contains xs i (Suc i) = Some (zs, again)"
      by (auto simp: dedup_i.simps [of contains xs i] split: option.splits)
    have zs: "mset zs \<subseteq># mset xs \<and> (is_preorder contains \<longrightarrow> covers contains zs xs)"
      using dedup_j_frame [OF dj] True by simp
    have "mset ys \<subseteq># mset zs \<and> (is_preorder contains \<longrightarrow> covers contains ys zs)"
      using "1.prems" "1.IH" [OF True dj refl] dj True
      by (cases again) (simp_all add: dedup_i.simps [of contains xs i])
    with zs show ?thesis by (metis covers_trans subset_mset.order_trans)
  qed
qed

text \<open>No error of \<^verbatim>\<open>Contains\<close>: the loops return.\<close>

definition comparable_all :: "('a \<Rightarrow> 'a \<Rightarrow> bool option) \<Rightarrow> 'a list \<Rightarrow> bool" where
  "comparable_all contains xs \<longleftrightarrow> (\<forall>a \<in> set xs. \<forall>b \<in> set xs. contains a b \<noteq> None)"

lemma comparable_all_subset:
  assumes "mset ys \<subseteq># mset xs" and "comparable_all contains xs"
  shows "comparable_all contains ys"
proof -
  have "set ys \<subseteq> set xs" using set_mset_mono [OF assms(1)] by simp
  with assms(2) show ?thesis by (auto simp: comparable_all_def)
qed

lemma dedup_j_returns:
  assumes "comparable_all contains xs" and "i < j" and "i < length xs"
  shows "\<exists>ys again. dedup_j contains xs i j = Some (ys, again)"
  using assms
proof (induction contains xs i j rule: dedup_j.induct)
  case (1 contains xs i j)
  show ?case
  proof (cases "j < length xs")
    case False
    then show ?thesis by (auto simp: dedup_j.simps [of contains xs i j])
  next
    case True
    obtain b c where bc: "contains (xs ! i) (xs ! j) = Some b" "contains (xs ! j) (xs ! i) = Some c"
      using True "1.prems" by (force simp: comparable_all_def)
    have "comparable_all contains (swap_remove xs j)"
      by (rule comparable_all_subset [OF _ "1.prems"(1)]) (simp add: mset_swap_remove [OF True])
    then show ?thesis
      using bc True "1.prems" "1.IH"
      by (cases b; cases c) (auto simp: dedup_j.simps [of contains xs i j])
  qed
qed

lemma dedup_i_returns:
  assumes "comparable_all contains xs"
  shows "\<exists>ys. dedup_i contains xs i = Some ys"
  using assms
proof (induction contains xs i rule: dedup_i.induct)
  case (1 contains xs i)
  show ?case
  proof (cases "i < length xs")
    case False
    then show ?thesis by (simp add: dedup_i.simps [of contains xs i])
  next
    case True
    then obtain zs again where dj: "dedup_j contains xs i (Suc i) = Some (zs, again)"
      using dedup_j_returns [OF "1.prems", of i "Suc i"] by auto
    then have "comparable_all contains zs"
      using dedup_j_frame [OF dj] True "1.prems" comparable_all_subset by blast
    with "1.IH" [OF True dj refl] dj True show ?thesis
      by (cases again) (simp_all add: dedup_i.simps [of contains xs i])
  qed
qed

subsection \<open>The whole of Dedup\<close>

definition root_of ::
  "('att, 'data, 'root, 'bits, 'b64, 'keys) att_lib \<Rightarrow> 'att \<Rightarrow> 'root option" where
  "root_of L att =
     (case HashTreeRoot L (att_Data L att) of Ret (root, False) \<Rightarrow> Some root | _ \<Rightarrow> None)"

lemma hash_groups_buckets:
  assumes "hash_groups L a (buckets (\<lambda>x. the (root_of L x)) b) = Ret g"
  shows "g = buckets (\<lambda>x. the (root_of L x)) (b @ filter (\<lambda>x. root_of L x \<noteq> None) a)"
  using assms
proof (induction a arbitrary: b)
  case Nil
  then show ?case by simp
next
  case (Cons att a)
  from Cons.prems obtain root err where h: "HashTreeRoot L (att_Data L att) = Ret (root, err)"
    by (auto simp: obind_Ret_iff)
  show ?case
  proof (cases err)
    case True
    with h Cons show ?thesis by (simp add: root_of_def)
  next
    case False
    with h have "root_of L att = Some root" by (simp add: root_of_def)
    moreover from this False h Cons.prems
    have "hash_groups L a (buckets (\<lambda>x. the (root_of L x)) (b @ [att])) = Ret g"
      by (simp add: buckets_snoc)
    ultimately show ?thesis using Cons.IH [of "b @ [att]"] by simp
  qed
qed

lemma hash_groups_Ret:
  "hash_groups L a [] = Ret g \<Longrightarrow>
   g = buckets (\<lambda>x. the (root_of L x)) (filter (\<lambda>x. root_of L x \<noteq> None) a)"
  using hash_groups_buckets [of L a "[]" g] by (simp add: buckets_def)

lemma hash_groups_returns:
  assumes "\<And>att. att \<in> set a \<Longrightarrow> \<exists>r. HashTreeRoot L (att_Data L att) = Ret r"
  shows "\<exists>g. hash_groups L a m = Ret g"
  using assms
proof (induction a arbitrary: m)
  case (Cons att a)
  obtain root err where "HashTreeRoot L (att_Data L att) = Ret (root, err)"
    using Cons.prems [of att] by auto
  with Cons show ?case by simp
qed simp

text \<open>The groups that survive, one deduplicated slice per data root.\<close>

lemma dedup_groups_split:
  "dedup_groups contains gs acc = Some u \<Longrightarrow>
   \<exists>us. list_all2 (\<lambda>g u. dedup_i contains g 0 = Some u) gs us \<and> u = acc @ concat us"
proof (induction gs arbitrary: acc)
  case Nil
  then show ?case by simp
next
  case (Cons g gs)
  then obtain g' where g': "dedup_i contains g 0 = Some g'"
    by (auto split: option.splits)
  with Cons obtain us where "list_all2 (\<lambda>g u. dedup_i contains g 0 = Some u) gs us"
    "u = (acc @ g') @ concat us"
    by fastforce
  with g' show ?case by (intro exI [of _ "g' # us"]) simp
qed

lemma dedup_groups_returns:
  "(\<And>g. g \<in> set gs \<Longrightarrow> \<exists>u. dedup_i contains g 0 = Some u) \<Longrightarrow> \<exists>u. dedup_groups contains gs acc = Some u"
proof (induction gs arbitrary: acc)
  case (Cons g gs)
  obtain g' where "dedup_i contains g 0 = Some g'" using Cons.prems by force
  with Cons show ?case by simp
qed simp

lemma visit_map: "visit ord (map f xs) = map f (visit ord xs)" if "is_order ord"
proof -
  have "i < length xs" if "i \<in> set (ord (length xs))" for i
    using that \<open>is_order ord\<close> by (metis atLeastLessThan_iff is_order_def mset_eq_setD set_upt)
  then show ?thesis by (simp add: visit_def)
qed

lemma sorted_wrt_concat:
  assumes "\<And>xs. xs \<in> set xss \<Longrightarrow> sorted_wrt R xs"
    and "sorted_wrt (\<lambda>xs ys. \<forall>x \<in> set xs. \<forall>y \<in> set ys. R x y) xss"
  shows "sorted_wrt R (concat xss)"
  using assms by (induction xss) (auto simp: sorted_wrt_append)

text \<open>The slices \<^verbatim>\<open>Dedup\<close> works on, in the order it visits them.\<close>

definition visited_groups ::
  "('att, 'data, 'root, 'bits, 'b64, 'keys) att_lib \<Rightarrow> (nat \<Rightarrow> nat list) \<Rightarrow> 'att list \<Rightarrow> 'att list list" where
  "visited_groups L ord a =
     visit ord (map snd (buckets (\<lambda>x. the (root_of L x)) (filter (\<lambda>x. root_of L x \<noteq> None) a)))"

lemma visited_groups_member:
  assumes "is_order ord" and "g \<in> set (visited_groups L ord a)"
  obtains r where "g = filter (\<lambda>x. root_of L x = Some r) a" and "g \<noteq> []"
proof -
  let ?B = "buckets (\<lambda>x. the (root_of L x)) (filter (\<lambda>x. root_of L x \<noteq> None) a)"
  from assms obtain r where "(r, g) \<in> set ?B"
    by (auto simp: visited_groups_def set_visit)
  then have r: "r \<in> (\<lambda>x. the (root_of L x)) ` set (filter (\<lambda>x. root_of L x \<noteq> None) a)"
    and g: "g = filter (\<lambda>x. the (root_of L x) = r) (filter (\<lambda>x. root_of L x \<noteq> None) a)"
    by (simp_all add: buckets_member)
  have "g = filter (\<lambda>x. root_of L x = Some r) a"
    unfolding g filter_filter by (rule filter_cong) auto
  moreover from r g have "g \<noteq> []" by (auto simp: filter_empty_conv)
  ultimately show ?thesis by (rule that)
qed

lemma visited_groups_apart:
  assumes "is_order ord"
  shows "sorted_wrt (\<lambda>g h. \<forall>x \<in> set g. \<forall>y \<in> set h. root_of L x \<noteq> root_of L y) (visited_groups L ord a)"
proof -
  let ?B = "buckets (\<lambda>x. the (root_of L x)) (filter (\<lambda>x. root_of L x \<noteq> None) a)"
  let ?V = "visit ord ?B"
  have "mset (map fst ?V) = mset (map fst ?B)"
    by (simp only: mset_map mset_visit [OF assms, of ?B])
  then have "distinct (map fst ?V)"
    using distinct_buckets by (metis mset_eq_imp_distinct_iff)
  then have apart: "sorted_wrt (\<lambda>g h. fst g \<noteq> fst h) ?V"
    by (simp add: distinct_conv_nth sorted_wrt_iff_nth_less)
  have roots: "\<forall>x \<in> set (snd g). root_of L x = Some (fst g)" if "g \<in> set ?V" for g
  proof -
    from that have "g \<in> set ?B" by (simp add: set_visit [OF assms])
    then have "snd g = filter (\<lambda>x. the (root_of L x) = fst g) (filter (\<lambda>x. root_of L x \<noteq> None) a)"
      by (metis buckets_member prod.collapse)
    then show ?thesis by auto
  qed
  have "sorted_wrt (\<lambda>g h. \<forall>x \<in> set (snd g). \<forall>y \<in> set (snd h). root_of L x \<noteq> root_of L y) ?V"
    by (rule sorted_wrt_mono_rel [OF _ apart]) (metis roots option.inject)
  then show ?thesis
    by (simp add: visited_groups_def visit_map [OF assms] sorted_wrt_map)
qed

lemma Dedup_parts:
  assumes "Dedup L ord a = Ret (Some u)" and "2 \<le> length a"
  obtains us where "u = concat us"
    and "list_all2 (\<lambda>g u. dedup_i (atts_contain L) g 0 = Some u) (visited_groups L ord a) us"
proof -
  from assms obtain g where "hash_groups L a [] = Ret g"
    and "dedup_groups (atts_contain L) (visit ord (map snd g)) [] = Some u"
    by (auto simp: Dedup_def obind_Ret_iff)
  then have "dedup_groups (atts_contain L) (visited_groups L ord a) [] = Some u"
    using hash_groups_Ret [of L a g] by (simp add: visited_groups_def)
  from dedup_groups_split [OF this] that show ?thesis by auto
qed

lemma list_all2_memberE:
  assumes "list_all2 P xs ys" and "y \<in> set ys"
  obtains x where "x \<in> set xs" and "P x y"
  using assms by (induction rule: list_all2_induct) auto

lemma list_all2_memberE1:
  assumes "list_all2 P xs ys" and "x \<in> set xs"
  obtains y where "y \<in> set ys" and "P x y"
  using assms by (induction rule: list_all2_induct) auto

lemma sorted_wrt_list_all2:
  assumes "list_all2 P xs ys" and "sorted_wrt R xs"
    and "\<And>x y x' y'. P x y \<Longrightarrow> P x' y' \<Longrightarrow> R x x' \<Longrightarrow> S y y'"
  shows "sorted_wrt S ys"
  unfolding sorted_wrt_iff_nth_less
proof (intro allI impI)
  fix p q
  assume "p < q" "q < length ys"
  moreover have "length xs = length ys" using assms(1) by (rule list_all2_lengthD)
  ultimately show "S (ys ! p) (ys ! q)"
    using assms(1,2) assms(3) [of "xs ! p" "ys ! p" "xs ! q" "ys ! q"]
    by (simp add: sorted_wrt_iff_nth_less list_all2_nthD)
qed

lemma dedup_i_antichain:
  assumes "dedup_i contains g 0 = Some u"
  shows "sorted_wrt (incomparable contains) u"
  using dedup_i_settled [OF assms] by (simp add: settled_def sorted_wrt_iff_nth_less)

lemma dedup_i_subset: "dedup_i contains g 0 = Some u \<Longrightarrow> set u \<subseteq> set g"
  using dedup_i_frame [of contains g 0 u] by (metis set_mset_mono set_mset_mset)

lemma Dedup_sorted_wrt:
  assumes "Dedup L ord a = Ret (Some u)" and "is_order ord"
  shows "sorted_wrt (\<lambda>x y. root_of L x = root_of L y \<longrightarrow> incomparable (atts_contain L) x y) u"
    (is "sorted_wrt ?R u")
proof (cases "length a < 2")
  case True
  with assms(1) have "u = a" by (simp add: Dedup_def)
  with True show ?thesis by (auto simp: sorted_wrt_iff_nth_less)
next
  case False
  then obtain us where u: "u = concat us"
    and us: "list_all2 (\<lambda>g u. dedup_i (atts_contain L) g 0 = Some u) (visited_groups L ord a) us"
    using Dedup_parts [OF assms(1)] by force
  have "sorted_wrt ?R v" if "v \<in> set us" for v
    using us that by (auto elim!: list_all2_memberE intro: sorted_wrt_mono_rel [OF _ dedup_i_antichain])
  moreover have "sorted_wrt (\<lambda>v w. \<forall>x \<in> set v. \<forall>y \<in> set w. ?R x y) us"
    by (rule sorted_wrt_list_all2 [OF us visited_groups_apart [OF assms(2)]])
      (use dedup_i_subset in blast)
  ultimately show ?thesis unfolding u by (rule sorted_wrt_concat)
qed

lemma mset_concat_list_all2:
  assumes "list_all2 (\<lambda>g u. mset u \<subseteq># mset g) gs us"
  shows "mset (concat us) \<subseteq># mset (concat gs)"
  using assms by (induction rule: list_all2_induct) (auto intro: subset_mset.add_mono)

lemma mset_concat_cong: "mset xss = mset yss \<Longrightarrow> mset (concat xss) = mset (concat yss)"
proof -
  assume "mset xss = mset yss"
  then have "sum_mset (mset (map mset xss)) = sum_mset (mset (map mset yss))" by simp
  then show ?thesis by (simp only: mset_concat sum_mset_sum_list)
qed

lemma mset_visited_groups:
  assumes "is_order ord"
  shows "mset (concat (visited_groups L ord a)) = mset (filter (\<lambda>x. root_of L x \<noteq> None) a)"
proof -
  let ?B = "buckets (\<lambda>x. the (root_of L x)) (filter (\<lambda>x. root_of L x \<noteq> None) a)"
  have "mset (visited_groups L ord a) = mset (map snd ?B)"
    unfolding visited_groups_def by (rule mset_visit [OF assms])
  then have "mset (concat (visited_groups L ord a)) = mset (concat (map snd ?B))"
    by (rule mset_concat_cong)
  then show ?thesis by (simp only: mset_buckets)
qed

lemma Dedup_mset:
  assumes "Dedup L ord a = Ret (Some u)" and "is_order ord"
  shows "mset u \<subseteq># mset a"
proof (cases "length a < 2")
  case True
  with assms(1) show ?thesis by (simp add: Dedup_def)
next
  case False
  then obtain us where u: "u = concat us"
    and us: "list_all2 (\<lambda>g u. dedup_i (atts_contain L) g 0 = Some u) (visited_groups L ord a) us"
    using Dedup_parts [OF assms(1)] by force
  from us have "list_all2 (\<lambda>g u. mset u \<subseteq># mset g) (visited_groups L ord a) us"
    by (rule list_all2_mono) (simp add: dedup_i_frame)
  then have "mset u \<subseteq># mset (concat (visited_groups L ord a))"
    unfolding u by (rule mset_concat_list_all2)
  moreover have "mset (filter (\<lambda>x. root_of L x \<noteq> None) a) \<subseteq># mset a"
    by (simp add: multiset_filter_subset)
  ultimately show ?thesis
    by (metis assms(2) mset_visited_groups subset_mset.order_trans)
qed

lemma Dedup_covers_all:
  assumes "Dedup L ord a = Ret (Some u)" and "is_order ord" and "is_preorder (atts_contain L)"
    and "x \<in> set a" and "root_of L x = Some r"
  shows "\<exists>y \<in> set u. root_of L y = Some r \<and> atts_contain L y x = Some True"
proof (cases "length a < 2")
  case True
  with assms show ?thesis by (auto simp: Dedup_def is_preorder_def)
next
  case False
  then obtain us where u: "u = concat us"
    and us: "list_all2 (\<lambda>g u. dedup_i (atts_contain L) g 0 = Some u) (visited_groups L ord a) us"
    using Dedup_parts [OF assms(1)] by force
  have "x \<in> set (concat (visited_groups L ord a))"
    using assms(4,5) mset_eq_setD [OF mset_visited_groups [OF assms(2), of L a]] by auto
  then obtain g where g: "g \<in> set (visited_groups L ord a)" "x \<in> set g" by auto
  from us g(1) obtain v where v: "v \<in> set us" "dedup_i (atts_contain L) g 0 = Some v"
    by (rule list_all2_memberE1)
  obtain y where y: "y \<in> set v" "atts_contain L y x = Some True"
    using dedup_i_frame [OF v(2)] assms(3) g(2) by (auto simp: covers_def)
  from assms(2) g(1) obtain r' where "g = filter (\<lambda>x. root_of L x = Some r') a"
    by (rule visited_groups_member)
  then have "root_of L y = Some r"
    using g(2) assms(5) dedup_i_subset [OF v(2)] y(1) by auto
  with u v(1) y show ?thesis by auto
qed

lemma Dedup_total:
  assumes "is_order ord"
    and "\<And>x. x \<in> set a \<Longrightarrow> \<exists>r. HashTreeRoot L (att_Data L x) = Ret r"
    and "\<And>x y. x \<in> set a \<Longrightarrow> y \<in> set a \<Longrightarrow> root_of L x = root_of L y \<Longrightarrow> atts_contain L x y \<noteq> None"
  shows "\<exists>u. Dedup L ord a = Ret (Some u)"
proof -
  obtain g where g: "hash_groups L a [] = Ret g"
    using hash_groups_returns [OF assms(2)] by blast
  then have "visited_groups L ord a = visit ord (map snd g)"
    by (simp only: visited_groups_def hash_groups_Ret [OF g])
  moreover have "\<exists>u. dedup_i (atts_contain L) h 0 = Some u" if h: "h \<in> set (visited_groups L ord a)" for h
  proof (rule dedup_i_returns)
    from assms(1) h obtain r where "h = filter (\<lambda>x. root_of L x = Some r) a"
      by (rule visited_groups_member)
    with assms(3) show "comparable_all (atts_contain L) h" by (auto simp: comparable_all_def)
  qed
  ultimately have "\<exists>u. dedup_groups (atts_contain L) (visit ord (map snd g)) [] = Some u"
    by (simp add: dedup_groups_returns)
  with g show ?thesis by (auto simp: Dedup_def)
qed

section \<open>Sorting by profitability\<close>

definition att_slot ::
  "('att, 'data, 'root, 'bits, 'b64, 'keys) att_lib \<Rightarrow> 'att \<Rightarrow> u64 outcome" where
  "att_slot L att =
     (case att_Data L att of None \<Rightarrow> Panic NilDereference | Some d \<Rightarrow> Ret (data_Slot L d))"

fun slot_groups ::
  "('att, 'data, 'root, 'bits, 'b64, 'keys) att_lib \<Rightarrow> 'att list \<Rightarrow> u64 list \<Rightarrow>
     (u64 \<times> 'att list) list \<Rightarrow> (u64 list \<times> (u64 \<times> 'att list) list) outcome" where
  "slot_groups L [] slots attsBySlot = Ret (slots, attsBySlot)"
| "slot_groups L (att # a) slots attsBySlot =
     obind (att_slot L att)
       (\<lambda>slot. slot_groups L a
          (if map_of attsBySlot slot = None then slots @ [slot] else slots)
          (bucket_add slot att attsBySlot))"

text \<open>
  \<^verbatim>\<open>make(ProposerAtts, n)\<close> filled through a list of indices. An index out of range
  panics, and so does the first use of an entry left nil.
\<close>

definition pick_atts :: "'att list \<Rightarrow> nat \<Rightarrow> nat list \<Rightarrow> 'att list outcome" where
  "pick_atts atts n keys =
     (if length keys > n \<or> list_ex (\<lambda>k. k \<ge> length atts) keys then Panic IndexOutOfRange
      else if length keys < n then Panic NilDereference
      else Ret (map ((!) atts) keys))"

text \<open>
  \<open>sortSlice\<close> is \<^verbatim>\<open>sort.Slice\<close> with the comparison by descending bit count; the
  library does not promise an order among equal counts.
\<close>

definition selectAtts ::
  "('att, 'data, 'root, 'bits, 'b64, 'keys) att_lib \<Rightarrow> ('att list \<Rightarrow> 'att list) \<Rightarrow> 'att list \<Rightarrow>
     'att list option outcome" where
  "selectAtts L sortSlice atts =
     (if length atts < 2 then Ret (Some atts)
      else case those (map (\<lambda>att. bits_ToBitlist64 L (att_AggregationBits L att)) atts) of
        None \<Rightarrow> Ret None
      | Some candidates \<Rightarrow>
          (case MaxCover L candidates (length candidates) True of
             None \<Rightarrow> Ret (Some atts)
           | Some selectedKeys \<Rightarrow>
               obind (pick_atts atts (keys_Count L selectedKeys) (keys_BitIndices L selectedKeys))
                 (\<lambda>selectedAtts.
               obind (pick_atts atts (keys_Count L (keys_Not L selectedKeys))
                        (keys_BitIndices L (keys_Not L selectedKeys)))
                 (\<lambda>leftoverAtts. Ret (Some (sortSlice selectedAtts @ sortSlice leftoverAtts))))))"

fun collect_slots ::
  "('att, 'data, 'root, 'bits, 'b64, 'keys) att_lib \<Rightarrow> ('att list \<Rightarrow> 'att list) \<Rightarrow>
     (u64 \<times> 'att list) list \<Rightarrow> u64 list \<Rightarrow> 'att list \<Rightarrow> 'att list option outcome" where
  "collect_slots L sortSlice attsBySlot [] sortedAtts = Ret (Some sortedAtts)"
| "collect_slots L sortSlice attsBySlot (slot # slots) sortedAtts =
     obind (selectAtts L sortSlice (case map_of attsBySlot slot of None \<Rightarrow> [] | Some as \<Rightarrow> as))
       (\<lambda>r. case r of
          None \<Rightarrow> Ret None
        | Some selected \<Rightarrow> collect_slots L sortSlice attsBySlot slots (sortedAtts @ selected))"

definition SortByProfitabilityUsingMaxCover ::
  "('att, 'data, 'root, 'bits, 'b64, 'keys) att_lib \<Rightarrow> ('att list \<Rightarrow> 'att list) \<Rightarrow> 'att list \<Rightarrow>
     'att list option outcome" where
  "SortByProfitabilityUsingMaxCover L sortSlice a =
     obind (slot_groups L a [] [])
       (\<lambda>(slots, attsBySlot). collect_slots L sortSlice attsBySlot (rev (sort slots)) [])"

definition SortByProfitability ::
  "('att, 'data, 'root, 'bits, 'b64, 'keys) att_lib \<Rightarrow> ('att list \<Rightarrow> 'att list) \<Rightarrow> 'att list \<Rightarrow>
     'att list option outcome" where
  "SortByProfitability L sortSlice a =
     (if length a < 2 then Ret (Some a) else SortByProfitabilityUsingMaxCover L sortSlice a)"

subsection \<open>What the libraries promise\<close>

text \<open>A bit list of keys and its complement list every candidate's index once.\<close>

definition cover_laws :: "('att, 'data, 'root, 'bits, 'b64, 'keys) att_lib \<Rightarrow> bool" where
  "cover_laws L \<longleftrightarrow>
     (\<forall>k. keys_Count L k = length (keys_BitIndices L k)) \<and>
     (\<forall>cs n o' k. MaxCover L cs n o' = Some k \<longrightarrow>
        mset (keys_BitIndices L k @ keys_BitIndices L (keys_Not L k)) = mset [0..<length cs])"

definition sort_laws ::
  "('att, 'data, 'root, 'bits, 'b64, 'keys) att_lib \<Rightarrow> ('att list \<Rightarrow> 'att list) \<Rightarrow> bool" where
  "sort_laws L sortSlice \<longleftrightarrow>
     (\<forall>xs. mset (sortSlice xs) = mset xs \<and>
        sorted_wrt (\<lambda>a b. bits_Count L (att_AggregationBits L a) \<ge> bits_Count L (att_AggregationBits L b))
          (sortSlice xs))"

subsection \<open>Slots\<close>

definition slot_of :: "('att, 'data, 'root, 'bits, 'b64, 'keys) att_lib \<Rightarrow> 'att \<Rightarrow> u64" where
  "slot_of L att = (case att_Data L att of None \<Rightarrow> 0 | Some d \<Rightarrow> data_Slot L d)"

lemma att_slot_Ret: "att_slot L att = Ret slot \<Longrightarrow> slot = slot_of L att"
  by (auto simp: att_slot_def slot_of_def split: option.splits)

lemma bucket_add_keys:
  "map fst (bucket_add k x m) = map fst m @ (if map_of m k = None then [k] else [])"
  by (induction k x m rule: bucket_add.induct) auto

lemma slot_groups_buckets:
  assumes "slot_groups L a (map fst (buckets (slot_of L) b)) (buckets (slot_of L) b) = Ret (slots, m)"
  shows "m = buckets (slot_of L) (b @ a) \<and> slots = map fst m"
  using assms
proof (induction a arbitrary: b)
  case Nil
  then show ?case by auto
next
  case (Cons att a)
  then obtain slot where "att_slot L att = Ret slot" by (auto simp: obind_Ret_iff)
  moreover from this have "slot = slot_of L att" by (rule att_slot_Ret)
  ultimately have "slot_groups L a (map fst (buckets (slot_of L) (b @ [att])))
      (buckets (slot_of L) (b @ [att])) = Ret (slots, m)"
    using Cons.prems by (auto simp: buckets_snoc bucket_add_keys split: if_splits)
  from Cons.IH [OF this] show ?case by simp
qed

lemma slot_groups_Ret:
  "slot_groups L a [] [] = Ret (slots, m) \<Longrightarrow> m = buckets (slot_of L) a \<and> slots = map fst m"
  using slot_groups_buckets [of L a "[]" slots m] by (simp add: buckets_def)

lemma slot_groups_returns:
  "(\<And>att. att \<in> set a \<Longrightarrow> att_Data L att \<noteq> None) \<Longrightarrow> \<exists>r. slot_groups L a slots m = Ret r"
proof (induction a arbitrary: slots m)
  case (Cons att a)
  then obtain slot where "att_slot L att = Ret slot" by (force simp: att_slot_def)
  with Cons show ?case by simp
qed simp

lemma pick_atts_Ret: "pick_atts atts n keys = Ret xs \<Longrightarrow> xs = map ((!) atts) keys"
  by (auto simp: pick_atts_def split: if_splits)

lemma map_nth_mset: "mset ks = mset [0..<length xs] \<Longrightarrow> mset (map ((!) xs) ks) = mset xs"
  by (metis map_nth mset_map)

lemma those_length: "those xs = Some ys \<Longrightarrow> length ys = length xs"
  by (induction xs arbitrary: ys) (auto split: option.splits)

lemma selectAtts_mset:
  assumes "selectAtts L sortSlice atts = Ret (Some r)" and "cover_laws L" and "sort_laws L sortSlice"
  shows "mset r = mset atts"
proof (cases "length atts < 2")
  case True
  with assms(1) show ?thesis by (simp add: selectAtts_def)
next
  case False
  with assms(1) obtain cs where cs: "those (map (\<lambda>att. bits_ToBitlist64 L (att_AggregationBits L att)) atts) = Some cs"
    by (auto simp: selectAtts_def split: option.splits)
  show ?thesis
  proof (cases "MaxCover L cs (length cs) True")
    case None
    with False cs assms(1) show ?thesis by (simp add: selectAtts_def)
  next
    case (Some k)
    with False cs assms(1) obtain xs ys
      where xs: "pick_atts atts (keys_Count L k) (keys_BitIndices L k) = Ret xs"
        and ys: "pick_atts atts (keys_Count L (keys_Not L k)) (keys_BitIndices L (keys_Not L k)) = Ret ys"
        and r: "r = sortSlice xs @ sortSlice ys"
      by (auto simp: selectAtts_def obind_Ret_iff)
    have "mset (keys_BitIndices L k @ keys_BitIndices L (keys_Not L k)) = mset [0..<length atts]"
      using Some assms(2) those_length [OF cs] by (simp add: cover_laws_def)
    then have "mset (xs @ ys) = mset atts"
      using map_nth_mset [of "keys_BitIndices L k @ keys_BitIndices L (keys_Not L k)" atts]
      by (simp add: pick_atts_Ret [OF xs] pick_atts_Ret [OF ys])
    with r assms(3) show ?thesis by (simp add: sort_laws_def)
  qed
qed

text \<open>The slice of a slot, as the loop over the slots looks it up.\<close>

definition slot_slice :: "(u64 \<times> 'att list) list \<Rightarrow> u64 \<Rightarrow> 'att list" where
  "slot_slice m slot = (case map_of m slot of None \<Rightarrow> [] | Some as \<Rightarrow> as)"

lemma collect_slots_split:
  "collect_slots L sortSlice m slots acc = Ret (Some r) \<Longrightarrow>
   \<exists>rs. r = acc @ concat rs \<and>
     list_all2 (\<lambda>slot r. selectAtts L sortSlice (slot_slice m slot) = Ret (Some r)) slots rs"
proof (induction slots arbitrary: acc)
  case Nil
  then show ?case by simp
next
  case (Cons slot slots)
  then obtain sel where sel: "selectAtts L sortSlice (slot_slice m slot) = Ret (Some sel)"
    and "collect_slots L sortSlice m slots (acc @ sel) = Ret (Some r)"
    by (auto simp: obind_Ret_iff slot_slice_def split: option.splits)
  with Cons.IH obtain rs where "r = (acc @ sel) @ concat rs"
    "list_all2 (\<lambda>slot r. selectAtts L sortSlice (slot_slice m slot) = Ret (Some r)) slots rs"
    by blast
  with sel show ?case by (intro exI [of _ "sel # rs"]) simp
qed

lemma slot_slice_buckets: "slot_slice (buckets (slot_of L) a) slot = filter (\<lambda>x. slot_of L x = slot) a"
  by (auto simp: slot_slice_def map_of_buckets intro!: filter_False [symmetric])

lemma SortByProfitability_parts:
  assumes "SortByProfitabilityUsingMaxCover L sortSlice a = Ret (Some r)"
    and "cover_laws L" and "sort_laws L sortSlice"
  obtains slots rs where "r = concat rs" and "sorted_wrt (>) slots"
    and "set slots = slot_of L ` set a"
    and "list_all2 (\<lambda>slot r. mset r = mset (filter (\<lambda>x. slot_of L x = slot) a)) slots rs"
proof -
  from assms(1) obtain slots m where sm: "slot_groups L a [] [] = Ret (slots, m)"
    and c: "collect_slots L sortSlice m (rev (sort slots)) [] = Ret (Some r)"
    by (auto simp: SortByProfitabilityUsingMaxCover_def obind_Ret_iff)
  from sm have m: "m = buckets (slot_of L) a" and slots: "slots = map fst m"
    by (auto dest: slot_groups_Ret)
  from collect_slots_split [OF c] obtain rs where r: "r = concat rs"
    and rs: "list_all2 (\<lambda>slot r. selectAtts L sortSlice (slot_slice m slot) = Ret (Some r)) (rev (sort slots)) rs"
    by auto
  have "distinct slots" by (simp add: slots m distinct_buckets)
  then have "sorted_wrt (<) (sort slots)" by (simp add: strict_sorted_iff)
  then have "sorted_wrt (>) (rev (sort slots))" by (simp add: sorted_wrt_rev)
  moreover have "set slots = slot_of L ` set a"
    using map_of_buckets [of "slot_of L" a]
    by (auto simp: slots m dom_map_of_conv_image_fst [symmetric] dom_def split: if_splits)
  moreover from rs have "list_all2 (\<lambda>slot r. mset r = mset (filter (\<lambda>x. slot_of L x = slot) a)) (rev (sort slots)) rs"
    by (rule list_all2_mono) (use selectAtts_mset assms(2,3) in \<open>fastforce simp: m slot_slice_buckets\<close>)
  ultimately show ?thesis using that [OF r, of "rev (sort slots)"] by simp
qed

lemma mset_filter_slots:
  assumes "distinct slots" and "set slots = f ` set a"
  shows "mset (concat (map (\<lambda>s. filter (\<lambda>x. f x = s) a) slots)) = mset a"
proof -
  have "mset (concat (map (\<lambda>s. filter (\<lambda>x. f x = s) a) slots)) = mset (filter (\<lambda>x. f x \<in> set slots) a)"
    using assms(1)
  proof (induction slots)
    case (Cons s slots)
    have "filter_mset (\<lambda>x. f x = s \<or> f x \<in> set slots) (mset a) =
        filter_mset (\<lambda>x. f x = s) (mset a) + filter_mset (\<lambda>x. f x \<in> set slots) (mset a)"
      by (rule multiset_eqI) (use Cons.prems in auto)
    with Cons show ?case by simp
  qed simp
  also have "filter (\<lambda>x. f x \<in> set slots) a = a"
    by (simp add: assms(2))
  finally show ?thesis .
qed

lemma list_all2_mset_concat:
  "list_all2 (\<lambda>s r. mset r = mset (g s)) slots rs \<Longrightarrow> mset (concat rs) = mset (concat (map g slots))"
  by (induction rule: list_all2_induct) simp_all

lemma SortUsingMaxCover_mset:
  assumes "SortByProfitabilityUsingMaxCover L sortSlice a = Ret (Some r)"
    and "cover_laws L" and "sort_laws L sortSlice"
  shows "mset r = mset a"
proof -
  from assms obtain slots rs where r: "r = concat rs" and sl: "sorted_wrt (>) slots"
    and set_slots: "set slots = slot_of L ` set a"
    and rs: "list_all2 (\<lambda>slot r. mset r = mset (filter (\<lambda>x. slot_of L x = slot) a)) slots rs"
    by (rule SortByProfitability_parts)
  from sl have "distinct slots"
    by (metis distinct_rev sorted_wrt_rev strict_sorted_iff)
  then show ?thesis
    unfolding r list_all2_mset_concat [OF rs] using set_slots by (rule mset_filter_slots)
qed

lemma SortUsingMaxCover_slots:
  assumes "SortByProfitabilityUsingMaxCover L sortSlice a = Ret (Some r)"
    and "cover_laws L" and "sort_laws L sortSlice"
  shows "sorted_wrt (\<lambda>x y. slot_of L x \<ge> slot_of L y) r"
proof -
  from assms obtain slots rs where r: "r = concat rs" and sl: "sorted_wrt (>) slots"
    and rs: "list_all2 (\<lambda>slot r. mset r = mset (filter (\<lambda>x. slot_of L x = slot) a)) slots rs"
    by (rule SortByProfitability_parts)
  have slice: "slot_of L x = slot" if "mset r' = mset (filter (\<lambda>x. slot_of L x = slot) a)" "x \<in> set r'" for r' slot x
    using mset_eq_setD [OF that(1)] that(2) by auto
  have "sorted_wrt (\<lambda>x y. slot_of L x \<ge> slot_of L y) r'" if r': "r' \<in> set rs" for r'
  proof -
    from rs r' obtain slot where "mset r' = mset (filter (\<lambda>x. slot_of L x = slot) a)"
      by (rule list_all2_memberE)
    then have "\<forall>x \<in> set r'. slot_of L x = slot" using slice by blast
    then show ?thesis by (simp add: sorted_wrt_iff_nth_less)
  qed
  moreover have "sorted_wrt (\<lambda>r1 r2. \<forall>x \<in> set r1. \<forall>y \<in> set r2. slot_of L x \<ge> slot_of L y) rs"
  proof (rule sorted_wrt_list_all2 [OF rs sl])
    fix s1 r1 s2 r2
    assume r1: "mset r1 = mset (filter (\<lambda>x. slot_of L x = s1) a)"
      and r2: "mset r2 = mset (filter (\<lambda>x. slot_of L x = s2) a)" and "s1 > s2"
    then show "\<forall>x \<in> set r1. \<forall>y \<in> set r2. slot_of L x \<ge> slot_of L y"
      using slice [OF r1] slice [OF r2] by (simp add: less_imp_le)
  qed
  ultimately show ?thesis unfolding r by (rule sorted_wrt_concat)
qed

subsection \<open>The whole sort\<close>

definition bits_convert :: "('att, 'data, 'root, 'bits, 'b64, 'keys) att_lib \<Rightarrow> bool" where
  "bits_convert L \<longleftrightarrow> (\<forall>b. bits_ToBitlist64 L b \<noteq> None)"

lemma those_total: "(\<And>x. x \<in> set xs \<Longrightarrow> f x \<noteq> None) \<Longrightarrow> those (map f xs) \<noteq> None"
  by (induction xs) (auto split: option.split)

lemma selectAtts_no_error: "bits_convert L \<Longrightarrow> selectAtts L sortSlice atts \<noteq> Ret None"
  using those_total [of atts "\<lambda>att. bits_ToBitlist64 L (att_AggregationBits L att)"]
  by (auto simp: selectAtts_def bits_convert_def obind_Ret_iff split: option.split)

lemma collect_slots_no_error:
  "bits_convert L \<Longrightarrow> collect_slots L sortSlice m slots acc \<noteq> Ret None"
  by (induction slots arbitrary: acc)
    (auto simp: obind_Ret_iff selectAtts_no_error split: option.splits)

lemma SortByProfitability_no_error: "bits_convert L \<Longrightarrow> SortByProfitability L sortSlice a \<noteq> Ret None"
  by (auto simp: SortByProfitability_def SortByProfitabilityUsingMaxCover_def obind_Ret_iff
      collect_slots_no_error)

lemma SortByProfitability_mset:
  assumes "SortByProfitability L sortSlice a = Ret (Some r)" and "cover_laws L" and "sort_laws L sortSlice"
  shows "mset r = mset a"
  using assms SortUsingMaxCover_mset by (auto simp: SortByProfitability_def split: if_splits)

lemma sorted_wrt_short: "length xs < 2 \<Longrightarrow> sorted_wrt R xs"
  by (cases xs) auto

lemma SortByProfitability_slots:
  assumes "SortByProfitability L sortSlice a = Ret (Some r)" and "cover_laws L" and "sort_laws L sortSlice"
  shows "sorted_wrt (\<lambda>x y. slot_of L x \<ge> slot_of L y) r"
proof (cases "length a < 2")
  case True
  with assms(1) show ?thesis by (simp add: SortByProfitability_def sorted_wrt_short)
next
  case False
  with assms show ?thesis by (simp add: SortByProfitability_def SortUsingMaxCover_slots)
qed

lemma LimitToMaxAttestations_prefix: "\<exists>n. LimitToMaxAttestations m a = take n a"
  by (metis LimitToMaxAttestations_def order_refl take_all)

lemma LimitToMaxAttestations_length:
  assumes "length (LimitToMaxAttestations m a) < 2 ^ 64"
  shows "length (LimitToMaxAttestations m a) \<le> unat m"
proof (cases "word_of_nat (length a) > m")
  case True
  then show ?thesis by (simp add: LimitToMaxAttestations_def)
next
  case False
  with assms have "length a < 2 ^ 64" by (simp add: LimitToMaxAttestations_def)
  moreover from False have "unat (word_of_nat (length a) :: u64) \<le> unat m"
    by (simp add: word_le_nat_alt [symmetric] not_less)
  ultimately show ?thesis using False
    by (simp add: LimitToMaxAttestations_def unat_of_nat take_bit_nat_eq_self)
qed

subsection \<open>No panic\<close>

text \<open>With data on every attestation and the laws of the key lists, nothing panics.\<close>

definition data_ok :: "('att, 'data, 'root, 'bits, 'b64, 'keys) att_lib \<Rightarrow> bool" where
  "data_ok L \<longleftrightarrow> (\<forall>a. att_Data L a \<noteq> None \<and> (\<exists>r. HashTreeRoot L (att_Data L a) = Ret r))"

lemma Dedup_returns: "data_ok L \<Longrightarrow> \<exists>r. Dedup L ord a = Ret r"
proof -
  assume "data_ok L"
  then obtain g where "hash_groups L a [] = Ret g"
    using hash_groups_returns [of a L "[]"] unfolding data_ok_def by blast
  then show ?thesis by (simp add: Dedup_def)
qed

lemma selectAtts_returns:
  assumes "cover_laws L"
  shows "\<exists>r. selectAtts L sortSlice atts = Ret r"
proof (cases "length atts < 2")
  case True
  then show ?thesis by (simp add: selectAtts_def)
next
  case False
  show ?thesis
  proof (cases "those (map (\<lambda>att. bits_ToBitlist64 L (att_AggregationBits L att)) atts)")
    case None
    with False show ?thesis by (simp add: selectAtts_def)
  next
    case (Some cs)
    have "\<exists>xs ys. pick_atts atts (keys_Count L k) (keys_BitIndices L k) = Ret xs \<and>
        pick_atts atts (keys_Count L (keys_Not L k)) (keys_BitIndices L (keys_Not L k)) = Ret ys"
      if k: "MaxCover L cs (length cs) True = Some k" for k
    proof -
      have "mset (keys_BitIndices L k @ keys_BitIndices L (keys_Not L k)) = mset [0..<length atts]"
        using k assms those_length [OF Some] by (simp add: cover_laws_def)
      from mset_eq_setD [OF this] have "\<forall>i \<in> set (keys_BitIndices L k) \<union> set (keys_BitIndices L (keys_Not L k)). i < length atts"
        by auto
      moreover have "keys_Count L i = length (keys_BitIndices L i)" for i
        using assms by (simp add: cover_laws_def)
      ultimately show ?thesis by (auto simp: pick_atts_def list_ex_iff not_le)
    qed
    with False Some show ?thesis by (auto simp: selectAtts_def obind_Ret_iff split: option.split)
  qed
qed

lemma collect_slots_returns:
  assumes "cover_laws L"
  shows "\<exists>r. collect_slots L sortSlice m slots acc = Ret r"
proof (induction slots arbitrary: acc)
  case (Cons slot slots)
  obtain r where "selectAtts L sortSlice (case map_of m slot of None \<Rightarrow> [] | Some as \<Rightarrow> as) = Ret r"
    using selectAtts_returns [OF assms] by blast
  with Cons show ?case by (auto split: option.split)
qed simp

lemma SortByProfitability_returns:
  assumes "cover_laws L" and "data_ok L"
  shows "\<exists>r. SortByProfitability L sortSlice a = Ret r"
proof -
  obtain slots m where "slot_groups L a [] [] = Ret (slots, m)"
    using slot_groups_returns [of a L "[]" "[]"] assms(2) by (force simp: data_ok_def)
  with collect_slots_returns [OF assms(1)] show ?thesis
    by (auto simp: SortByProfitability_def SortByProfitabilityUsingMaxCover_def)
qed

end
