(* ===== verification/Block_Api.thy ===== *)
theory Block_Api
  imports Backend Go_Base64 Proposer_Atts
begin

text \<open>
  \<^verbatim>\<open>src/server/apis/block.go\<close>: the block service. Its state is the backend's state, the
  LRU cache of delays, and two ghosts: the sleeps taken (nanoseconds, in order) and the number
  of map iterations so far. \<open>api_lib\<close> holds what the handlers call of Prysm, protobuf and the
  LRU package. The five handlers that ask "is this the last attacking proposer" do it in two
  ways, \<open>proposing_turn\<close> and \<open>receiving_turn\<close>.
\<close>

text \<open>The oneof of a generic (signed) block; only the Capella case carries data here.\<close>

datatype 'cap block_kind =
    BlockNil
  | BlockPhase0
  | BlockAltair
  | BlockBellatrix
  | BlockBlindedBellatrix
  | BlockCapella 'cap
  | BlockBlindedCapella
  | BlockDeneb
  | BlockBlindedDeneb
  | BlockOther

datatype block_error = ErrNilObject | ErrUnsupportedBeaconBlock | ErrBase64 | ErrProto

record ('att, 'data, 'root, 'bits, 'b64, 'keys, 'gsb, 'cap, 'gb, 'ucap, 'c) api_lib =
  lib_att :: "('att, 'data, 'root, 'bits, 'b64, 'keys) att_lib"
  lib_sortSlice :: "'att list \<Rightarrow> 'att list"
  lib_Aggregate :: "'att list \<Rightarrow> 'att list option"
  lib_MaxAttestations :: u64
  lib_unmarshalSigned :: "string \<Rightarrow> 'gsb option"
  lib_marshalSigned :: "'gsb \<Rightarrow> string option"
  lib_signedBlock :: "'gsb \<Rightarrow> 'cap block_kind"
  lib_setSignedCapella :: "'cap \<Rightarrow> 'gsb \<Rightarrow> 'gsb"
  lib_capAttestations :: "'cap \<Rightarrow> 'att list outcome"
  lib_setCapAttestations :: "'att list \<Rightarrow> 'cap \<Rightarrow> 'cap"
  lib_unmarshalGeneric :: "string \<Rightarrow> 'gb option"
  lib_marshalGeneric :: "'gb \<Rightarrow> string option"
  lib_genericBlock :: "'gb \<Rightarrow> 'ucap block_kind"
  lib_lruAdd :: "string \<Rightarrow> int \<Rightarrow> 'c \<Rightarrow> 'c"
  lib_lruGet :: "string \<Rightarrow> 'c \<Rightarrow> int option \<times> 'c"
  lib_order :: "nat \<Rightarrow> nat \<Rightarrow> nat list"

record ('s, 'c) block_world =
  bw_srv :: 's
  bw_cache :: 'c
  bw_sleeps :: "int list"
  bw_ticks :: nat

definition on_srv :: "('s, 'a) gom \<Rightarrow> (('s, 'c) block_world, 'a) gom" where
  "on_srv m w = (let (r, s) = m (bw_srv w) in (r, w\<lparr>bw_srv := s\<rparr>))"

definition Sleep :: "int \<Rightarrow> (('s, 'c) block_world, unit) gom" where
  "Sleep d = gmodify (bw_sleeps_update (\<lambda>ds. ds @ [d]))"

section \<open>Settings\<close>

definition Block_GetStrategy :: "('s, 'att, 'blk) backend \<Rightarrow> string \<Rightarrow> ('s, json) gom" where
  "Block_GetStrategy B cliInfo = gbind (b_GetStrategy B) (\<lambda>st. gret (BlockStrategy_json (st_Block st)))"

definition Block_UpdateStrategy :: "('s, 'att, 'blk) backend \<Rightarrow> json option \<Rightarrow> ('s, bool) gom" where
  "Block_UpdateStrategy B data =
     (let (blockStrategy, err) = Unmarshal (dec_struct BlockStrategy_fields) data zeroBlockStrategy
      in if err then gret True
         else gbind (b_SetBlock B blockStrategy) (\<lambda>_. gret False))"

definition BroadCastDelay :: "('s, 'att, 'blk) backend \<Rightarrow> (('s, 'c) block_world, AttackerResponse) gom" where
  "BroadCastDelay B =
     gbind (on_srv (b_GetStrategy B)) (\<lambda>st.
     if \<not> bst_DelayEnable (st_Block st) then gret (respond CMD_NULL [])
     else gbind (on_srv (b_GetStrategy B)) (\<lambda>st.
          gbind (Sleep (i64 (1000000 * bst_BroadCastDelay (st_Block st)))) (\<lambda>_.
          gret (respond CMD_NULL []))))"

section \<open>Whose turn it is\<close>

text \<open>
  A handler lets everything pass for a \<open>Bystander\<close>, withholds the block of an attacker that
  is \<open>NotLast\<close>, and acts for the last attacker of the epoch.
\<close>

datatype turn = Bystander | NotLast | LastAttacker int

definition proposer_index :: "('s, 'att, 'blk) backend \<Rightarrow> u64 \<Rightarrow> string \<Rightarrow> ('s, int option) gom" where
  "proposer_index B slot pubkey =
     gbind (b_GetValidatorByProposeSlot B slot) (\<lambda>r.
     case r of
       Inr valIdx \<Rightarrow> gret (Some valIdx)
     | Inl _ \<Rightarrow>
         gbind (b_GetValidatorDataSet B) (\<lambda>vs.
         gret (map_option val_Index (GetValidatorByPubkey vs pubkey))))"

definition latest_step ::
  "('s, 'att, 'blk) backend \<Rightarrow> int \<Rightarrow> ProposerDuty \<Rightarrow> int \<Rightarrow> ('s, int) gom" where
  "latest_step B slot duty latest =
     (let dutySlot = fst (ParseInt (pd_Slot duty));
          dutyValIdx = fst (Atoi (pd_ValidatorIndex duty))
      in gbind (b_GetValidatorRole B slot dutyValIdx) (\<lambda>role.
           gret (if role = AttackerRole \<and> dutySlot > latest then dutySlot else latest)))"

text \<open>The turn of a proposer, with the epoch when it is the last attacker.\<close>

definition proposing_turn :: "('s, 'att, 'blk) backend \<Rightarrow> u64 \<Rightarrow> string \<Rightarrow> ('s, turn) gom" where
  "proposing_turn B slot pubkey =
     gbind (proposer_index B slot pubkey) (\<lambda>p.
     case p of
       None \<Rightarrow> gret Bystander
     | Some valIdx \<Rightarrow>
         gbind (b_GetValidatorRole B (int_of_u64 slot) valIdx) (\<lambda>role.
         if role \<noteq> AttackerRole then gret Bystander
         else
           gbind (SlotToEpoch (b_SlotsPerEpoch B) (int_of_u64 slot)) (\<lambda>epoch.
           gbind (b_GetProposeDuties B epoch) (\<lambda>r.
           case r of
             Inl _ \<Rightarrow> gret Bystander
           | Inr duties \<Rightarrow>
               gbind (gfold (latest_step B (int_of_u64 slot)) duties (-1)) (\<lambda>latest.
               gret (if slot \<noteq> u64_of_int latest then NotLast else LastAttacker epoch))))))"

definition latest_val_step ::
  "('s, 'att, 'blk) backend \<Rightarrow> ProposerDuty \<Rightarrow> int \<Rightarrow> ('s, int) gom" where
  "latest_val_step B duty latest =
     (let dutySlot = fst (Atoi (pd_Slot duty));
          dutyValIdx = fst (Atoi (pd_ValidatorIndex duty))
      in gbind (b_GetValidatorRole B dutySlot dutyValIdx) (\<lambda>role.
           gret (if role = AttackerRole then dutyValIdx else latest)))"

text \<open>The turn of the proposer of a block received or sent, with its index when it is last.\<close>

definition receiving_turn :: "('s, 'att, 'blk) backend \<Rightarrow> u64 \<Rightarrow> ('s, turn) gom" where
  "receiving_turn B slot =
     gbind (b_GetValidatorByProposeSlot B slot) (\<lambda>r.
     case r of
       Inl _ \<Rightarrow> gret Bystander
     | Inr valIdx \<Rightarrow>
         gbind (b_GetValidatorRole B (int_of_u64 slot) valIdx) (\<lambda>valRole.
         if valRole \<noteq> AttackerRole then gret Bystander
         else
           gbind (b_GetCurrentEpochProposeDuties B) (\<lambda>r.
           case r of
             Inl _ \<Rightarrow> gret Bystander
           | Inr duties \<Rightarrow>
               gbind (gfold (latest_val_step B) duties (-1)) (\<lambda>latestAttackerVal.
               gret (if valIdx \<noteq> latestAttackerVal then NotLast else LastAttacker valIdx)))))"

section \<open>Blocks in and out\<close>

fun getCapellaBlock :: "'cap block_kind \<Rightarrow> block_error + 'cap" where
  "getCapellaBlock BlockNil = Inl ErrNilObject"
| "getCapellaBlock (BlockCapella b) = Inr b"
| "getCapellaBlock _ = Inl ErrUnsupportedBeaconBlock"

definition getCapellaBlockFromGenericSigned ::
  "('att, 'data, 'root, 'bits, 'b64, 'keys, 'gsb, 'cap, 'gb, 'ucap, 'c) api_lib \<Rightarrow> 'gsb \<Rightarrow>
     block_error + 'cap" where
  "getCapellaBlockFromGenericSigned L block = getCapellaBlock (lib_signedBlock L block)"

definition getCapellaBlockFromGeneric ::
  "('att, 'data, 'root, 'bits, 'b64, 'keys, 'gsb, 'cap, 'gb, 'ucap, 'c) api_lib \<Rightarrow> 'gb \<Rightarrow>
     block_error + 'ucap" where
  "getCapellaBlockFromGeneric L block = getCapellaBlock (lib_genericBlock L block)"

definition block_from_base64 :: "(string \<Rightarrow> 'b option) \<Rightarrow> string \<Rightarrow> block_error + 'b" where
  "block_from_base64 unmarshal s =
     (case DecodeString s of
        None \<Rightarrow> Inl ErrBase64
      | Some d \<Rightarrow> (case unmarshal d of None \<Rightarrow> Inl ErrProto | Some b \<Rightarrow> Inr b))"

definition getGenericBlockFromData ::
  "('att, 'data, 'root, 'bits, 'b64, 'keys, 'gsb, 'cap, 'gb, 'ucap, 'c) api_lib \<Rightarrow> string \<Rightarrow>
     block_error + 'gb" where
  "getGenericBlockFromData L s = block_from_base64 (lib_unmarshalGeneric L) s"

definition getGenericSignedBlockFromData ::
  "('att, 'data, 'root, 'bits, 'b64, 'keys, 'gsb, 'cap, 'gb, 'ucap, 'c) api_lib \<Rightarrow> string \<Rightarrow>
     block_error + 'gsb" where
  "getGenericSignedBlockFromData L s = block_from_base64 (lib_unmarshalSigned L) s"

definition block_to_base64 :: "('b \<Rightarrow> string option) \<Rightarrow> 'b \<Rightarrow> block_error + string" where
  "block_to_base64 marshal b =
     (case marshal b of None \<Rightarrow> Inl ErrProto | Some d \<Rightarrow> Inr (EncodeToString d))"

definition genericBlockToBase64 ::
  "('att, 'data, 'root, 'bits, 'b64, 'keys, 'gsb, 'cap, 'gb, 'ucap, 'c) api_lib \<Rightarrow> 'gb \<Rightarrow>
     block_error + string" where
  "genericBlockToBase64 L b = block_to_base64 (lib_marshalGeneric L) b"

definition genericSignedBlockToBase64 ::
  "('att, 'data, 'root, 'bits, 'b64, 'keys, 'gsb, 'cap, 'gb, 'ucap, 'c) api_lib \<Rightarrow> 'gsb \<Rightarrow>
     block_error + string" where
  "genericSignedBlockToBase64 L b = block_to_base64 (lib_marshalSigned L) b"

section \<open>Changing a block\<close>

definition range_tick ::
  "('att, 'data, 'root, 'bits, 'b64, 'keys, 'gsb, 'cap, 'gb, 'ucap, 'c) api_lib \<Rightarrow> 'x list \<Rightarrow> (('s, 'c) block_world, 'x list) gom" where
  "range_tick L m =
     gbind (gread bw_ticks) (\<lambda>n.
     gbind (gmodify (bw_ticks_update Suc)) (\<lambda>_. gret (visit (lib_order L n) m)))"

text \<open>\<^verbatim>\<open>val.Index\<close> is read before \<^verbatim>\<open>val\<close> is compared with nil.\<close>

definition attest_entry_step ::
  "('s, 'att, 'blk) backend \<Rightarrow> int \<Rightarrow> string \<times> 'att \<Rightarrow> 'att list \<Rightarrow> (('s, 'c) block_world, 'att list) gom" where
  "attest_entry_step B i e attackerAttestations =
     (let (publicKey, att) = e
      in gbind (on_srv (b_GetValidatorDataSet B)) (\<lambda>validatorSet.
         case GetValidatorByPubkey validatorSet publicKey of
           None \<Rightarrow> glift (Panic NilDereference)
         | Some val \<Rightarrow>
             gbind (on_srv (b_GetValidatorRole B i (val_Index val))) (\<lambda>valRole.
             gret (if valRole = AttackerRole then attackerAttestations @ [att] else attackerAttestations))))"

definition slot_step ::
  "('att, 'data, 'root, 'bits, 'b64, 'keys, 'gsb, 'cap, 'gb, 'ucap, 'c) api_lib \<Rightarrow> ('s, 'att, 'blk) backend \<Rightarrow>
     int \<Rightarrow> 'att list \<Rightarrow> (('s, 'c) block_world, 'att list) gom" where
  "slot_step L B i attackerAttestations =
     gbind (on_srv (b_GetAttestSet B (u64_of_int i))) (\<lambda>allSlotAttest.
     case allSlotAttest of
       None \<Rightarrow> gret attackerAttestations
     | Some sa \<Rightarrow>
         gbind (range_tick L (Attestations sa)) (\<lambda>entries.
         gfold (attest_entry_step B i) entries attackerAttestations))"

text \<open>
  The loop \<^verbatim>\<open>for i := startEpoch; i <= endEpoch; i++\<close>. When \<open>endEpoch\<close> is the largest
  \<^verbatim>\<open>int\<close> its condition is always true: after the largest slot it starts over with the
  negative ones and never ends.
\<close>

definition attacker_attestations ::
  "('att, 'data, 'root, 'bits, 'b64, 'keys, 'gsb, 'cap, 'gb, 'ucap, 'c) api_lib \<Rightarrow> ('s, 'att, 'blk) backend \<Rightarrow>
     int \<Rightarrow> int \<Rightarrow> (('s, 'c) block_world, 'att list) gom" where
  "attacker_attestations L B startEpoch endEpoch =
     gbind (gfold (slot_step L B) [startEpoch..endEpoch] []) (\<lambda>as.
     if endEpoch = max_i64 then glift Hang else gret as)"

fun root_groups ::
  "('att, 'data, 'root, 'bits, 'b64, 'keys) att_lib \<Rightarrow> 'att list \<Rightarrow> ('root \<times> 'att list) list \<Rightarrow>
     ('root \<times> 'att list) list outcome" where
  "root_groups L [] m = Ret m"
| "root_groups L (att # atts) m =
     obind (HashTreeRoot L (att_Data L att)) (\<lambda>(attDataRoot, _). root_groups L atts (bucket_add attDataRoot att m))"

definition aggregate_groups :: "('att list \<Rightarrow> 'att list option) \<Rightarrow> 'att list list \<Rightarrow> 'att list" where
  "aggregate_groups aggregate groups =
     fold (\<lambda>as attsForInclusion. case aggregate as of None \<Rightarrow> attsForInclusion | Some as' \<Rightarrow> attsForInclusion @ as')
       groups []"

text \<open>The errors of both calls of \<^verbatim>\<open>Dedup\<close> are dropped, and with them its nil result is used.\<close>

definition nil_slice :: "'a list option \<Rightarrow> 'a list" where
  "nil_slice r = (case r of None \<Rightarrow> [] | Some xs \<Rightarrow> xs)"

definition range_order ::
  "('att, 'data, 'root, 'bits, 'b64, 'keys, 'gsb, 'cap, 'gb, 'ucap, 'c) api_lib \<Rightarrow> (('s, 'c) block_world, nat \<Rightarrow> nat list) gom" where
  "range_order L =
     gbind (gread bw_ticks) (\<lambda>n. gbind (gmodify (bw_ticks_update Suc)) (\<lambda>_. gret (lib_order L n)))"

definition pack_attestations ::
  "('att, 'data, 'root, 'bits, 'b64, 'keys, 'gsb, 'cap, 'gb, 'ucap, 'c) api_lib \<Rightarrow> 'att list \<Rightarrow> (('s, 'c) block_world, 'att list) gom" where
  "pack_attestations L allAtt =
     gbind (range_order L) (\<lambda>ord1.
     gbind (glift (Dedup (lib_att L) ord1 allAtt)) (\<lambda>r1.
     let atts = nil_slice r1 in
     gbind (glift (root_groups (lib_att L) atts [])) (\<lambda>attsByDataRoot.
     gbind (range_tick L (map snd attsByDataRoot)) (\<lambda>groups.
     let attsForInclusion = aggregate_groups (lib_Aggregate L) groups in
     gbind (range_order L) (\<lambda>ord2.
     gbind (glift (Dedup (lib_att L) ord2 attsForInclusion)) (\<lambda>r2.
     gbind (glift (SortByProfitability (lib_att L) (lib_sortSlice L) (nil_slice r2))) (\<lambda>r3.
     gret (case r3 of
             None \<Rightarrow> atts
           | Some sortedAtts \<Rightarrow> LimitToMaxAttestations (lib_MaxAttestations L) sortedAtts))))))))"

definition rebuild_block ::
  "('att, 'data, 'root, 'bits, 'b64, 'keys, 'gsb, 'cap, 'gb, 'ucap, 'c) api_lib \<Rightarrow> ('s, 'att, 'blk) backend \<Rightarrow> int \<Rightarrow> 'gsb \<Rightarrow> 'cap \<Rightarrow>
     (('s, 'c) block_world, 'gsb) gom" where
  "rebuild_block L B epoch genericBlock block =
     gbind (on_srv (EpochStart (b_SlotsPerEpoch B) epoch)) (\<lambda>startEpoch.
     gbind (on_srv (EpochEnd (b_SlotsPerEpoch B) epoch)) (\<lambda>endEpoch.
     gbind (attacker_attestations L B startEpoch endEpoch) (\<lambda>attackerAttestations.
     gbind (glift (lib_capAttestations L block)) (\<lambda>blockAtts.
     gbind (pack_attestations L (blockAtts @ attackerAttestations)) (\<lambda>allAtt.
     gret (lib_setSignedCapella L (lib_setCapAttestations L allAtt block) genericBlock))))))"

definition modifyBlock ::
  "('att, 'data, 'root, 'bits, 'b64, 'keys, 'gsb, 'cap, 'gb, 'ucap, 'c) api_lib \<Rightarrow> ('s, 'att, 'blk) backend \<Rightarrow> u64 \<Rightarrow> string \<Rightarrow>
     string \<Rightarrow> (('s, 'c) block_world, AttackerResponse) gom" where
  "modifyBlock L B slot pubkey blockDataBase64 =
     (let same = gret (respond CMD_NULL blockDataBase64)
      in gbind (on_srv (proposing_turn B slot pubkey)) (\<lambda>turn.
         case turn of
           Bystander \<Rightarrow> same
         | NotLast \<Rightarrow> gret (respond CMD_RETURN blockDataBase64)
         | LastAttacker epoch \<Rightarrow>
             (case getGenericSignedBlockFromData L blockDataBase64 of
                Inl _ \<Rightarrow> same
              | Inr genericBlock \<Rightarrow>
                  (case getCapellaBlockFromGenericSigned L genericBlock of
                     Inl _ \<Rightarrow> same
                   | Inr block \<Rightarrow>
                       gbind (rebuild_block L B epoch genericBlock block) (\<lambda>newBlock.
                       case genericSignedBlockToBase64 L newBlock of
                         Inl _ \<Rightarrow> same
                       | Inr resBlockBase64 \<Rightarrow> gret (respond CMD_NULL resBlockBase64))))))"

section \<open>The handlers\<close>

definition delay_key :: "u64 \<Rightarrow> int \<Rightarrow> string" where
  "delay_key slot valIdx = ''delay_'' @ format_nat (unat slot) @ ''_'' @ FormatInt valIdx"

definition cache_add :: "('att, 'data, 'root, 'bits, 'b64, 'keys, 'gsb, 'cap, 'gb, 'ucap, 'c) api_lib \<Rightarrow> string \<Rightarrow> int \<Rightarrow> (('s, 'c) block_world, unit) gom" where
  "cache_add L key v = gmodify (bw_cache_update (lib_lruAdd L key v))"

definition cache_get :: "('att, 'data, 'root, 'bits, 'b64, 'keys, 'gsb, 'cap, 'gb, 'ucap, 'c) api_lib \<Rightarrow> string \<Rightarrow> (('s, 'c) block_world, int option) gom" where
  "cache_get L key w = (let (r, c) = lib_lruGet L key (bw_cache w) in (Ret r, w\<lparr>bw_cache := c\<rparr>))"

definition DelayForReceiveBlock ::
  "('att, 'data, 'root, 'bits, 'b64, 'keys, 'gsb, 'cap, 'gb, 'ucap, 'c) api_lib \<Rightarrow> ('s, 'att, 'blk) backend \<Rightarrow> u64 \<Rightarrow> (('s, 'c) block_world, AttackerResponse) gom" where
  "DelayForReceiveBlock L B slot =
     gbind (on_srv (receiving_turn B slot)) (\<lambda>turn.
     case turn of
       Bystander \<Rightarrow> gret (respond CMD_NULL [])
     | NotLast \<Rightarrow> gret (respond CMD_RETURN [])
     | LastAttacker valIdx \<Rightarrow>
         gbind (on_srv (b_GetSlotsPerEpoch B)) (\<lambda>epochSlots.
         gbind (on_srv (b_GetIntervalPerSlot B)) (\<lambda>seconds.
         gbind (glift (u64_rem slot (u64_of_int epochSlots))) (\<lambda>r.
         let delay = i64 (i64 (epochSlots - int_of_u64 r) * seconds) in
         gbind (Sleep (i64 (1000000000 * delay))) (\<lambda>_.
         gbind (cache_add L (delay_key slot valIdx) delay) (\<lambda>_.
         gret (respond CMD_UPDATE_STATE [])))))))"

definition Block_BeforeBroadCast ::
  "('att, 'data, 'root, 'bits, 'b64, 'keys, 'gsb, 'cap, 'gb, 'ucap, 'c) api_lib \<Rightarrow> ('s, 'att, 'blk) backend \<Rightarrow> u64 \<Rightarrow> (('s, 'c) block_world, AttackerResponse) gom" where
  "Block_BeforeBroadCast L B slot =
     gbind (on_srv (receiving_turn B slot)) (\<lambda>turn.
     case turn of
       Bystander \<Rightarrow> gret (respond CMD_NULL [])
     | NotLast \<Rightarrow> gret (respond CMD_RETURN [])
     | LastAttacker valIdx \<Rightarrow>
         gbind (cache_get L (delay_key slot valIdx)) (\<lambda>t.
         let lastDelay = (case t of None \<Rightarrow> 0 | Some d \<Rightarrow> d) in
         gbind (on_srv (b_GetIntervalPerSlot B)) (\<lambda>seconds.
         let total = i64 (i64 (12 * seconds) + lastDelay) in
         gbind (Sleep (i64 (1000000000 * total))) (\<lambda>_.
         gret (respond CMD_NULL [])))))"

definition Block_AfterBroadCast :: "u64 \<Rightarrow> (('s, 'c) block_world, AttackerResponse) gom" where
  "Block_AfterBroadCast slot = gret (respond CMD_NULL [])"

definition BeforeMakeBlock ::
  "('s, 'att, 'blk) backend \<Rightarrow> u64 \<Rightarrow> string \<Rightarrow> (('s, 'c) block_world, AttackerResponse) gom" where
  "BeforeMakeBlock B slot pubkey =
     gbind (on_srv (proposing_turn B slot pubkey)) (\<lambda>turn.
     case turn of
       Bystander \<Rightarrow> gret (respond CMD_NULL [])
     | NotLast \<Rightarrow> gret (respond CMD_RETURN [])
     | LastAttacker _ \<Rightarrow> gret (respond CMD_NULL []))"

definition Block_BeforeSign ::
  "('att, 'data, 'root, 'bits, 'b64, 'keys, 'gsb, 'cap, 'gb, 'ucap, 'c) api_lib \<Rightarrow> ('s, 'att, 'blk) backend \<Rightarrow> u64 \<Rightarrow> string \<Rightarrow>
     string \<Rightarrow> (('s, 'c) block_world, AttackerResponse) gom" where
  "Block_BeforeSign L B slot pubkey blockDataBase64 = modifyBlock L B slot pubkey blockDataBase64"

definition Block_AfterSign ::
  "('s, 'att, 'blk) backend \<Rightarrow> u64 \<Rightarrow> string \<Rightarrow> string \<Rightarrow> (('s, 'c) block_world, AttackerResponse) gom" where
  "Block_AfterSign B slot pubkey signedBlockDataBase64 =
     gbind (on_srv (proposing_turn B slot pubkey)) (\<lambda>turn.
     case turn of
       Bystander \<Rightarrow> gret (respond CMD_NULL [])
     | NotLast \<Rightarrow> gret (respond CMD_RETURN [])
     | LastAttacker _ \<Rightarrow> gret (respond CMD_NULL signedBlockDataBase64))"

definition Block_BeforePropose :: "u64 \<Rightarrow> string \<Rightarrow> string \<Rightarrow> (('s, 'c) block_world, AttackerResponse) gom" where
  "Block_BeforePropose slot pubkey signedBlockDataBase64 = gret (respond CMD_NULL signedBlockDataBase64)"

definition Block_AfterPropose :: "u64 \<Rightarrow> string \<Rightarrow> string \<Rightarrow> (('s, 'c) block_world, AttackerResponse) gom" where
  "Block_AfterPropose slot pubkey signedBlockDataBase64 = gret (respond CMD_NULL signedBlockDataBase64)"

section \<open>Frames\<close>

text \<open>
  The handlers only read the backend: a part of its state that the reading operations keep
  survives every handler, even one that panics.
\<close>

lemma on_srv_run: "m (bw_srv w) = (r, s) \<Longrightarrow> on_srv m w = (r, w\<lparr>bw_srv := s\<rparr>)"
  by (simp add: on_srv_def)

lemma keeps_on_srv [go_frame]: "keeps h m \<Longrightarrow> keeps (\<lambda>w. h (bw_srv w)) (on_srv m)"
  by (simp add: keeps_def on_srv_def split: prod.split) (metis snd_conv)

lemma keeps_world [go_frame]:
  "keeps (\<lambda>w. h (bw_srv w)) (Sleep d)" "keeps (\<lambda>w. h (bw_srv w)) (range_tick L m)"
  "keeps (\<lambda>w. h (bw_srv w)) (range_order L)" "keeps (\<lambda>w. h (bw_srv w)) (cache_add L k v)"
  "keeps (\<lambda>w. h (bw_srv w)) (cache_get L k)"
  by (auto simp: Sleep_def range_tick_def range_order_def cache_add_def cache_get_def keeps_def gbind_def
      gret_run split: prod.split)

lemma keeps_case_turn [go_frame]:
  "keeps h m \<Longrightarrow> keeps h n \<Longrightarrow> (\<And>i. keeps h (f i)) \<Longrightarrow>
   keeps h (case x of Bystander \<Rightarrow> m | NotLast \<Rightarrow> n | LastAttacker i \<Rightarrow> f i)"
  by (cases x) simp_all

lemma keeps_proposing_turn [go_frame]:
  assumes "backend_frame B h"
  shows "keeps h (proposing_turn B slot p)"
  unfolding proposing_turn_def proposer_index_def latest_step_def Let_def
  by (intro go_frame assms)

lemma keeps_receiving_turn [go_frame]:
  assumes "backend_frame B h"
  shows "keeps h (receiving_turn B slot)"
  unfolding receiving_turn_def latest_val_step_def Let_def by (intro go_frame assms)

lemma keeps_attacker_attestations [go_frame]:
  assumes "backend_frame B h"
  shows "keeps (\<lambda>w. h (bw_srv w)) (attacker_attestations L B i j)"
  unfolding attacker_attestations_def slot_step_def attest_entry_step_def Let_def
  by (intro go_frame assms)

lemma keeps_pack_attestations [go_frame]: "keeps (\<lambda>w. h (bw_srv w)) (pack_attestations L as)"
  unfolding pack_attestations_def Let_def by (intro go_frame)

lemma keeps_modifyBlock [go_frame]:
  assumes "backend_frame B h"
  shows "keeps (\<lambda>w. h (bw_srv w)) (modifyBlock L B slot p data)"
  unfolding modifyBlock_def rebuild_block_def Let_def by (intro go_frame assms)

lemma keeps_block_handlers:
  assumes "backend_frame B h"
  shows "keeps (\<lambda>w. h (bw_srv w)) (BroadCastDelay B)"
    and "keeps (\<lambda>w. h (bw_srv w)) (DelayForReceiveBlock L B slot)"
    and "keeps (\<lambda>w. h (bw_srv w)) (Block_BeforeBroadCast L B slot)"
    and "keeps (\<lambda>w. h (bw_srv w)) (BeforeMakeBlock B slot p)"
    and "keeps (\<lambda>w. h (bw_srv w)) (Block_BeforeSign L B slot p data)"
    and "keeps (\<lambda>w. h (bw_srv w)) (Block_AfterSign B slot p data)"
  unfolding BroadCastDelay_def DelayForReceiveBlock_def Block_BeforeBroadCast_def BeforeMakeBlock_def
    Block_BeforeSign_def Block_AfterSign_def Let_def
  by (intro go_frame assms)+

section \<open>The last attacking proposer\<close>

text \<open>The abstract answer: the largest slot of a duty whose validator attacks, or -1.\<close>

definition attacker_duty_slots :: "Strategy \<Rightarrow> int \<Rightarrow> ProposerDuty list \<Rightarrow> int set" where
  "attacker_duty_slots st slot duties =
     (\<lambda>d. fst (ParseInt (pd_Slot d))) `
       {d \<in> set duties. Strategy_GetValidatorRole st (fst (Atoi (pd_ValidatorIndex d))) slot = AttackerRole}"

definition latest_attacker_slot :: "Strategy \<Rightarrow> int \<Rightarrow> ProposerDuty list \<Rightarrow> int" where
  "latest_attacker_slot st slot duties = Max (insert (-1) (attacker_duty_slots st slot duties))"

lemma attacker_duty_slots_filter:
  "attacker_duty_slots st slot duties = set (map (\<lambda>d. fst (ParseInt (pd_Slot d)))
     (filter (\<lambda>d. Strategy_GetValidatorRole st (fst (Atoi (pd_ValidatorIndex d))) slot = AttackerRole) duties))"
  by (auto simp: attacker_duty_slots_def)

lemma finite_attacker_duty_slots [simp]: "finite (attacker_duty_slots st slot duties)"
  by (simp add: attacker_duty_slots_def)

lemma attacker_duty_slots_snoc:
  "attacker_duty_slots st slot (duties @ [d]) =
     (if Strategy_GetValidatorRole st (fst (Atoi (pd_ValidatorIndex d))) slot = AttackerRole
      then insert (fst (ParseInt (pd_Slot d))) (attacker_duty_slots st slot duties)
      else attacker_duty_slots st slot duties)"
  by (auto simp: attacker_duty_slots_def)

lemma latest_attacker_slot_snoc:
  "latest_attacker_slot st slot (duties @ [d]) =
     (if Strategy_GetValidatorRole st (fst (Atoi (pd_ValidatorIndex d))) slot = AttackerRole \<and>
         fst (ParseInt (pd_Slot d)) > latest_attacker_slot st slot duties
      then fst (ParseInt (pd_Slot d)) else latest_attacker_slot st slot duties)"
proof -
  let ?A = "insert (-1) (attacker_duty_slots st slot duties)"
  have "Max (insert x ?A) = (if x > Max ?A then x else Max ?A)" for x
    by (subst Max_insert) (simp_all add: max_def del: Max_less_iff)
  then show ?thesis
    by (simp add: latest_attacker_slot_def attacker_duty_slots_snoc insert_commute [of "- 1"] del: Max_insert Max_less_iff)
qed

lemma latest_attacker_slot_i64: "is_i64 (latest_attacker_slot st slot duties)"
proof -
  have "latest_attacker_slot st slot duties \<in> insert (-1) (attacker_duty_slots st slot duties)"
    unfolding latest_attacker_slot_def by (rule Max_in) simp_all
  then show ?thesis using ParseInt_i64 by (auto simp: attacker_duty_slots_def is_i64_def)
qed

context backend_laws
begin

lemma latest_step_run:
  "0 \<le> slot \<Longrightarrow> latest_step B slot d acc s =
     (Ret (if Strategy_GetValidatorRole (strat s) (fst (Atoi (pd_ValidatorIndex d))) slot = AttackerRole \<and>
              fst (ParseInt (pd_Slot d)) > acc
           then fst (ParseInt (pd_Slot d)) else acc), s)"
  by (simp add: latest_step_def Let_def gbind_def role_law gret_run)

lemma latest_loop:
  assumes "0 \<le> slot"
  shows "gfold (latest_step B slot) duties (-1) s = (Ret (latest_attacker_slot (strat s) slot duties), s)"
proof (induction duties rule: rev_induct)
  case Nil
  show ?case by (simp add: gret_run latest_attacker_slot_def attacker_duty_slots_def)
next
  case (snoc d duties)
  then show ?case
    using assms by (simp add: gfold_append gbind_def latest_step_run latest_attacker_slot_snoc gret_run)
qed

text \<open>A proposer known to the beacon node that attacks in the slot.\<close>

lemma proposing_turn_run:
  assumes slot: "uint slot < 2 ^ 63"
    and who: "b_GetValidatorByProposeSlot B slot s = (Ret (Inr v), s1)"
    and role: "Strategy_GetValidatorRole (strat s) v (uint slot) = AttackerRole"
    and len: "b_SlotsPerEpoch B s1 = (Ret n, s2)" "0 < n"
    and duties: "b_GetProposeDuties B (uint slot div n) s2 = (Ret (Inr duties), s3)"
  shows "proposing_turn B slot p s =
    (Ret (if uint slot = latest_attacker_slot (strat s) (uint slot) duties
          then LastAttacker (uint slot div n) else NotLast), s3)"
proof -
  have i: "int_of_u64 slot = uint slot" using small_slot [OF slot] by simp
  have strat: "strat s1 = strat s" "strat s2 = strat s" "strat s3 = strat s"
    using keeps_run [OF backend_frameD(11) [OF reads_keep(1)] who]
      keeps_run [OF backend_frameD(6) [OF reads_keep(1)] len(1)]
      keeps_run [OF backend_frameD(12) [OF reads_keep(1)] duties] by simp_all
  have "slot = u64_of_int x \<longleftrightarrow> uint slot = x" if "is_i64 x" for x
    using u64_of_int_eq_iff [OF that, of slot] by (simp add: i)
  then have last: "slot = u64_of_int (latest_attacker_slot st k ds) \<longleftrightarrow>
      uint slot = latest_attacker_slot st k ds" for st k ds
    using latest_attacker_slot_i64 by blast
  have "SlotToEpoch (b_SlotsPerEpoch B) (uint slot) s1 = (Ret (uint slot div n), s2)"
    using slot len by (simp add: SlotToEpoch_def gbind_def glift_run int_quot_pos)
  then show ?thesis
    using who role duties
    by (simp add: proposing_turn_def proposer_index_def gbind_def gret_run i role_law strat latest_loop last)
qed

text \<open>A validator that does not attack in the slot is let through.\<close>

lemma proposing_turn_normal:
  assumes slot: "uint slot < 2 ^ 63"
    and who: "b_GetValidatorByProposeSlot B slot s = (Ret (Inr v), s1)"
    and role: "Strategy_GetValidatorRole (strat s) v (uint slot) \<noteq> AttackerRole"
  shows "proposing_turn B slot p s = (Ret Bystander, s1)"
proof -
  have "strat s1 = strat s" by (rule keeps_run [OF backend_frameD(11) [OF reads_keep(1)] who])
  then show ?thesis
    using who role small_slot [OF slot]
    by (simp add: proposing_turn_def proposer_index_def gbind_def gret_run role_law)
qed

end

section \<open>Collecting the attackers' attestations\<close>

definition slot_entries :: "('att, 'blk) ValidatorDataSet \<Rightarrow> int \<Rightarrow> (string \<times> 'att) list" where
  "slot_entries vs i = (case GetAttestSet vs (u64_of_int i) of None \<Rightarrow> [] | Some sa \<Rightarrow> Attestations sa)"

text \<open>The attestations of one slot whose validators attack in it, and those of an epoch of \<open>n\<close> slots.\<close>

definition attacker_entries ::
  "Strategy \<Rightarrow> ('att, 'blk) ValidatorDataSet \<Rightarrow> int \<Rightarrow> (string \<times> 'att) list \<Rightarrow> 'att list" where
  "attacker_entries st vs i es = map snd (filter (\<lambda>(p, a). attacker_in st vs i p) es)"

definition epoch_attestations ::
  "Strategy \<Rightarrow> ('att, 'blk) ValidatorDataSet \<Rightarrow> int \<Rightarrow> int \<Rightarrow> 'att list" where
  "epoch_attestations st vs n epoch =
     concat (map (\<lambda>i. attacker_entries st vs i (slot_entries vs i)) [epoch * n..epoch * n + n - 1])"

lemma range_tick_run [go_monad]:
  "range_tick L m w = (Ret (visit (lib_order L (bw_ticks w)) m), w\<lparr>bw_ticks := Suc (bw_ticks w)\<rparr>)"
  by (simp add: range_tick_def gret_run)

lemma range_order_run [go_monad]:
  "range_order L w = (Ret (lib_order L (bw_ticks w)), w\<lparr>bw_ticks := Suc (bw_ticks w)\<rparr>)"
  by (simp add: range_order_def gret_run)

context backend_laws
begin

lemma attest_entry_step_run:
  assumes "0 \<le> i" and "GetValidatorByPubkey (vset (bw_srv w)) p \<noteq> None"
  shows "attest_entry_step B i (p, a) acc w =
    (Ret (acc @ attacker_entries (strat (bw_srv w)) (vset (bw_srv w)) i [(p, a)]), w)"
  using assms
  by (auto simp: attest_entry_step_def gbind_def on_srv_def GetValidatorDataSet_law role_law gret_run
      attacker_entries_def attacker_in_def)

lemma entries_loop:
  assumes "0 \<le> i" and "\<forall>e \<in> set es. GetValidatorByPubkey (vset (bw_srv w)) (fst e) \<noteq> None"
  shows "gfold (attest_entry_step B i) es acc w = (Ret (acc @ attacker_entries (strat (bw_srv w)) (vset (bw_srv w)) i es), w)"
  using assms(2)
proof (induction es arbitrary: acc)
  case (Cons e es)
  then have "attest_entry_step B i e acc w = (Ret (acc @ attacker_entries (strat (bw_srv w)) (vset (bw_srv w)) i [e]), w)"
    using attest_entry_step_run [OF assms(1), of w "fst e" "snd e"] by simp
  moreover have "attacker_entries (strat (bw_srv w)) (vset (bw_srv w)) i (e # es) =
      attacker_entries (strat (bw_srv w)) (vset (bw_srv w)) i [e] @ attacker_entries (strat (bw_srv w)) (vset (bw_srv w)) i es"
    by (simp add: attacker_entries_def)
  ultimately show ?case using Cons by (simp add: gbind_def)
qed (simp add: gret_run attacker_entries_def)

lemma slot_step_run:
  assumes "0 \<le> i" and "known_attesters (vset (bw_srv w))" and "\<And>n. is_order (lib_order L n)"
  shows "\<exists>as t. slot_step L B i acc w = (Ret (acc @ as), t) \<and> bw_srv t = bw_srv w \<and>
    mset as = mset (attacker_entries (strat (bw_srv w)) (vset (bw_srv w)) i (slot_entries (vset (bw_srv w)) i))"
proof (cases "GetAttestSet (vset (bw_srv w)) (u64_of_int i)")
  case None
  then show ?thesis
    by (simp add: slot_step_def gbind_def on_srv_def GetAttestSet_law gret_run slot_entries_def attacker_entries_def)
next
  case (Some sa)
  let ?w = "w\<lparr>bw_ticks := Suc (bw_ticks w)\<rparr>"
  let ?es = "visit (lib_order L (bw_ticks w)) (Attestations sa)"
  have m: "mset ?es = mset (Attestations sa)" by (rule mset_visit [OF assms(3)])
  have "gfold (attest_entry_step B i) ?es acc ?w = (Ret (acc @ attacker_entries (strat (bw_srv w)) (vset (bw_srv w)) i ?es), ?w)"
    using entries_loop [OF assms(1), of ?es ?w] assms(2) Some mset_eq_setD [OF m]
    by (force simp: known_attesters_def)
  moreover have "mset (attacker_entries (strat (bw_srv w)) (vset (bw_srv w)) i ?es) = mset (attacker_entries (strat (bw_srv w)) (vset (bw_srv w)) i (Attestations sa))"
    unfolding attacker_entries_def by (simp add: m)
  ultimately show ?thesis
    using Some by (simp add: slot_step_def gbind_def on_srv_def GetAttestSet_law range_tick_run slot_entries_def)
qed

lemma slots_loop:
  assumes "\<And>n. is_order (lib_order L n)" and "known_attesters (vset (bw_srv w))"
    and "\<And>i. i \<in> set is \<Longrightarrow> 0 \<le> i"
  shows "\<exists>as t. gfold (slot_step L B) is acc w = (Ret (acc @ as), t) \<and> bw_srv t = bw_srv w \<and>
    mset as = mset (concat (map (\<lambda>i. attacker_entries (strat (bw_srv w)) (vset (bw_srv w)) i (slot_entries (vset (bw_srv w)) i)) is))"
  using assms(2,3)
proof (induction "is" arbitrary: acc w)
  case Nil
  then show ?case by (simp add: gret_run)
next
  case (Cons i "is")
  obtain as t where t: "slot_step L B i acc w = (Ret (acc @ as), t)" "bw_srv t = bw_srv w"
    "mset as = mset (attacker_entries (strat (bw_srv w)) (vset (bw_srv w)) i (slot_entries (vset (bw_srv w)) i))"
    using slot_step_run [OF _ Cons.prems(1) assms(1), of i acc] Cons.prems(2) by auto
  obtain as' t' where "gfold (slot_step L B) is (acc @ as) t = (Ret ((acc @ as) @ as'), t')"
    "bw_srv t' = bw_srv t"
    "mset as' = mset (concat (map (\<lambda>i. attacker_entries (strat (bw_srv t)) (vset (bw_srv t)) i (slot_entries (vset (bw_srv t)) i)) is))"
    using Cons.IH [of t "acc @ as"] Cons.prems t(2) by auto
  with t show ?case by (simp add: gbind_def)
qed

lemma attacker_attestations_run:
  assumes "\<And>n. is_order (lib_order L n)" and "known_attesters (vset (bw_srv w))"
    and "0 \<le> i" and "j < max_i64"
  shows "\<exists>as t. attacker_attestations L B i j w = (Ret as, t) \<and> bw_srv t = bw_srv w \<and>
    mset as = mset (concat (map (\<lambda>k. attacker_entries (strat (bw_srv w)) (vset (bw_srv w)) k (slot_entries (vset (bw_srv w)) k))
      [i..j]))"
proof -
  obtain as t where "gfold (slot_step L B) [i..j] [] w = (Ret as, t)" "bw_srv t = bw_srv w"
    "mset as = mset (concat (map (\<lambda>k. attacker_entries (strat (bw_srv w)) (vset (bw_srv w)) k (slot_entries (vset (bw_srv w)) k))
      [i..j]))"
    using slots_loop [OF assms(1,2), of "[i..j]" "[]"] assms(3) by auto
  with assms(4) show ?thesis by (simp add: attacker_attestations_def gbind_def gret_run)
qed

end

section \<open>Packing\<close>

lemma pack_attestations_parts:
  assumes "pack_attestations L a w = (Ret r, t)"
  obtains n b r1 r2 r3 where "Dedup (lib_att L) (lib_order L (bw_ticks w)) a = Ret r1"
    and "Dedup (lib_att L) (lib_order L n) b = Ret r2"
    and "SortByProfitability (lib_att L) (lib_sortSlice L) (nil_slice r2) = Ret r3"
    and "r = (case r3 of None \<Rightarrow> nil_slice r1 | Some x \<Rightarrow> LimitToMaxAttestations (lib_MaxAttestations L) x)"
proof -
  from assms obtain r1 g r2 r3 where "Dedup (lib_att L) (lib_order L (bw_ticks w)) a = Ret r1"
    "Dedup (lib_att L) (lib_order L (Suc (Suc (bw_ticks w))))
       (aggregate_groups (lib_Aggregate L) (visit (lib_order L (Suc (bw_ticks w))) g)) = Ret r2"
    "SortByProfitability (lib_att L) (lib_sortSlice L) (nil_slice r2) = Ret r3"
    "r = (case r3 of None \<Rightarrow> nil_slice r1 | Some x \<Rightarrow> LimitToMaxAttestations (lib_MaxAttestations L) x)"
    by (fastforce simp: pack_attestations_def range_order_run range_tick_run glift_run gret_run Let_def
        elim!: gbind_RetE)
  then show thesis by (rule that)
qed

lemma nothing_to_pack [simp]:
  "aggregate_groups f [] = []" "Dedup A ord [] = Ret (Some [])"
  "SortByProfitability A sl [] = Ret (Some [])" "LimitToMaxAttestations m [] = []"
  by (simp_all add: aggregate_groups_def Dedup_def SortByProfitability_def LimitToMaxAttestations_def)

text \<open>
  What is packed is sorted by falling slot, holds no attestation that another one of the same
  data makes redundant, and is no longer than the limit.
\<close>

lemma pack_attestations_sound:
  assumes "pack_attestations L a w = (Ret r, t)" and ord: "\<And>n. is_order (lib_order L n)"
    and laws: "cover_laws (lib_att L)" "sort_laws (lib_att L) (lib_sortSlice L)" "bits_convert (lib_att L)"
  shows "sorted_wrt (\<lambda>x y. slot_of (lib_att L) x \<ge> slot_of (lib_att L) y) r" (is ?slots)
    and "sorted_wrt (\<lambda>x y. root_of (lib_att L) x = root_of (lib_att L) y \<longrightarrow>
           incomparable (atts_contain (lib_att L)) x y) r" (is ?antichain)
    and "length r < 2 ^ 64 \<Longrightarrow> length r \<le> unat (lib_MaxAttestations L)"
proof -
  let ?R = "\<lambda>x y. root_of (lib_att L) x = root_of (lib_att L) y \<longrightarrow> incomparable (atts_contain (lib_att L)) x y"
  from assms(1) obtain k b r2 r3 where d: "Dedup (lib_att L) (lib_order L k) b = Ret r2"
    and p: "SortByProfitability (lib_att L) (lib_sortSlice L) (nil_slice r2) = Ret r3"
    and r3: "\<And>x. r3 = Some x \<Longrightarrow> r = LimitToMaxAttestations (lib_MaxAttestations L) x"
    by (rule pack_attestations_parts) auto
  from SortByProfitability_no_error [OF laws(3)] p obtain x where x: "r3 = Some x"
    by (cases r3) auto
  from LimitToMaxAttestations_prefix r3 [OF x] obtain n where n: "r = take n x" by metis
  have s: "SortByProfitability (lib_att L) (lib_sortSlice L) (nil_slice r2) = Ret (Some x)"
    using p x by simp
  show ?slots unfolding n by (rule sorted_wrt_take [OF SortByProfitability_slots [OF s laws(1,2)]])
  have "sorted_wrt ?R (nil_slice r2)"
    using ord Dedup_sorted_wrt [of "lib_att L" "lib_order L k" b] d by (cases r2) (auto simp: nil_slice_def)
  then have "sorted_wrt ?R x"
    by (rule sorted_wrt_mset [rotated 2])
      (use SortByProfitability_mset [OF s laws(1,2)] in \<open>auto simp: incomparable_def\<close>)
  then show ?antichain unfolding n by (rule sorted_wrt_take)
  show "length r < 2 ^ 64 \<Longrightarrow> length r \<le> unat (lib_MaxAttestations L)"
    using r3 [OF x] LimitToMaxAttestations_length by metis
qed

text \<open>
  When the first \<^verbatim>\<open>Dedup\<close> reports an error nothing is packed: the attestations the block
  came with are gone.
\<close>

lemma pack_attestations_dropped:
  assumes "Dedup (lib_att L) (lib_order L (bw_ticks w)) a = Ret None"
    and "\<And>n. is_order (lib_order L n)"
  shows "\<exists>t. pack_attestations L a w = (Ret [], t)"
proof -
  have v: "visit (lib_order L n) [] = []" for n using mset_visit [OF assms(2), of n "[]"] by simp
  show ?thesis
    using assms(1)
    by (simp add: pack_attestations_def gbind_def range_order_run range_tick_run glift_run gret_run
        nil_slice_def v Let_def)
qed

text \<open>Packing returns, whatever the orders of the map iterations.\<close>

lemma root_groups_returns: "data_ok A \<Longrightarrow> \<exists>m'. root_groups A atts m = Ret m'"
proof (induction atts arbitrary: m)
  case (Cons att atts)
  from \<open>data_ok A\<close> obtain root err where "HashTreeRoot A (att_Data A att) = Ret (root, err)"
    by (force simp: data_ok_def)
  with Cons show ?case by simp
qed simp

lemma pack_attestations_returns:
  assumes "cover_laws (lib_att L)" and "data_ok (lib_att L)"
  shows "\<exists>r t. pack_attestations L a w = (Ret r, t)"
proof -
  obtain r1 where r1: "Dedup (lib_att L) (lib_order L (bw_ticks w)) a = Ret r1"
    using Dedup_returns [OF assms(2)] by blast
  obtain g where g: "root_groups (lib_att L) (nil_slice r1) [] = Ret g"
    using root_groups_returns [OF assms(2)] by blast
  obtain r2 where r2: "Dedup (lib_att L) (lib_order L (Suc (Suc (bw_ticks w))))
      (aggregate_groups (lib_Aggregate L) (visit (lib_order L (Suc (bw_ticks w))) (map snd g))) = Ret r2"
    using Dedup_returns [OF assms(2)] by blast
  obtain r3 where "SortByProfitability (lib_att L) (lib_sortSlice L) (nil_slice r2) = Ret r3"
    using SortByProfitability_returns [OF assms] by blast
  with r1 g r2 show ?thesis
    by (simp add: pack_attestations_def gbind_def range_order_run range_tick_run glift_run gret_run Let_def)
qed

section \<open>Blocks that are changed\<close>

lemma modifyBlock_last:
  assumes "proposing_turn B slot p (bw_srv w) = (Ret (LastAttacker epoch), s1)"
    and "getGenericSignedBlockFromData L data = Inr g" and "getCapellaBlockFromGenericSigned L g = Inr c"
    and "rebuild_block L B epoch g c (w\<lparr>bw_srv := s1\<rparr>) = (Ret g', t)"
    and "lib_marshalSigned L g' = Some d" and "lib_unmarshalSigned L d = Some g'"
  shows "modifyBlock L B slot p data w = (Ret (respond CMD_NULL (EncodeToString d)), t) \<and>
    getGenericSignedBlockFromData L (EncodeToString d) = Inr g'"
  using assms
  by (simp add: modifyBlock_def gbind_def on_srv_def gret_run genericSignedBlockToBase64_def block_to_base64_def
      getGenericSignedBlockFromData_def block_from_base64_def Let_def)

lemma modifyBlock_other:
  assumes "proposing_turn B slot p (bw_srv w) = (Ret turn, s1)" and "turn = Bystander \<or> turn = NotLast"
  shows "modifyBlock L B slot p data w =
    (Ret (respond (if turn = NotLast then CMD_RETURN else CMD_NULL) data), w\<lparr>bw_srv := s1\<rparr>)"
  using assms by (auto simp: modifyBlock_def gbind_def on_srv_def gret_run Let_def)

context backend_laws
begin

lemma rebuild_block_run:
  assumes "\<And>k. is_order (lib_order L k)" and "known_attesters (vset (bw_srv w))"
    and spe: "b_SlotsPerEpoch B (bw_srv w) = (Ret n, bw_srv w)" "0 < n"
    and slot: "0 \<le> slot" "slot + n < 2 ^ 63"
    and cap: "lib_capAttestations L c = Ret own"
  shows "\<exists>as t. mset as = mset (epoch_attestations (strat (bw_srv w)) (vset (bw_srv w)) n (slot div n)) \<and> bw_srv t = bw_srv w \<and>
    rebuild_block L B (slot div n) g c w =
      gbind (pack_attestations L (own @ as))
        (\<lambda>all. gret (lib_setSignedCapella L (lib_setCapAttestations L all c) g)) t"
proof -
  have clock: "slot_clock (b_SlotsPerEpoch B) n (\<lambda>s. s = bw_srv w)"
    by unfold_locales (use spe in auto)
  note fits = slot_clock.epoch_fits [OF clock slot spe(2)]
  have ends: "on_srv (EpochStart (b_SlotsPerEpoch B) (slot div n)) w = (Ret (slot div n * n), w)"
    "on_srv (EpochEnd (b_SlotsPerEpoch B) (slot div n)) w = (Ret (slot div n * n + n - 1), w)"
    using slot_clock.EpochStart_run [OF clock _ slot] slot_clock.EpochEnd_run [OF clock _ slot]
    by (simp_all add: on_srv_def distrib_right)
  have "0 \<le> slot div n * n" "slot div n * n + n - 1 < max_i64"
    using fits slot spe(2) by (simp_all add: max_i64_def)
  from attacker_attestations_run [where L = L and w = w, OF assms(1,2) this]
  obtain as t where "attacker_attestations L B (slot div n * n) (slot div n * n + n - 1) w = (Ret as, t)"
    "bw_srv t = bw_srv w" "mset as = mset (epoch_attestations (strat (bw_srv w)) (vset (bw_srv w)) n (slot div n))"
    unfolding epoch_attestations_def by blast
  with ends cap show ?thesis
    by (intro exI [of _ as] exI [of _ t]) (simp add: rebuild_block_def gbind_def glift_run)
qed

end

section \<open>Delays\<close>

text \<open>The seconds from the start of a slot to the end of its epoch.\<close>

definition rest_of_epoch :: "u64 \<Rightarrow> int \<Rightarrow> int \<Rightarrow> int" where
  "rest_of_epoch slot n seconds = (n - uint slot mod n) * seconds"

lemma u64_rem_pos:
  assumes "0 < n" and "n < 2 ^ 63"
  shows "\<exists>r. u64_rem slot (u64_of_int n) = Ret r \<and> int_of_u64 r = uint slot mod n"
proof -
  let ?n = "u64_of_int n"
  have un: "uint ?n = n" using assms by (simp add: u64_of_int_def uint_word_of_int)
  then have "?n \<noteq> 0" using assms(1) by auto
  moreover have u: "uint (slot mod ?n) = uint slot mod n" by (simp add: uint_mod un)
  moreover have "uint slot mod n < 2 ^ 63"
    by (rule order.strict_trans [OF pos_mod_bound [OF assms(1)] assms(2)])
  ultimately show ?thesis by (simp add: u64_rem_def int_of_u64_nonneg)
qed

lemma rest_of_epoch_bounds:
  assumes "0 < n" and "0 \<le> seconds"
  shows "0 \<le> rest_of_epoch slot n seconds" and "rest_of_epoch slot n seconds \<le> n * seconds"
proof -
  have "0 \<le> uint slot mod n" "uint slot mod n < n" using assms(1) by simp_all
  then show "0 \<le> rest_of_epoch slot n seconds" "rest_of_epoch slot n seconds \<le> n * seconds"
    using assms(2) by (simp_all add: rest_of_epoch_def mult_right_mono)
qed

lemma DelayForReceiveBlock_last:
  assumes "receiving_turn B slot (bw_srv w) = (Ret (LastAttacker v), s1)"
    and "b_GetSlotsPerEpoch B s1 = (Ret n, s2)" and "b_GetIntervalPerSlot B s2 = (Ret seconds, s3)"
    and n: "0 < n" "n < 2 ^ 63" and seconds: "0 \<le> seconds" and fits: "1000000000 * (n * seconds) < 2 ^ 63"
  defines "delay \<equiv> rest_of_epoch slot n seconds"
  shows "DelayForReceiveBlock L B slot w =
    (Ret (respond CMD_UPDATE_STATE []),
     w\<lparr>bw_srv := s3, bw_sleeps := bw_sleeps w @ [1000000000 * delay],
       bw_cache := lib_lruAdd L (delay_key slot v) delay (bw_cache w)\<rparr>)"
proof -
  obtain r where r: "u64_rem slot (u64_of_int n) = Ret r" "int_of_u64 r = uint slot mod n"
    using u64_rem_pos [OF n] by blast
  have m: "0 \<le> uint slot mod n" "uint slot mod n < n" using n(1) by simp_all
  have "is_i64 (n - uint slot mod n)" unfolding is_i64_def using m n by linarith
  then have "i64 (n - uint slot mod n) = n - uint slot mod n" by (rule i64_id)
  moreover have "0 \<le> delay" "delay \<le> n * seconds"
    using rest_of_epoch_bounds [OF n(1) seconds] by (simp_all add: delay_def)
  then have "i64 delay = delay" "i64 (1000000000 * delay) = 1000000000 * delay"
    using fits by (auto intro!: i64_id simp: is_i64_def)
  ultimately show ?thesis
    using assms(1-3) r
    by (simp add: DelayForReceiveBlock_def gbind_def on_srv_def glift_run gret_run Sleep_def cache_add_def Let_def
        delay_def [unfolded rest_of_epoch_def, symmetric])
qed

lemma Block_BeforeBroadCast_last:
  assumes "receiving_turn B slot (bw_srv w) = (Ret (LastAttacker v), s1)"
    and "lib_lruGet L (delay_key slot v) (bw_cache w) = (t, c)"
    and "b_GetIntervalPerSlot B s1 = (Ret seconds, s2)"
    and "0 \<le> seconds" and "0 \<le> (case t of None \<Rightarrow> 0 | Some d \<Rightarrow> d)"
    and "1000000000 * (12 * seconds + (case t of None \<Rightarrow> 0 | Some d \<Rightarrow> d)) < 2 ^ 63"
  shows "Block_BeforeBroadCast L B slot w =
    (Ret (respond CMD_NULL []),
     w\<lparr>bw_srv := s2, bw_cache := c,
       bw_sleeps := bw_sleeps w @ [1000000000 * (12 * seconds + (case t of None \<Rightarrow> 0 | Some d \<Rightarrow> d))]\<rparr>)"
proof -
  let ?d = "case t of None \<Rightarrow> 0 | Some d \<Rightarrow> d"
  have "i64 (12 * seconds) = 12 * seconds" "i64 (12 * seconds + ?d) = 12 * seconds + ?d"
    "i64 (1000000000 * (12 * seconds + ?d)) = 1000000000 * (12 * seconds + ?d)"
    using assms(4-6) by (auto intro!: i64_id simp: is_i64_def)
  then show ?thesis
    using assms(1-3)
    by (simp add: Block_BeforeBroadCast_def gbind_def on_srv_def gret_run Sleep_def cache_get_def Let_def)
qed

text \<open>Different slots or validators have different cache keys.\<close>

lemma format_nat_digits: "c \<in> set (format_nat n) \<Longrightarrow> \<exists>d < 10. c = digit_char d"
proof (induction n rule: format_nat.induct)
  case (1 n)
  show ?case
  proof (cases "n < 10")
    case True
    with "1.prems" show ?thesis by (auto simp: format_nat.simps [of n])
  next
    case False
    then have "n mod 10 < 10" "c \<in> set (format_nat (n div 10)) \<or> c = digit_char (n mod 10)"
      using "1.prems" by (auto simp: format_nat.simps [of n])
    with "1.IH" [OF False] show ?thesis by blast
  qed
qed

lemma delay_key_inj:
  assumes "delay_key slot v = delay_key slot' v'" and "is_i64 v" and "is_i64 v'"
  shows "slot = slot' \<and> v = v'"
proof -
  have "CHR ''_'' \<notin> set (format_nat n)" for n
    using format_nat_digits digit_char_not_underscore by metis
  then have "format_nat (unat slot) = format_nat (unat slot')" "FormatInt v = FormatInt v'"
    using assms(1) by (auto simp: delay_key_def split_at_first)
  moreover have "unat w < 2 ^ 64" for w :: u64 using unsigned_less [of w] by simp
  ultimately have "unat slot = unat slot'" "v = v'"
    using ParseUint_format_nat ParseInt_FormatInt [OF assms(2)] ParseInt_FormatInt [OF assms(3)]
    by (metis fst_conv)+
  then show ?thesis by (simp add: word_unat_eq_iff)
qed

section \<open>Settings survive\<close>

context backend_laws
begin

lemma Block_UpdateStrategy_effect:
  "\<exists>b. strat (snd (Block_UpdateStrategy B data s)) = (strat s)\<lparr>st_Block := b\<rparr>"
  "vset (snd (Block_UpdateStrategy B data s)) = vset s"
proof -
  obtain b err where u: "Unmarshal (dec_struct BlockStrategy_fields) data zeroBlockStrategy = (b, err)"
    by force
  obtain t where "b_SetBlock B b s = (Ret (), t)" "strat t = (strat s)\<lparr>st_Block := b\<rparr>" "vset t = vset s"
    using SetBlock_law by blast
  then have "strat (snd (Block_UpdateStrategy B data s)) =
      (strat s)\<lparr>st_Block := (if err then st_Block (strat s) else b)\<rparr>
    \<and> vset (snd (Block_UpdateStrategy B data s)) = vset s"
    using u by (simp add: Block_UpdateStrategy_def gbind_def gret_run)
  then show "\<exists>b. strat (snd (Block_UpdateStrategy B data s)) = (strat s)\<lparr>st_Block := b\<rparr>"
    "vset (snd (Block_UpdateStrategy B data s)) = vset s" by blast+
qed

lemma Block_Update_Get:
  assumes "is_i64 (bst_BroadCastDelay b)"
  shows "\<exists>t. Block_UpdateStrategy B (Some (BlockStrategy_json b)) s = (Ret False, t) \<and>
    Block_GetStrategy B cliInfo t = (Ret (BlockStrategy_json b), t) \<and>
    st_Attest (strat t) = st_Attest (strat s) \<and> st_Validators (strat t) = st_Validators (strat s) \<and>
    vset t = vset s"
proof -
  obtain t where "b_SetBlock B b s = (Ret (), t)" "strat t = (strat s)\<lparr>st_Block := b\<rparr>" "vset t = vset s"
    using SetBlock_law by blast
  then show ?thesis
    by (simp add: Block_UpdateStrategy_def Block_GetStrategy_def BlockStrategy_decode_encode [OF assms]
        gbind_def gret_run GetStrategy_law)
qed

end

end
