(* ===== verification/Attacker_Server.thy ===== *)
theory Attacker_Server
  imports Attest_Api Block_Api
begin

text \<open>
  \<^verbatim>\<open>src/server/server.go\<close>: the server, which keeps the beacon client, the strategy and
  the validator set, implements the backend of the services and polls the node for attester
  duties. Its state extends the beacon client's; the execution client is only passed through.
  \<open>server_backend\<close> is the server as a \<open>backend\<close>; the interpretations \<open>srv\<close> and
  \<open>srv_slots\<close> discharge the contracts of the interface for it. \<open>attacker_call\<close> lists the
  methods \<^verbatim>\<open>GetAPIs\<close> registers, \<open>serve\<close> runs one, and \<open>srv_step\<close> gives the states a
  run of the service can reach.
\<close>

record ('att, 'blk) server = gw +
  srv_strategy :: Strategy
  srv_validatorSetInfo :: "('att, 'blk) ValidatorDataSet"

text \<open>\<open>dialed\<close>: whether the execution node could be dialed; \<^verbatim>\<open>NewServer\<close> panics if not.\<close>

definition NewServer ::
  "bool \<Rightarrow> (string \<Rightarrow> file_read) \<Rightarrow> string \<Rightarrow> string \<Rightarrow> ('att, 'blk) server outcome" where
  "NewServer dialed readFile strategyFile beaconRpc =
     (if \<not> dialed then Panic (Explicit ''dial execute failed'')
      else Ret (gw.extend (NewBeaconGwClient beaconRpc)
                 \<lparr>srv_strategy = ParseStrategy readFile strategyFile,
                  srv_validatorSetInfo = NewValidatorSet\<rparr>))"

section \<open>The backend\<close>

definition Server_GetStrategy :: "(('att, 'blk) server, Strategy) gom" where
  "Server_GetStrategy = gread srv_strategy"

definition Server_SetBlock :: "BlockStrategy \<Rightarrow> (('att, 'blk) server, unit) gom" where
  "Server_SetBlock b = gmodify (srv_strategy_update (st_Block_update (\<lambda>_. b)))"

definition Server_SetAttest :: "AttestStrategy \<Rightarrow> (('att, 'blk) server, unit) gom" where
  "Server_SetAttest a = gmodify (srv_strategy_update (st_Attest_update (\<lambda>_. a)))"

definition UpdateBlockBroadDelay :: "int \<Rightarrow> (('att, 'blk) server, unit) gom" where
  "UpdateBlockBroadDelay milliSecond =
     gmodify (srv_strategy_update (st_Block_update (bst_BroadCastDelay_update (\<lambda>_. milliSecond))))"

definition UpdateAttestBroadDelay :: "int \<Rightarrow> (('att, 'blk) server, unit) gom" where
  "UpdateAttestBroadDelay milliSecond =
     gmodify (srv_strategy_update (st_Attest_update (ast_BroadCastDelay_update (\<lambda>_. milliSecond))))"

definition Server_GetValidatorRole :: "env \<Rightarrow> int \<Rightarrow> int \<Rightarrow> (('att, 'blk) server, RoleType) gom" where
  "Server_GetValidatorRole E slot valIdx =
     (if slot < 0 then
        gbind (GetLatestBeaconHeader E) (\<lambda>r.
        case r of
          Inl _ \<Rightarrow> gret NormalRole
        | Inr header \<Rightarrow>
            gread (\<lambda>s. Strategy_GetValidatorRole (srv_strategy s) valIdx
                         (fst (Atoi (msg_Slot (hdr_Message (hdi_Header header)))))))
      else gread (\<lambda>s. Strategy_GetValidatorRole (srv_strategy s) valIdx slot))"

definition Server_GetValidatorRoleByPubkey ::
  "env \<Rightarrow> int \<Rightarrow> string \<Rightarrow> (('att, 'blk) server, RoleType) gom" where
  "Server_GetValidatorRoleByPubkey E slot pubkey =
     gbind (gread srv_validatorSetInfo) (\<lambda>vs.
     case GetValidatorByPubkey vs pubkey of
       Some val \<Rightarrow> Server_GetValidatorRole E slot (val_Index val)
     | None \<Rightarrow> gret NormalRole)"

definition GetSlotsPerEpoch :: "env \<Rightarrow> (('att, 'blk) server, int) gom" where
  "GetSlotsPerEpoch E =
     gbind (GetIntConfig E SLOTS_PER_EPOCH) (\<lambda>(count, err). gret (if err \<noteq> None then 6 else count))"

definition GetIntervalPerSlot :: "env \<Rightarrow> (('att, 'blk) server, int) gom" where
  "GetIntervalPerSlot E =
     gbind (GetIntConfig E SECONDS_PER_SLOT) (\<lambda>(interval, err). gret (if err \<noteq> None then 12 else interval))"

definition Server_SlotsPerEpoch :: "env \<Rightarrow> (('att, 'blk) server, int) gom" where
  "Server_SlotsPerEpoch E = GetSlotsPerEpoch E"

definition Server_AddSignedAttestation :: "u64 \<Rightarrow> string \<Rightarrow> 'att \<Rightarrow> (('att, 'blk) server, unit) gom" where
  "Server_AddSignedAttestation slot pubkey attestation =
     gmodify (srv_validatorSetInfo_update (AddSignedAttestation slot pubkey attestation))"

definition Server_AddSignedBlock :: "u64 \<Rightarrow> string \<Rightarrow> 'blk \<Rightarrow> (('att, 'blk) server, unit) gom" where
  "Server_AddSignedBlock slot pubkey block =
     gmodify (srv_validatorSetInfo_update (AddSignedBlock slot pubkey block))"

definition Server_GetAttestSet :: "u64 \<Rightarrow> (('att, 'blk) server, 'att SlotAttestSet option) gom" where
  "Server_GetAttestSet slot = gread (\<lambda>s. GetAttestSet (srv_validatorSetInfo s) slot)"

definition Server_GetBlockSet :: "u64 \<Rightarrow> (('att, 'blk) server, 'blk SlotBlockSet option) gom" where
  "Server_GetBlockSet slot = gread (\<lambda>s. GetBlockSet (srv_validatorSetInfo s) slot)"

definition Server_GetValidatorDataSet :: "(('att, 'blk) server, ('att, 'blk) ValidatorDataSet) gom" where
  "Server_GetValidatorDataSet = gread srv_validatorSetInfo"

definition find_duty :: "ProposerDuty list \<Rightarrow> u64 \<Rightarrow> beacon_error + int" where
  "find_duty duties slot =
     (case find (\<lambda>duty. u64_of_int (fst (ParseInt (pd_Slot duty))) = slot) duties of
        Some duty \<Rightarrow> Inr (fst (Atoi (pd_ValidatorIndex duty)))
      | None \<Rightarrow> Inl NotFound)"

definition GetValidatorByProposeSlot :: "env \<Rightarrow> u64 \<Rightarrow> (('att, 'blk) server, beacon_error + int) gom" where
  "GetValidatorByProposeSlot E slot =
     gbind (GetSlotsPerEpoch E) (\<lambda>n.
     let epochPerSlot = u64_of_int n in
     gbind (glift (u64_quot slot epochPerSlot)) (\<lambda>epoch.
     gbind (GetProposerDuties E (int_of_u64 epoch)) (\<lambda>r.
     gret (case r of Inl err \<Rightarrow> Inl err | Inr duties \<Rightarrow> find_duty duties slot))))"

definition GetProposeDuties :: "env \<Rightarrow> int \<Rightarrow> (('att, 'blk) server, beacon_error + ProposerDuty list) gom" where
  "GetProposeDuties E epoch = GetProposerDuties E epoch"

definition GetCurrentEpochProposeDuties ::
  "env \<Rightarrow> (('att, 'blk) server, beacon_error + ProposerDuty list) gom" where
  "GetCurrentEpochProposeDuties E = GetCurrentEpochProposerDuties E"

definition server_backend :: "env \<Rightarrow> (('att, 'blk) server, 'att, 'blk) backend" where
  "server_backend E =
     \<lparr>b_GetStrategy = Server_GetStrategy,
      b_SetBlock = Server_SetBlock,
      b_SetAttest = Server_SetAttest,
      b_UpdateBlockBroadDelay = UpdateBlockBroadDelay,
      b_UpdateAttestBroadDelay = UpdateAttestBroadDelay,
      b_GetValidatorRole = Server_GetValidatorRole E,
      b_GetValidatorRoleByPubkey = Server_GetValidatorRoleByPubkey E,
      b_GetCurrentEpochProposeDuties = GetCurrentEpochProposeDuties E,
      b_GetSlotsPerEpoch = GetSlotsPerEpoch E,
      b_SlotsPerEpoch = Server_SlotsPerEpoch E,
      b_GetIntervalPerSlot = GetIntervalPerSlot E,
      b_AddSignedAttestation = Server_AddSignedAttestation,
      b_AddSignedBlock = Server_AddSignedBlock,
      b_GetAttestSet = Server_GetAttestSet,
      b_GetBlockSet = Server_GetBlockSet,
      b_GetValidatorDataSet = Server_GetValidatorDataSet,
      b_GetValidatorByProposeSlot = GetValidatorByProposeSlot E,
      b_GetProposeDuties = GetProposeDuties E\<rparr>"

lemma server_backend_simps [simp]:
  "b_GetStrategy (server_backend E) = Server_GetStrategy"
  "b_SetBlock (server_backend E) = Server_SetBlock"
  "b_SetAttest (server_backend E) = Server_SetAttest"
  "b_UpdateBlockBroadDelay (server_backend E) = UpdateBlockBroadDelay"
  "b_UpdateAttestBroadDelay (server_backend E) = UpdateAttestBroadDelay"
  "b_GetValidatorRole (server_backend E) = Server_GetValidatorRole E"
  "b_GetValidatorRoleByPubkey (server_backend E) = Server_GetValidatorRoleByPubkey E"
  "b_GetCurrentEpochProposeDuties (server_backend E) = GetCurrentEpochProposeDuties E"
  "b_GetSlotsPerEpoch (server_backend E) = GetSlotsPerEpoch E"
  "b_SlotsPerEpoch (server_backend E) = Server_SlotsPerEpoch E"
  "b_GetIntervalPerSlot (server_backend E) = GetIntervalPerSlot E"
  "b_AddSignedAttestation (server_backend E) = Server_AddSignedAttestation"
  "b_AddSignedBlock (server_backend E) = Server_AddSignedBlock"
  "b_GetAttestSet (server_backend E) = Server_GetAttestSet"
  "b_GetBlockSet (server_backend E) = Server_GetBlockSet"
  "b_GetValidatorDataSet (server_backend E) = Server_GetValidatorDataSet"
  "b_GetValidatorByProposeSlot (server_backend E) = GetValidatorByProposeSlot E"
  "b_GetProposeDuties (server_backend E) = GetProposeDuties E"
  by (simp_all add: server_backend_def)

section \<open>Polling the duties\<close>

text \<open>
  One tick of the 100 ms ticker of \<^verbatim>\<open>monitorDuties\<close>; the other ticker's case is empty. The
  result is whether the period is reset to two seconds.
\<close>

definition record_duty :: "AttestDuty \<Rightarrow> unit \<Rightarrow> (('att, 'blk) server, unit) gom" where
  "record_duty duty u =
     gmodify (srv_validatorSetInfo_update (AddValidator (fst (Atoi (ad_ValidatorIndex duty))) (ad_Pubkey duty)))"

definition monitor_tick :: "env \<Rightarrow> (('att, 'blk) server, bool) gom" where
  "monitor_tick E =
     gbind (GetCurrentEpochAttestDuties E) (\<lambda>r.
     case r of
       Inl _ \<Rightarrow> gret False
     | Inr duties \<Rightarrow> gbind (gfold record_duty duties ()) (\<lambda>_. gret True))"

section \<open>The contracts of the interface\<close>

lemma beacon_frame_server [simp]: "beacon_frame srv_strategy" "beacon_frame srv_validatorSetInfo"
  by (simp_all add: beacon_frame_def)

lemma keeps_server_reads [go_frame]:
  assumes "beacon_frame h"
  shows "keeps h (Server_GetValidatorRole E slot idx)" "keeps h (Server_GetValidatorRoleByPubkey E slot p)"
    "keeps h (GetSlotsPerEpoch E)" "keeps h (GetIntervalPerSlot E)" "keeps h (Server_SlotsPerEpoch E)"
    "keeps h (GetValidatorByProposeSlot E w)" "keeps h (GetProposeDuties E epoch)"
    "keeps h (GetCurrentEpochProposeDuties E)"
  unfolding Server_GetValidatorRole_def Server_GetValidatorRoleByPubkey_def GetSlotsPerEpoch_def
    GetIntervalPerSlot_def Server_SlotsPerEpoch_def GetValidatorByProposeSlot_def GetProposeDuties_def
    GetCurrentEpochProposeDuties_def Let_def
  using assms by (intro go_frame; assumption)+

lemma backend_frame_server: "beacon_frame h \<Longrightarrow> backend_frame (server_backend E) h"
  by (simp add: backend_frame_def keeps_server_reads keeps_gread Server_GetStrategy_def
      Server_GetAttestSet_def Server_GetBlockSet_def Server_GetValidatorDataSet_def)

lemma Server_role_known:
  "Server_GetValidatorRoleByPubkey E slot p s = (Ret AttackerRole, t) \<Longrightarrow>
   GetValidatorByPubkey (srv_validatorSetInfo s) p \<noteq> None"
  by (auto simp: Server_GetValidatorRoleByPubkey_def gret_run split: option.splits)

interpretation srv: backend_laws "server_backend E" srv_strategy srv_validatorSetInfo
  by unfold_locales
    (auto simp: Server_GetStrategy_def Server_SetBlock_def Server_SetAttest_def
      Server_GetValidatorRole_def Server_GetValidatorRoleByPubkey_def Server_GetAttestSet_def
      Server_GetBlockSet_def Server_GetValidatorDataSet_def Server_AddSignedAttestation_def gret_run
      backend_frame_server split: option.splits)

text \<open>A configuration in the cache that gives the key a positive number.\<close>

definition config_has :: "string \<Rightarrow> int \<Rightarrow> 'z gw_scheme \<Rightarrow> bool" where
  "config_has key n s \<longleftrightarrow> 0 < n \<and> (\<exists>v. map_of (gw_config s) key = Some v \<and> Atoi v = (n, None))"

lemma config_has_IntConfig: "config_has key n s \<Longrightarrow> GetIntConfig E key s = (Ret (n, None), s)"
proof -
  assume c: "config_has key n s"
  then have "gw_config s \<noteq> []" by (auto simp: config_has_def)
  with c show ?thesis by (auto simp: config_has_def GetIntConfig_cached)
qed

lemma GetSlotsPerEpoch_run: "config_has SLOTS_PER_EPOCH n s \<Longrightarrow> GetSlotsPerEpoch E s = (Ret n, s)"
  by (simp add: GetSlotsPerEpoch_def gbind_def config_has_IntConfig gret_run)

lemma GetIntervalPerSlot_run: "config_has SECONDS_PER_SLOT n s \<Longrightarrow> GetIntervalPerSlot E s = (Ret n, s)"
  by (simp add: GetIntervalPerSlot_def gbind_def config_has_IntConfig gret_run)

interpretation srv_slots: slot_clock "Server_SlotsPerEpoch E" n "config_has SLOTS_PER_EPOCH n"
  by unfold_locales (auto simp: Server_SlotsPerEpoch_def GetSlotsPerEpoch_run, simp add: config_has_def)

section \<open>The registered services\<close>

datatype attacker_call =
    CallSetRoleAttacker int
  | CallSetRoleNormal int
  | CallBlockGetStrategy string
  | CallBlockUpdateStrategy "json option"
  | CallBroadCastDelay
  | CallDelayForReceiveBlock u64
  | CallBlockBeforeBroadCast u64
  | CallBlockAfterBroadCast u64
  | CallBeforeMakeBlock u64 string
  | CallBlockBeforeSign u64 string string
  | CallBlockAfterSign u64 string string
  | CallBlockBeforePropose u64 string string
  | CallBlockAfterPropose u64 string string
  | CallAttestGetStrategy
  | CallAttestUpdateStrategy "json option"
  | CallAttestBeforeBroadCast u64
  | CallAttestAfterBroadCast u64
  | CallAttestBeforeSign u64 string string
  | CallAttestAfterSign u64 string string
  | CallAttestBeforePropose u64 string string
  | CallAttestAfterPropose u64 string string

datatype call_result = NoResult | Response AttackerResponse | Bytes json | Failed bool

definition giving :: "('a \<Rightarrow> 'b) \<Rightarrow> ('s, 'a) gom \<Rightarrow> ('s, 'b) gom" where
  "giving f m = gbind m (\<lambda>x. gret (f x))"

type_synonym ('att, 'gsb, 'c) world = "(('att, 'gsb) server, 'c) block_world"

text \<open>\<open>U\<close> is \<^verbatim>\<open>proto.Unmarshal\<close> into an attestation.\<close>

fun serve ::
  "env \<Rightarrow> ('att, 'data, 'root, 'bits, 'b64, 'keys, 'gsb, 'cap, 'gb, 'ucap, 'c) api_lib \<Rightarrow> (string \<Rightarrow> 'att option) \<Rightarrow> attacker_call \<Rightarrow>
     (('att, 'gsb, 'c) world, call_result) gom" where
  "serve E L U (CallSetRoleAttacker i) = giving (\<lambda>_. NoResult) (SetRoleAttacker i)"
| "serve E L U (CallSetRoleNormal i) = giving (\<lambda>_. NoResult) (SetRoleNormal i)"
| "serve E L U (CallBlockGetStrategy c) = giving Bytes (on_srv (Block_GetStrategy (server_backend E) c))"
| "serve E L U (CallBlockUpdateStrategy d) = giving Failed (on_srv (Block_UpdateStrategy (server_backend E) d))"
| "serve E L U CallBroadCastDelay = giving Response (BroadCastDelay (server_backend E))"
| "serve E L U (CallDelayForReceiveBlock n) = giving Response (DelayForReceiveBlock L (server_backend E) n)"
| "serve E L U (CallBlockBeforeBroadCast n) = giving Response (Block_BeforeBroadCast L (server_backend E) n)"
| "serve E L U (CallBlockAfterBroadCast n) = giving Response (Block_AfterBroadCast n)"
| "serve E L U (CallBeforeMakeBlock n p) = giving Response (BeforeMakeBlock (server_backend E) n p)"
| "serve E L U (CallBlockBeforeSign n p d) = giving Response (Block_BeforeSign L (server_backend E) n p d)"
| "serve E L U (CallBlockAfterSign n p d) = giving Response (Block_AfterSign (server_backend E) n p d)"
| "serve E L U (CallBlockBeforePropose n p d) = giving Response (Block_BeforePropose n p d)"
| "serve E L U (CallBlockAfterPropose n p d) = giving Response (Block_AfterPropose n p d)"
| "serve E L U CallAttestGetStrategy = giving Bytes (on_srv (Attest_GetStrategy (server_backend E)))"
| "serve E L U (CallAttestUpdateStrategy d) = giving Failed (on_srv (Attest_UpdateStrategy (server_backend E) d))"
| "serve E L U (CallAttestBeforeBroadCast n) = giving Response (Attest_BeforeBroadCast n)"
| "serve E L U (CallAttestAfterBroadCast n) = giving Response (Attest_AfterBroadCast n)"
| "serve E L U (CallAttestBeforeSign n p d) = giving Response (Attest_BeforeSign n p d)"
| "serve E L U (CallAttestAfterSign n p d) = giving Response (on_srv (Attest_AfterSign (server_backend E) U n p d))"
| "serve E L U (CallAttestBeforePropose n p d) = giving Response (on_srv (Attest_BeforePropose (server_backend E) n p d))"
| "serve E L U (CallAttestAfterPropose n p d) = giving Response (Attest_AfterPropose n p d)"

section \<open>States of the service\<close>

text \<open>
  A call is a step even when it panics: the RPC layer recovers and the state stays as the
  handler left it. A panic of the polling goroutine ends the process.
\<close>

inductive srv_step ::
  "env \<Rightarrow> ('att, 'data, 'root, 'bits, 'b64, 'keys, 'gsb, 'cap, 'gb, 'ucap, 'c) api_lib \<Rightarrow> (string \<Rightarrow> 'att option) \<Rightarrow>
     ('att, 'gsb, 'c) world \<Rightarrow> ('att, 'gsb, 'c) world \<Rightarrow> bool" for E L U where
  tick: "on_srv (monitor_tick E) w = (Ret b, w') \<Longrightarrow> srv_step E L U w w'"
| call: "serve E L U c w = (r, w') \<Longrightarrow> srv_step E L U w w'"

inductive srv_reachable ::
  "env \<Rightarrow> ('att, 'data, 'root, 'bits, 'b64, 'keys, 'gsb, 'cap, 'gb, 'ucap, 'c) api_lib \<Rightarrow> (string \<Rightarrow> 'att option) \<Rightarrow>
     ('att, 'gsb) server \<Rightarrow> ('att, 'gsb, 'c) world \<Rightarrow> bool" for E L U s0 where
  start: "bw_srv w = s0 \<Longrightarrow> srv_reachable E L U s0 w"
| step: "srv_reachable E L U s0 w \<Longrightarrow> srv_step E L U w w' \<Longrightarrow> srv_reachable E L U s0 w'"

text \<open>
  What every run keeps: the attackers of the strategy, the validator set's invariant, and
  that attestations are on record for known validators only.
\<close>

definition srv_inv :: "ValidatorStrategy list \<Rightarrow> ('att, 'blk) server \<Rightarrow> bool" where
  "srv_inv V s \<longleftrightarrow> st_Validators (srv_strategy s) = V \<and>
     vset_wf (srv_validatorSetInfo s) \<and> known_attesters (srv_validatorSetInfo s)"

lemma giving_state [simp]: "snd (giving f m s) = snd (m s)"
  by (auto simp: giving_def gbind_def gret_run split: prod.split outcome.split)

lemma on_srv_state [simp]: "bw_srv (snd (on_srv m w)) = snd (m (bw_srv w))"
  by (simp add: on_srv_def split: prod.split)

lemma gret_state: "snd (gret a s) = s"
  by (simp add: gret_run)

lemma srv_inv_kept:
  assumes "srv_inv V s" and "srv_strategy t = srv_strategy s" and "srv_validatorSetInfo t = srv_validatorSetInfo s"
  shows "srv_inv V t"
  using assms by (simp add: srv_inv_def)

lemma srv_inv_on_handler:
  assumes "srv_inv V (bw_srv w)"
    and "\<And>h :: ('att, 'blk) server \<Rightarrow> Strategy. backend_frame (server_backend E) h \<Longrightarrow> keeps (\<lambda>w. h (bw_srv w)) m"
    and "\<And>h :: ('att, 'blk) server \<Rightarrow> ('att, 'blk) ValidatorDataSet.
      backend_frame (server_backend E) h \<Longrightarrow> keeps (\<lambda>w. h (bw_srv w)) m"
  shows "srv_inv V (bw_srv (snd (m w)))"
  using assms(1)
proof (rule srv_inv_kept)
  show "srv_strategy (bw_srv (snd (m w))) = srv_strategy (bw_srv w)"
    using keepsD [OF assms(2)] backend_frame_server [of srv_strategy E] by force
  show "srv_validatorSetInfo (bw_srv (snd (m w))) = srv_validatorSetInfo (bw_srv w)"
    using keepsD [OF assms(3)] backend_frame_server [of srv_validatorSetInfo E] by force
qed

lemma srv_inv_AfterSign:
  "srv_inv V s \<Longrightarrow> srv_inv V (snd (Attest_AfterSign (server_backend E) U slot p data s))"
  using srv.Attest_AfterSign_effect [of E U slot p data s]
  by (auto simp: srv_inv_def vset_wf_AddSignedAttestation known_attesters_AddSignedAttestation)

lemma srv_inv_UpdateStrategy:
  assumes "srv_inv V s"
  shows "srv_inv V (snd (Attest_UpdateStrategy (server_backend E) d s))"
    and "srv_inv V (snd (Block_UpdateStrategy (server_backend E) d s))"
  using assms srv.Attest_UpdateStrategy_effect [of E d s] srv.Block_UpdateStrategy_effect [of E d s]
  by (auto simp: srv_inv_def)

lemma srv_inv_serve:
  assumes "srv_inv V (bw_srv w)"
  shows "srv_inv V (bw_srv (snd (serve E L U c w)))"
proof (cases c)
  case (CallAttestBeforePropose n p d)
  have "srv_inv V (bw_srv (snd (on_srv (Attest_BeforePropose (server_backend E) n p d) w)))"
    by (rule srv_inv_on_handler [OF assms])
      (erule keeps_on_srv [OF keeps_Attest_BeforePropose])+
  with CallAttestBeforePropose show ?thesis by simp
qed (use assms in \<open>simp_all add: srv_inv_AfterSign srv_inv_UpdateStrategy gret_state
      SetRoleAttacker_def SetRoleNormal_def Block_AfterBroadCast_def Block_BeforePropose_def
      Block_AfterPropose_def Attest_BeforeBroadCast_def Attest_AfterBroadCast_def Attest_BeforeSign_def
      Attest_AfterPropose_def Block_GetStrategy_def Attest_GetStrategy_def Server_GetStrategy_def
      srv_inv_on_handler [OF assms keeps_block_handlers(1) keeps_block_handlers(1)]
      srv_inv_on_handler [OF assms keeps_block_handlers(2) keeps_block_handlers(2)]
      srv_inv_on_handler [OF assms keeps_block_handlers(3) keeps_block_handlers(3)]
      srv_inv_on_handler [OF assms keeps_block_handlers(4) keeps_block_handlers(4)]
      srv_inv_on_handler [OF assms keeps_block_handlers(5) keeps_block_handlers(5)]
      srv_inv_on_handler [OF assms keeps_block_handlers(6) keeps_block_handlers(6)]\<close>)

lemma srv_inv_record_duties:
  "srv_inv V s \<Longrightarrow> \<exists>t. gfold record_duty ds () s = (Ret (), t) \<and> srv_inv V t"
proof (induction ds arbitrary: s)
  case Nil
  then show ?case by (simp add: gret_run)
next
  case (Cons d ds)
  then have "srv_inv V (snd (record_duty d () s))"
    by (simp add: record_duty_def srv_inv_def vset_wf_AddValidator known_attesters_AddValidator)
  from Cons.IH [OF this] show ?case by (simp add: gbind_def record_duty_def)
qed

lemma srv_inv_tick:
  assumes "srv_inv V s" and "monitor_tick E s = (r, t)"
  shows "srv_inv V t"
proof -
  obtain q s1 where duties: "GetCurrentEpochAttestDuties E s = (q, s1)" by force
  have s1: "srv_inv V s1"
    by (rule srv_inv_kept [OF assms(1)])
      (rule keeps_run [OF keeps_GetCurrentEpochAttestDuties [OF beacon_frame_server(1)] duties]
        keeps_run [OF keeps_GetCurrentEpochAttestDuties [OF beacon_frame_server(2)] duties])+
  show ?thesis
  proof (cases "\<exists>ds. q = Ret (Inr ds)")
    case True
    then obtain ds where "q = Ret (Inr ds)" ..
    moreover from srv_inv_record_duties [OF s1] obtain t'
      where "gfold record_duty ds () s1 = (Ret (), t')" "srv_inv V t'" by blast
    ultimately show ?thesis
      using assms(2) duties by (simp add: monitor_tick_def gbind_def gret_run)
  next
    case False
    then have "t = s1"
      using assms(2) duties
      by (auto simp: monitor_tick_def gbind_def gret_run split: outcome.splits sum.splits)
    with s1 show ?thesis by simp
  qed
qed

lemma srv_step_inv:
  assumes "srv_step E L U w w'" and "srv_inv V (bw_srv w)"
  shows "srv_inv V (bw_srv w')"
  using assms
proof (induction rule: srv_step.induct)
  case (tick w b w')
  then have "monitor_tick E (bw_srv w) = (Ret b, bw_srv w')"
    by (auto simp: on_srv_def split: prod.splits)
  with tick.prems show ?case by (rule srv_inv_tick)
next
  case (call c w r w')
  then show ?case by (metis srv_inv_serve snd_conv)
qed

lemma srv_reachable_inv:
  "srv_reachable E L U s0 w \<Longrightarrow> srv_inv V s0 \<Longrightarrow> srv_inv V (bw_srv w)"
  by (induction rule: srv_reachable.induct) (auto intro: srv_step_inv)

lemma srv_inv_NewServer:
  "NewServer dialed readFile file rpc = Ret s0 \<Longrightarrow>
   srv_inv (st_Validators (ParseStrategy readFile file)) s0"
  by (auto simp: NewServer_def srv_inv_def gw.defs NewBeaconGwClient_def split: if_splits)

section \<open>The node's answers\<close>

lemma GetProposerDuties_run:
  "GetProposerDuties E epoch s =
     (Ret (unmarshal_or_fail (dec_list (dec_struct ProposerDuty_fields) zeroProposerDuty)
        (br_Data (fst (decode_response
          (env_net E (gw_clock s) (HttpGet (gw_url s (''/eth/v1/validator/duties/proposer/'' @ FormatInt epoch))))))) []),
      s\<lparr>gw_clock := Suc (gw_clock s)\<rparr>)"
  by (simp add: GetProposerDuties_def gbind_def doGet_run gret_run split: prod.split)

text \<open>The duties the node reports for an epoch when asked at a given time.\<close>

definition duties_at :: "env \<Rightarrow> 'z gw_scheme \<Rightarrow> int \<Rightarrow> beacon_error + ProposerDuty list" where
  "duties_at E s epoch =
     unmarshal_or_fail (dec_list (dec_struct ProposerDuty_fields) zeroProposerDuty)
       (br_Data (fst (decode_response
         (env_net E (gw_clock s) (HttpGet (gw_url s (''/eth/v1/validator/duties/proposer/'' @ FormatInt epoch))))))) []"

lemma GetProposeDuties_run: "GetProposeDuties E epoch s = (Ret (duties_at E s epoch), s\<lparr>gw_clock := Suc (gw_clock s)\<rparr>)"
  by (simp add: GetProposeDuties_def GetProposerDuties_run duties_at_def)

lemma u64_quot_pos:
  assumes "0 < n" and "n < 2 ^ 63" and "uint slot < 2 ^ 63"
  shows "\<exists>e. u64_quot slot (u64_of_int n) = Ret e \<and> int_of_u64 e = uint slot div n"
proof -
  let ?n = "u64_of_int n"
  have un: "uint ?n = n" using assms by (simp add: u64_of_int_def uint_word_of_int)
  then have "?n \<noteq> 0" using assms(1) by auto
  moreover have u: "uint (slot div ?n) = uint slot div n" by (simp add: uint_div un)
  moreover have "uint slot div n \<le> uint slot"
    using zdiv_mono2 [of "uint slot" 1 n] assms(1) by simp
  then have "uint slot div n < 2 ^ 63" using assms(3) by linarith
  ultimately show ?thesis by (simp add: u64_quot_def int_of_u64_nonneg)
qed

lemma GetValidatorByProposeSlot_run:
  assumes "config_has SLOTS_PER_EPOCH n s" and "n < 2 ^ 63" and "uint slot < 2 ^ 63"
  shows "GetValidatorByProposeSlot E slot s =
    (Ret (case duties_at E s (uint slot div n) of Inl e \<Rightarrow> Inl e | Inr ds \<Rightarrow> find_duty ds slot),
     s\<lparr>gw_clock := Suc (gw_clock s)\<rparr>)"
proof -
  have "0 < n" using assms(1) by (simp add: config_has_def)
  then obtain e where "u64_quot slot (u64_of_int n) = Ret e" "int_of_u64 e = uint slot div n"
    using u64_quot_pos assms(2,3) by blast
  then show ?thesis
    by (simp add: GetValidatorByProposeSlot_def gbind_def GetSlotsPerEpoch_run [OF assms(1)] glift_run gret_run
        Let_def GetProposerDuties_run duties_at_def)
qed

text \<open>
  A node that never answers: no configuration, hence an epoch length of zero and not the
  fallback of six slots.
\<close>

definition silent :: "env \<Rightarrow> bool" where
  "silent E \<longleftrightarrow> (\<forall>n req. env_net E n req = HttpFailed) \<and> env_ok E"

lemma silent_spec: "silent E \<Longrightarrow> spec_answer E s = []"
  by (simp add: silent_def spec_answer_def spec_entries_def decode_response_def zeroBeaconResponse_def)

lemma silent_IntConfig:
  assumes "silent E" and "gw_config s = []"
  shows "\<exists>t. GetIntConfig E key s = (Ret (0, None), t) \<and> gw_config t = []"
proof -
  have "fetched E s = []"
    using assms(1) by (simp add: fetched_def silent_spec visit_Nil silent_def)
  moreover have "GetBeaconConfig E s =
      (Ret (fetched E s), s\<lparr>gw_clock := Suc (Suc (gw_clock s)), gw_config := fetched E s\<rparr>)"
    by (rule GetBeaconConfig_fetch [OF assms(2)])
      (use assms(1) in \<open>simp_all add: silent_def silent_spec all_strings_def\<close>)
  ultimately show ?thesis by (simp add: GetIntConfig_def gbind_def gret_run)
qed

lemma silent_propose_slot:
  assumes "silent E" and "gw_config s = []"
  shows "\<exists>t. GetValidatorByProposeSlot E slot s = (Panic DivideByZero, t)"
proof -
  from silent_IntConfig [OF assms] obtain t where "GetIntConfig E SLOTS_PER_EPOCH s = (Ret (0, None), t)"
    by blast
  then show ?thesis
    by (simp add: GetValidatorByProposeSlot_def GetSlotsPerEpoch_def gbind_def gret_run glift_run u64_quot_def
        u64_of_int_def Let_def)
qed

section \<open>The turn of a proposer\<close>

text \<open>A node that answers the question for an epoch's proposers the same way every time.\<close>

definition steady_duties :: "env \<Rightarrow> 'z gw_scheme \<Rightarrow> int \<Rightarrow> ProposerDuty list \<Rightarrow> bool" where
  "steady_duties E s epoch ds \<longleftrightarrow> (\<forall>k. duties_at E (s\<lparr>gw_clock := k\<rparr>) epoch = Inr ds)"

lemma steady_dutiesD:
  "steady_duties E s epoch ds \<Longrightarrow> duties_at E s epoch = Inr ds"
  "steady_duties E s epoch ds \<Longrightarrow> duties_at E (s\<lparr>gw_clock := k\<rparr>) epoch = Inr ds"
proof -
  assume "steady_duties E s epoch ds"
  then have "duties_at E (s\<lparr>gw_clock := gw_clock s\<rparr>) epoch = Inr ds" unfolding steady_duties_def by blast
  then show "duties_at E s epoch = Inr ds" by simp
qed (simp add: steady_duties_def)

lemma config_has_clock [simp]: "config_has key n (s\<lparr>gw_clock := k\<rparr>) \<longleftrightarrow> config_has key n s"
  by (simp add: config_has_def)

lemma server_proposing_turn:
  assumes config: "config_has SLOTS_PER_EPOCH n s" "n < 2 ^ 63" and slot: "uint slot < 2 ^ 63"
    and duties: "steady_duties E s (uint slot div n) ds" "find_duty ds slot = Inr v"
    and role: "Strategy_GetValidatorRole (srv_strategy s) v (uint slot) = AttackerRole"
  shows "proposing_turn (server_backend E) slot p s =
    (Ret (if uint slot = latest_attacker_slot (srv_strategy s) (uint slot) ds
          then LastAttacker (uint slot div n) else NotLast), s\<lparr>gw_clock := Suc (Suc (gw_clock s))\<rparr>)"
proof -
  let ?s1 = "s\<lparr>gw_clock := Suc (gw_clock s)\<rparr>"
  show ?thesis
  proof (rule srv.proposing_turn_run [OF slot _ role])
    show "b_GetValidatorByProposeSlot (server_backend E) slot s = (Ret (Inr v), ?s1)"
      using GetValidatorByProposeSlot_run [OF config slot] duties by (simp add: steady_dutiesD)
    show "b_SlotsPerEpoch (server_backend E) ?s1 = (Ret n, ?s1)"
      using config by (simp add: Server_SlotsPerEpoch_def GetSlotsPerEpoch_run)
    show "b_GetProposeDuties (server_backend E) (uint slot div n) ?s1 =
        (Ret (Inr ds), s\<lparr>gw_clock := Suc (Suc (gw_clock s))\<rparr>)"
      using duties(1) by (simp add: GetProposeDuties_run steady_dutiesD)
    show "0 < n" using config(1) by (simp add: config_has_def)
  qed
qed

end
