(* ===== verification/Scenario.thy ===== *)
theory Scenario
  imports Attacker_Server
begin

text \<open>
  A small concrete world for the witnesses: a beacon node with four slots per epoch and fixed
  proposer duties, a strategy in which validators 1 and 2 attack in slots 0 to 100, and
  attestations that are pairs of a slot and a list of aggregation bits. Every parameter of the
  model (network, Prysm, protobuf, LRU, iteration order) has a concrete function here, and the
  laws the theorems assume of them are proved for it.
\<close>

type_synonym s_att = "u64 \<times> bool list"

section \<open>Attestations\<close>

definition s_contains :: "bool list \<Rightarrow> bool list \<Rightarrow> bool option" where
  "s_contains a b = (if length a = length b then Some (list_all2 (\<lambda>x y. y \<longrightarrow> x) a b) else None)"

definition s_indices :: "bool list \<Rightarrow> nat list" where
  "s_indices k = filter ((!) k) [0..<length k]"

definition s_att_lib :: "(s_att, u64, u64, bool list, bool list, bool list) att_lib" where
  "s_att_lib =
     \<lparr>att_Data = \<lambda>a. Some (fst a), att_AggregationBits = snd, data_Slot = id,
      HashTreeRoot = \<lambda>d. Ret (the d, False),
      bits_Contains = s_contains, bits_Count = \<lambda>b. length (filter id b),
      bits_ToBitlist64 = Some,
      MaxCover = \<lambda>cs n o'. Some (replicate (length cs) True),
      keys_Count = \<lambda>k. length (s_indices k), keys_Not = map Not, keys_BitIndices = s_indices\<rparr>"

definition s_sort :: "s_att list \<Rightarrow> s_att list" where
  "s_sort = sort_key (\<lambda>a. - int (length (filter id (snd a))))"

lemma s_preorder_same_length:
  "s_contains a b = Some True \<longleftrightarrow> list_all2 (\<lambda>x y. y \<longrightarrow> x) a b"
  by (auto simp: s_contains_def dest: list_all2_lengthD)

lemma s_preorder: "is_preorder (atts_contain s_att_lib)"
  unfolding is_preorder_def atts_contain_def
  by (auto simp: s_att_lib_def s_preorder_same_length list_all2_refl intro: list_all2_trans [rotated])

lemma s_indices_replicate: "s_indices (replicate n b) = (if b then [0..<n] else [])"
  by (auto simp: s_indices_def filter_empty_conv intro!: filter_True)

lemma s_cover_laws: "cover_laws s_att_lib"
  by (simp add: cover_laws_def s_att_lib_def s_indices_replicate)

lemma s_sort_laws: "sort_laws s_att_lib s_sort"
proof -
  have "sorted_wrt (\<lambda>a b. length (filter id (snd b)) \<le> length (filter id (snd a))) (s_sort xs)" for xs
    using sorted_sort_key [of "\<lambda>a. - int (length (filter id (snd a)))" xs]
    by (simp add: s_sort_def sorted_map)
  then show ?thesis by (simp add: sort_laws_def s_att_lib_def s_sort_def)
qed

lemma s_bits_convert: "bits_convert s_att_lib"
  by (simp add: bits_convert_def s_att_lib_def)

lemma s_data_ok: "data_ok s_att_lib"
  by (auto simp: data_ok_def s_att_lib_def)

lemma s_root: "root_of s_att_lib a = Some (fst a)"
  by (simp add: root_of_def s_att_lib_def)

section \<open>Blocks and the other libraries\<close>

text \<open>
  A signed block is a Capella block with its attestations; on the wire it is a string of two
  characters per attestation bit list, which is enough to make marshalling invertible.
\<close>

type_synonym s_block = "s_att list"

fun s_marshal_bits :: "bool list \<Rightarrow> string" where
  "s_marshal_bits [] = ''.''"
| "s_marshal_bits (b # bs) = (if b then CHR ''1'' else CHR ''0'') # s_marshal_bits bs"

fun s_marshal :: "s_block \<Rightarrow> string" where
  "s_marshal [] = []"
| "s_marshal ((n, bs) # as) = format_nat (unat n) @ CHR ''_'' # s_marshal_bits bs @ s_marshal as"

fun s_unmarshal_bits :: "string \<Rightarrow> (bool list \<times> string) option" where
  "s_unmarshal_bits [] = None"
| "s_unmarshal_bits (c # cs) =
     (if c = CHR ''.'' then Some ([], cs)
      else map_option (\<lambda>(bs, r). ((c = CHR ''1'') # bs, r)) (s_unmarshal_bits cs))"

fun s_unmarshal :: "nat \<Rightarrow> string \<Rightarrow> s_block option" where
  "s_unmarshal 0 s = None"
| "s_unmarshal (Suc k) s =
     (if s = [] then Some []
      else case SplitN2 CHR ''_'' s of
             [n, r] \<Rightarrow>
               (case s_unmarshal_bits r of
                  None \<Rightarrow> None
                | Some (bs, r') \<Rightarrow> map_option ((#) (word_of_nat (fst (ParseUint n)), bs)) (s_unmarshal k r'))
           | _ \<Rightarrow> None)"

definition s_decode :: "string \<Rightarrow> s_block option" where
  "s_decode s = s_unmarshal (Suc (length s)) s"

lemma s_unmarshal_bits_back: "s_unmarshal_bits (s_marshal_bits bs @ r) = Some (bs, r)"
  by (induction bs) auto

lemma underscore_not_digit: "CHR ''_'' \<notin> set (format_nat n)"
  using format_nat_digits digit_char_not_underscore by metis

lemma SplitN2_first: "c \<notin> set a \<Longrightarrow> SplitN2 c (a @ c # r) = [a, r]"
proof -
  assume "c \<notin> set a"
  then have "dropWhile (\<lambda>x. x \<noteq> c) (a @ c # r) = c # r" "takeWhile (\<lambda>x. x \<noteq> c) (a @ c # r) = a"
    by (subst dropWhile_append2 takeWhile_append2; auto)+
  then show ?thesis by (simp add: SplitN2_def)
qed

lemma s_unmarshal_marshal: "length as < k \<Longrightarrow> s_unmarshal k (s_marshal as) = Some as"
proof (induction as arbitrary: k)
  case Nil
  then show ?case by (cases k) simp_all
next
  case (Cons a as)
  obtain n bs where a: "a = (n, bs)" by (cases a)
  from Cons.prems obtain k' where k: "k = Suc k'" "length as < k'" by (cases k) auto
  have "unat n < 2 ^ 64" using unsigned_less [of n] by simp
  then have "ParseUint (format_nat (unat n)) = (unat n, None)" by (rule ParseUint_format_nat)
  with Cons.IH [OF k(2)] show ?case
    by (simp add: a k(1) SplitN2_first [OF underscore_not_digit] s_unmarshal_bits_back)
qed

lemma s_marshal_length: "length as \<le> length (s_marshal as)"
proof (induction as)
  case (Cons a as)
  then show ?case by (cases a) simp
qed simp

lemma s_decode_marshal: "s_decode (s_marshal b) = Some b"
  unfolding s_decode_def by (rule s_unmarshal_marshal) (use s_marshal_length [of b] in simp)

text \<open>The cache keeps everything; keys of the newest entries first.\<close>

definition s_lib ::
  "(s_att, u64, u64, bool list, bool list, bool list, s_block, s_block, s_block, s_block,
    (string \<times> int) list) api_lib" where
  "s_lib =
     \<lparr>lib_att = s_att_lib, lib_sortSlice = s_sort, lib_Aggregate = Some, lib_MaxAttestations = 128,
      lib_unmarshalSigned = s_decode, lib_marshalSigned = \<lambda>b. Some (s_marshal b),
      lib_signedBlock = BlockCapella, lib_setSignedCapella = \<lambda>c g. c,
      lib_capAttestations = Ret, lib_setCapAttestations = \<lambda>as c. as,
      lib_unmarshalGeneric = s_decode, lib_marshalGeneric = \<lambda>b. Some (s_marshal b),
      lib_genericBlock = BlockCapella,
      lib_lruAdd = \<lambda>k v c. (k, v) # c, lib_lruGet = \<lambda>k c. (map_of c k, c),
      lib_order = \<lambda>n m. rev [0..<m]\<rparr>"

lemma s_order: "is_order (lib_order s_lib n)"
  by (simp add: is_order_def s_lib_def)

section \<open>The node and the server\<close>

definition s_duty :: "string \<Rightarrow> string \<Rightarrow> json" where
  "s_duty idx slot = JObj [(''pubkey'', JStr ''0x''), (''validator_index'', JStr idx), (''slot'', JStr slot)]"

definition s_duty_rec :: "string \<Rightarrow> string \<Rightarrow> ProposerDuty" where
  "s_duty_rec idx slot = \<lparr>pd_Pubkey = ''0x'', pd_ValidatorIndex = idx, pd_Slot = slot\<rparr>"

text \<open>The proposers of slots 4 to 7 are the validators 1, 3, 2 and 3.\<close>

definition s_duties :: "ProposerDuty list" where
  "s_duties = [s_duty_rec ''1'' ''4'', s_duty_rec ''3'' ''5'', s_duty_rec ''2'' ''6'', s_duty_rec ''3'' ''7'']"

definition s_data :: "json \<Rightarrow> http_answer" where
  "s_data j = HttpBody (Some (JObj [(''data'', j)]))"

definition s_net :: "nat \<Rightarrow> http_request \<Rightarrow> http_answer" where
  "s_net n req =
     (case req of
        HttpGet url \<Rightarrow>
          if url = ''http://node/eth/v1/validator/duties/proposer/1'' then
            s_data (JArr [s_duty ''1'' ''4'', s_duty ''3'' ''5'', s_duty ''2'' ''6'', s_duty ''3'' ''7''])
          else if url = ''http://node/eth/v1/config/spec'' then
            s_data (JObj [(''SLOTS_PER_EPOCH'', JStr ''4''), (''SECONDS_PER_SLOT'', JStr ''2'')])
          else if url = ''http://node/eth/v1/beacon/headers'' then
            s_data (JArr [JObj [(''header'', JObj [(''message'', JObj [(''slot'', JStr ''6'')])])]])
          else HttpFailed
      | HttpPost url body \<Rightarrow> HttpFailed)"

definition s_env :: env where
  "s_env = \<lparr>env_net = s_net, env_order = \<lambda>n m. [0..<m]\<rparr>"

definition s_strategy :: Strategy where
  "s_strategy =
     \<lparr>st_Validators =
        [\<lparr>vst_ValidatorIndex = 1, vst_AttackerStartSlot = 0, vst_AttackerEndSlot = 100\<rparr>,
         \<lparr>vst_ValidatorIndex = 2, vst_AttackerStartSlot = 0, vst_AttackerEndSlot = 100\<rparr>],
      st_Block = defaultBlockStrategy, st_Attest = defaultAttestStrategy\<rparr>"

text \<open>Validators 1 and 3 are known, the configuration has been fetched.\<close>

definition s_vset :: "(s_att, s_block) ValidatorDataSet" where
  "s_vset = AddValidator 3 ''c3'' (AddValidator 1 ''a1'' NewValidatorSet)"

definition s_server :: "(s_att, s_block) server" where
  "s_server =
     \<lparr>gw_endpoint = ''node'', gw_config = [(''SLOTS_PER_EPOCH'', ''4''), (''SECONDS_PER_SLOT'', ''2'')],
      gw_clock = 0, srv_strategy = s_strategy,
      srv_validatorSetInfo = AddSignedAttestation 4 ''a1'' (4, [True, False]) s_vset\<rparr>"

definition s_world :: "(s_att, s_block, (string \<times> int) list) world" where
  "s_world = \<lparr>bw_srv = s_server, bw_cache = [], bw_sleeps = [], bw_ticks = 0\<rparr>"

lemma s_env_ok: "env_ok s_env"
  by (simp add: env_ok_def s_env_def)

lemma s_config: "config_has SLOTS_PER_EPOCH 4 s_server" "config_has SECONDS_PER_SLOT 2 s_server"
  by (simp_all add: config_has_def s_server_def SLOTS_PER_EPOCH_def SECONDS_PER_SLOT_def
      Atoi_def ParseInt_def ParseUint_def digit_val_def Let_def)

lemma s_duties_at: "duties_at s_env (s_server\<lparr>gw_clock := k\<rparr>) 1 = Inr s_duties"
proof -
  have "gw_url (s_server\<lparr>gw_clock := k\<rparr>) (''/eth/v1/validator/duties/proposer/'' @ FormatInt 1) =
      ''http://node/eth/v1/validator/duties/proposer/1''"
    by (simp add: gw_url_def s_server_def FormatInt_def format_nat.simps digit_char_def char_of_eqI)
  moreover have "env_net s_env k' (HttpGet ''http://node/eth/v1/validator/duties/proposer/1'') =
      s_data (JArr [s_duty ''1'' ''4'', s_duty ''3'' ''5'', s_duty ''2'' ''6'', s_duty ''3'' ''7''])" for k'
    by (simp add: s_env_def s_net_def)
  moreover have "unmarshal_or_fail (dec_list (dec_struct ProposerDuty_fields) zeroProposerDuty)
      (br_Data (fst (decode_response
        (s_data (JArr [s_duty ''1'' ''4'', s_duty ''3'' ''5'', s_duty ''2'' ''6'', s_duty ''3'' ''7'']))))) []
      = Inr s_duties"
    by code_simp
  ultimately show ?thesis by (simp add: duties_at_def)
qed

text \<open>A decoder that accepts everything, and a fresh world around a server.\<close>

definition s_one :: "string \<Rightarrow> s_att option" where
  "s_one d = Some (5, [True])"

definition s_start :: "(s_att, s_block) server \<Rightarrow> (s_att, s_block, (string \<times> int) list) world" where
  "s_start s = \<lparr>bw_srv = s, bw_cache = [], bw_sleeps = [], bw_ticks = 0\<rparr>"

lemma s_steady: "steady_duties s_env s_server 1 s_duties"
  by (simp add: steady_duties_def s_duties_at)

text \<open>Slot 4 is an attacker's but not the last one, slot 6 is the last attacker's.\<close>

lemma s_slots: "uint (4 :: u64) div 4 = 1" "uint (6 :: u64) div 4 = 1"
  by simp_all

lemma s_find: "find_duty s_duties 4 = Inr 1" "find_duty s_duties 6 = Inr 2"
  by (simp_all add: find_duty_def s_duties_def s_duty_rec_def ParseInt_def Atoi_def ParseUint_def digit_val_def
      Let_def u64_of_int_def)

lemma s_roles:
  "Strategy_GetValidatorRole (srv_strategy s_server) i slot =
     (if (i = 1 \<or> i = 2) \<and> 0 \<le> slot \<and> slot \<le> 100 then AttackerRole else NormalRole)"
  by (auto simp: s_server_def s_strategy_def Strategy_GetValidatorRole_def)

lemma s_latest: "0 \<le> slot \<Longrightarrow> slot \<le> 100 \<Longrightarrow> latest_attacker_slot (srv_strategy s_server) slot s_duties = 6"
proof -
  assume "0 \<le> slot" "slot \<le> 100"
  then have "attacker_duty_slots (srv_strategy s_server) slot s_duties = {4, 6}"
    by (simp add: attacker_duty_slots_filter s_roles s_duties_def s_duty_rec_def ParseInt_def Atoi_def ParseUint_def digit_val_def Let_def)
  then show ?thesis by (simp add: latest_attacker_slot_def)
qed

lemma s_header_any:
  assumes "gw_endpoint s = ''node''"
  shows "\<exists>h. GetLatestBeaconHeader s_env s = (Ret (Inr h), s\<lparr>gw_clock := Suc (gw_clock s)\<rparr>) \<and>
    msg_Slot (hdr_Message (hdi_Header h)) = ''6''"
proof -
  have url: "gw_url s ''/eth/v1/beacon/headers'' = ''http://node/eth/v1/beacon/headers''"
    by (simp add: gw_url_def assms)
  let ?a = "s_data (JArr [JObj [(''header'', JObj [(''message'', JObj [(''slot'', JStr ''6'')])])]])"
  have net: "env_net s_env k (HttpGet ''http://node/eth/v1/beacon/headers'') = ?a" for k
    by (simp add: s_env_def s_net_def)
  have "map_sum id (map (\<lambda>h. msg_Slot (hdr_Message (hdi_Header h))))
      (unmarshal_or_fail (dec_list (dec_struct BeaconHeaderInfo_fields) zeroBeaconHeaderInfo)
        (br_Data (fst (decode_response ?a))) []) = Inr [''6'']"
    by code_simp
  then obtain h where "unmarshal_or_fail (dec_list (dec_struct BeaconHeaderInfo_fields) zeroBeaconHeaderInfo)
      (br_Data (fst (decode_response ?a))) [] = Inr [h]" "msg_Slot (hdr_Message (hdi_Header h)) = ''6''"
    by (auto split: sum.splits simp: map_sum_def)
  with url net show ?thesis
    by (simp add: GetLatestBeaconHeader_def gbind_def doGet_run gret_run case_prod_unfold)
qed

lemma s_header:
  "\<exists>h. GetLatestBeaconHeader s_env (s_server\<lparr>gw_clock := k\<rparr>) = (Ret (Inr h), s_server\<lparr>gw_clock := Suc k\<rparr>) \<and>
     msg_Slot (hdr_Message (hdi_Header h)) = ''6''"
  using s_header_any [of "s_server\<lparr>gw_clock := k\<rparr>"] by (simp add: s_server_def)

lemma s_receiving: "receiving_turn (server_backend s_env) 6 (s_server\<lparr>gw_clock := k\<rparr>) =
    (Ret (LastAttacker 2), s_server\<lparr>gw_clock := Suc (Suc (Suc k))\<rparr>)"
proof -
  let ?s = "\<lambda>k. s_server\<lparr>gw_clock := k\<rparr>"
  obtain h where h: "GetLatestBeaconHeader s_env (?s (Suc k)) = (Ret (Inr h), ?s (Suc (Suc k)))"
    "msg_Slot (hdr_Message (hdi_Header h)) = ''6''"
    using s_header by blast
  have "current_epoch s_env (?s (Suc k)) = (Ret (Inr 1), ?s (Suc (Suc k)))"
    using h config_has_IntConfig [of SLOTS_PER_EPOCH 4 "?s (Suc (Suc k))" s_env] s_config(1)
    by (simp add: current_epoch_def gbind_def gret_run glift_run Atoi_def ParseInt_def ParseUint_def
        digit_val_def int_quot_pos)
  then have cur: "GetCurrentEpochProposeDuties s_env (?s (Suc k)) = (Ret (Inr s_duties), ?s (Suc (Suc (Suc k))))"
    using s_duties_at [of "Suc (Suc k)"]
    by (simp add: GetCurrentEpochProposeDuties_def GetCurrentEpochProposerDuties_def gbind_def
        GetProposerDuties_run duties_at_def)
  have who: "GetValidatorByProposeSlot s_env 6 (?s k) = (Ret (Inr 2), ?s (Suc k))"
    using GetValidatorByProposeSlot_run [of 4 "?s k" 6 s_env] s_config(1) s_duties_at [of k] s_find(2) by simp
  have role: "Server_GetValidatorRole s_env slot i (?s k') =
      (Ret (if (i = 1 \<or> i = 2) \<and> slot \<le> 100 then AttackerRole else NormalRole), ?s k')" if "0 \<le> slot" for slot i k'
    using that s_roles [of i slot] by (simp add: Server_GetValidatorRole_def)
  have "gfold (latest_val_step (server_backend s_env)) s_duties (-1) (?s k') = (Ret 2, ?s k')" for k'
    by (simp add: s_duties_def s_duty_rec_def latest_val_step_def Let_def gbind_def gret_run role
        Atoi_def ParseInt_def ParseUint_def digit_val_def)
  with who cur role show ?thesis
    by (simp add: receiving_turn_def gbind_def gret_run int_of_u64_nonneg)
qed

end
