(* ===== verification/Rpc_Json.thy ===== *)
theory Rpc_Json
  imports Go_Json
begin

text \<open>
  \<^verbatim>\<open>src/rpc/json.go\<close> and \<^verbatim>\<open>errors.go\<close>: JSON-RPC messages, their classification, the
  error values with their codes, and the parsing of messages and positional arguments. A raw
  message is the JSON value it holds (\<open>None\<close> for the nil slice), so two spellings of one value
  are the same id. Shown here: a message is of exactly one kind, a well-formed request or
  response survives being printed and parsed, and argument lists come out with one value per
  parameter or not at all.
\<close>

definition vsn :: string where
  "vsn = ''2.0''"

definition subscribeMethodSuffix :: string where
  "subscribeMethodSuffix = ''_subscribe''"

definition unsubscribeMethodSuffix :: string where
  "unsubscribeMethodSuffix = ''_unsubscribe''"

definition notificationMethodSuffix :: string where
  "notificationMethodSuffix = ''_subscription''"

record jsonError =
  je_Code :: int
  je_Message :: string
  je_Data :: "json option"

record jsonrpcMessage =
  jm_Version :: string
  jm_ID :: "json option"
  jm_Method :: string
  jm_Params :: "json option"
  jm_Error :: "jsonError option"
  jm_Result :: "json option"

record subscriptionResult =
  sr_ID :: string
  sr_Result :: "json option"

definition zeroMessage :: jsonrpcMessage where
  "zeroMessage =
     \<lparr>jm_Version = [], jm_ID = None, jm_Method = [], jm_Params = None, jm_Error = None, jm_Result = None\<rparr>"

section \<open>Kinds of messages\<close>

definition hasValidVersion :: "jsonrpcMessage \<Rightarrow> bool" where
  "hasValidVersion msg = (jm_Version msg = vsn)"

fun valid_id :: "json option \<Rightarrow> bool" where
  "valid_id None = False"
| "valid_id (Some (JObj _)) = False"
| "valid_id (Some (JArr _)) = False"
| "valid_id (Some _) = True"

definition hasValidID :: "jsonrpcMessage \<Rightarrow> bool" where
  "hasValidID msg = valid_id (jm_ID msg)"

definition isNotification :: "jsonrpcMessage \<Rightarrow> bool" where
  "isNotification msg = (hasValidVersion msg \<and> jm_ID msg = None \<and> jm_Method msg \<noteq> [])"

definition isCall :: "jsonrpcMessage \<Rightarrow> bool" where
  "isCall msg = (hasValidVersion msg \<and> hasValidID msg \<and> jm_Method msg \<noteq> [])"

definition isResponse :: "jsonrpcMessage \<Rightarrow> bool" where
  "isResponse msg =
     (hasValidVersion msg \<and> hasValidID msg \<and> jm_Method msg = [] \<and> jm_Params msg = None \<and>
      (jm_Result msg \<noteq> None \<or> jm_Error msg \<noteq> None))"

definition isSubscribe :: "jsonrpcMessage \<Rightarrow> bool" where
  "isSubscribe msg = HasSuffix (jm_Method msg) subscribeMethodSuffix"

definition isUnsubscribe :: "jsonrpcMessage \<Rightarrow> bool" where
  "isUnsubscribe msg = HasSuffix (jm_Method msg) unsubscribeMethodSuffix"

definition msg_namespace :: "jsonrpcMessage \<Rightarrow> string" where
  "msg_namespace msg = SplitN2 CHR ''_'' (jm_Method msg) ! 0"

section \<open>Errors\<close>

text \<open>\<open>PlainError\<close> is any other error value: it has a message and no code.\<close>

datatype rpc_error =
    NoHistoricalFallbackError
  | methodNotFoundError string
  | notificationsUnsupportedError
  | subscriptionNotFoundError string string
  | parseError string
  | invalidRequestError string
  | invalidMessageError string
  | invalidParamsError string
  | internalServerError int string
  | JsonError jsonError
  | PlainError string

definition errcodeDefault :: int where
  "errcodeDefault = -32000"

definition errcodeTimeout :: int where
  "errcodeTimeout = -32002"

definition errcodeResponseTooLarge :: int where
  "errcodeResponseTooLarge = -32003"

definition errcodePanic :: int where
  "errcodePanic = -32603"

definition errcodeMarshalError :: int where
  "errcodeMarshalError = -32603"

definition legacyErrcodeNotificationsUnsupported :: int where
  "legacyErrcodeNotificationsUnsupported = -32001"

text \<open>The \<^verbatim>\<open>ErrorCode\<close> method, for the values that have one.\<close>

fun ErrorCode :: "rpc_error \<Rightarrow> int option" where
  "ErrorCode NoHistoricalFallbackError = Some (-32801)"
| "ErrorCode (methodNotFoundError m) = Some (-32601)"
| "ErrorCode notificationsUnsupportedError = Some (-32601)"
| "ErrorCode (subscriptionNotFoundError n s) = Some (-32601)"
| "ErrorCode (parseError m) = Some (-32700)"
| "ErrorCode (invalidRequestError m) = Some (-32600)"
| "ErrorCode (invalidMessageError m) = Some (-32700)"
| "ErrorCode (invalidParamsError m) = Some (-32602)"
| "ErrorCode (internalServerError c m) = Some c"
| "ErrorCode (JsonError e) = Some (je_Code e)"
| "ErrorCode (PlainError m) = None"

text \<open>\<^verbatim>\<open>%q\<close> of a string of printable characters.\<close>

fun quote_chars :: "string \<Rightarrow> string" where
  "quote_chars [] = []"
| "quote_chars (c # cs) =
     (if c = CHR 0x22 \<or> c = CHR 0x5C then CHR 0x5C # c # quote_chars cs else c # quote_chars cs)"

definition Quote :: "string \<Rightarrow> string" where
  "Quote s = CHR 0x22 # quote_chars s @ [CHR 0x22]"

fun ErrorString :: "rpc_error \<Rightarrow> string" where
  "ErrorString NoHistoricalFallbackError =
     ''no historical RPC is available for this historical (pre-bedrock) execution request''"
| "ErrorString (methodNotFoundError m) = ''the method '' @ m @ '' does not exist/is not available''"
| "ErrorString notificationsUnsupportedError = ''notifications not supported''"
| "ErrorString (subscriptionNotFoundError n s) = ''no '' @ Quote s @ '' subscription in '' @ n @ '' namespace''"
| "ErrorString (parseError m) = m"
| "ErrorString (invalidRequestError m) = m"
| "ErrorString (invalidMessageError m) = m"
| "ErrorString (invalidParamsError m) = m"
| "ErrorString (internalServerError c m) = m"
| "ErrorString (JsonError e) =
     (if je_Message e = [] then ''json-rpc error '' @ FormatInt (je_Code e) else je_Message e)"
| "ErrorString (PlainError m) = m"

fun ErrorData :: "rpc_error \<Rightarrow> json option" where
  "ErrorData (JsonError e) = je_Data e"
| "ErrorData _ = None"

text \<open>\<^verbatim>\<open>notificationsUnsupportedError.Is\<close>.\<close>

definition is_notifications_unsupported :: "rpc_error \<Rightarrow> bool" where
  "is_notifications_unsupported other =
     (other = notificationsUnsupportedError \<or>
      (case ErrorCode other of
         Some code \<Rightarrow> code = -32601 \<or> code = legacyErrcodeNotificationsUnsupported
       | None \<Rightarrow> False))"

definition HTTPError_string :: "string \<Rightarrow> string \<Rightarrow> string" where
  "HTTPError_string status body = (if body = [] then status else status @ '': '' @ body)"

definition errorMessage :: "rpc_error \<Rightarrow> jsonrpcMessage" where
  "errorMessage err =
     \<lparr>jm_Version = vsn, jm_ID = Some JNull, jm_Method = [], jm_Params = None,
      jm_Error = Some \<lparr>je_Code = (case ErrorCode err of None \<Rightarrow> errcodeDefault | Some c \<Rightarrow> c),
                       je_Message = ErrorString err, je_Data = ErrorData err\<rparr>,
      jm_Result = None\<rparr>"

definition errorResponse :: "jsonrpcMessage \<Rightarrow> rpc_error \<Rightarrow> jsonrpcMessage" where
  "errorResponse msg err = (errorMessage err)\<lparr>jm_ID := jm_ID msg\<rparr>"

text \<open>The result of a method as \<^verbatim>\<open>json.Marshal\<close> gives it: a value or an error's text.\<close>

definition msg_response :: "jsonrpcMessage \<Rightarrow> string + json \<Rightarrow> jsonrpcMessage" where
  "msg_response msg result =
     (case result of
        Inl e \<Rightarrow> errorResponse msg (internalServerError errcodeMarshalError e)
      | Inr enc \<Rightarrow>
          \<lparr>jm_Version = vsn, jm_ID = jm_ID msg, jm_Method = [], jm_Params = None, jm_Error = None,
           jm_Result = Some enc\<rparr>)"

section \<open>Parsing messages\<close>

text \<open>A pointer to a struct and an \<^verbatim>\<open>interface{}\<close> as decoding targets.\<close>

fun dec_ptr :: "'a dec \<Rightarrow> 'a \<Rightarrow> 'a option dec" where
  "dec_ptr d zero JNull old = (None, False)"
| "dec_ptr d zero j old = (let (x, e) = d j (case old of None \<Rightarrow> zero | Some y \<Rightarrow> y) in (Some x, e))"

fun dec_any :: "json option dec" where
  "dec_any JNull old = (None, False)"
| "dec_any j old = (Some j, False)"

definition zeroJsonError :: jsonError where
  "zeroJsonError = \<lparr>je_Code = 0, je_Message = [], je_Data = None\<rparr>"

definition jsonError_fields :: "(string \<times> jsonError dec) list" where
  "jsonError_fields =
     [(''code'', dec_on je_Code je_Code_update dec_int),
      (''message'', dec_on je_Message je_Message_update dec_string),
      (''data'', dec_on je_Data je_Data_update dec_any)]"

definition jsonrpcMessage_fields :: "(string \<times> jsonrpcMessage dec) list" where
  "jsonrpcMessage_fields =
     [(''jsonrpc'', dec_on jm_Version jm_Version_update dec_string),
      (''id'', dec_on jm_ID jm_ID_update dec_raw),
      (''method'', dec_on jm_Method jm_Method_update dec_string),
      (''params'', dec_on jm_Params jm_Params_update dec_raw),
      (''error'', dec_on jm_Error jm_Error_update (dec_ptr (dec_struct jsonError_fields) zeroJsonError)),
      (''result'', dec_on jm_Result jm_Result_update dec_raw)]"

definition subscriptionResult_fields :: "(string \<times> subscriptionResult dec) list" where
  "subscriptionResult_fields =
     [(''subscription'', dec_on sr_ID sr_ID_update dec_string),
      (''result'', dec_on sr_Result sr_Result_update dec_raw)]"

definition isBatch :: "json \<Rightarrow> bool" where
  "isBatch raw = (case raw of JArr _ \<Rightarrow> True | _ \<Rightarrow> False)"

text \<open>\<^verbatim>\<open>isBatch\<close> on the raw bytes: the first byte that is not white space.\<close>

fun isBatch_bytes :: "string \<Rightarrow> bool" where
  "isBatch_bytes [] = False"
| "isBatch_bytes (c # cs) =
     (if c = CHR 0x20 \<or> c = CHR 0x09 \<or> c = CHR 0x0A \<or> c = CHR 0x0D then isBatch_bytes cs
      else c = CHR ''['')"

text \<open>A JSON null makes the message pointer nil; \<^verbatim>\<open>readBatch\<close> puts a zero message there.\<close>

definition parse_one :: "json \<Rightarrow> jsonrpcMessage option" where
  "parse_one raw = (case raw of JNull \<Rightarrow> None | _ \<Rightarrow> Some (fst (dec_struct jsonrpcMessage_fields raw zeroMessage)))"

definition parseMessage :: "json \<Rightarrow> jsonrpcMessage option list \<times> bool" where
  "parseMessage raw =
     (case raw of JArr js \<Rightarrow> (map parse_one js, True) | _ \<Rightarrow> ([parse_one raw], False))"

definition readBatch :: "json \<Rightarrow> jsonrpcMessage list \<times> bool" where
  "readBatch raw =
     (let (messages, batch) = parseMessage raw
      in (map (\<lambda>m. case m of None \<Rightarrow> zeroMessage | Some msg \<Rightarrow> msg) messages, batch))"

section \<open>Parsing arguments\<close>

text \<open>
  A parameter type is what decoding and reflection show of it: whether it is a pointer, and
  the decoder's verdict on a value (an error's text or the value).
\<close>

record 'v param_type =
  pt_isPtr :: bool
  pt_decode :: "json \<Rightarrow> string + 'v"
  pt_zero :: 'v

fun parseArgumentArray :: "json list \<Rightarrow> 'v param_type list \<Rightarrow> 'v list \<Rightarrow> string + 'v list" where
  "parseArgumentArray [] types args = Inr args"
| "parseArgumentArray (j # js) types args =
     (if length args \<ge> length types then Inl (''too many arguments, want at most '' @ format_nat (length types))
      else case pt_decode (types ! length args) j of
             Inl e \<Rightarrow> Inl (''invalid argument '' @ format_nat (length args) @ '': '' @ e)
           | Inr v \<Rightarrow> parseArgumentArray js types (args @ [v]))"

fun fill_missing :: "'v param_type list \<Rightarrow> 'v list \<Rightarrow> string + 'v list" where
  "fill_missing [] args = Inr args"
| "fill_missing (t # ts) args =
     (if \<not> pt_isPtr t then Inl (''missing value for required argument '' @ format_nat (length args))
      else fill_missing ts (args @ [pt_zero t]))"

definition parsePositionalArguments :: "json option \<Rightarrow> 'v param_type list \<Rightarrow> string + 'v list" where
  "parsePositionalArguments rawArgs types =
     (let r = (case rawArgs of
                 None \<Rightarrow> Inr []
               | Some JNull \<Rightarrow> Inr []
               | Some (JArr js) \<Rightarrow> parseArgumentArray js types []
               | Some _ \<Rightarrow> Inl ''non-array args'')
      in case r of Inl e \<Rightarrow> Inl e | Inr args \<Rightarrow> fill_missing (drop (length args) types) args)"

definition parseSubscriptionName :: "json option \<Rightarrow> string + string" where
  "parseSubscriptionName rawArgs =
     (case rawArgs of
        Some (JArr (JStr name # _)) \<Rightarrow> Inr name
      | Some (JArr _) \<Rightarrow> Inl ''expected subscription name as first argument''
      | _ \<Rightarrow> Inl ''non-array args'')"

section \<open>Printing messages\<close>

text \<open>\<^verbatim>\<open>json.Marshal\<close> of a message: empty fields are left out.\<close>

definition jsonError_json :: "jsonError \<Rightarrow> json" where
  "jsonError_json e =
     JObj ([(''code'', JNum (FormatInt (je_Code e))), (''message'', JStr (je_Message e))] @
           (case je_Data e of None \<Rightarrow> [] | Some d \<Rightarrow> [(''data'', d)]))"

definition opt_field :: "string \<Rightarrow> json option \<Rightarrow> (string \<times> json) list" where
  "opt_field k x = (case x of None \<Rightarrow> [] | Some j \<Rightarrow> [(k, j)])"

definition str_field :: "string \<Rightarrow> string \<Rightarrow> (string \<times> json) list" where
  "str_field k s = (if s = [] then [] else [(k, JStr s)])"

definition message_json :: "jsonrpcMessage \<Rightarrow> json" where
  "message_json m =
     JObj (str_field ''jsonrpc'' (jm_Version m) @ opt_field ''id'' (jm_ID m) @
           str_field ''method'' (jm_Method m) @ opt_field ''params'' (jm_Params m) @
           opt_field ''error'' (map_option jsonError_json (jm_Error m)) @ opt_field ''result'' (jm_Result m))"

section \<open>Facts\<close>

lemma isSubscribe_not_both: "\<not> (isSubscribe m \<and> isUnsubscribe m)"
  by (auto simp: isSubscribe_def isUnsubscribe_def HasSuffix_iff subscribeMethodSuffix_def
      unsubscribeMethodSuffix_def append_eq_append_conv2 append_eq_Cons_conv Cons_eq_append_conv)

lemma message_kinds:
  "\<not> (isNotification m \<and> isCall m)" "\<not> (isNotification m \<and> isResponse m)" "\<not> (isCall m \<and> isResponse m)"
  by (cases "jm_ID m"; auto simp: isNotification_def isCall_def isResponse_def hasValidID_def)+

lemma jsonError_decode:
  assumes "is_i64 (je_Code e)" and "je_Data e \<noteq> Some JNull"
  shows "dec_struct jsonError_fields (jsonError_json e) zeroJsonError = (e, False)"
proof -
  have "je_Data e = Some d \<Longrightarrow> dec_any d None = (Some d, False)" for d using assms(2) by (cases d) simp_all
  then show ?thesis
    using assms(1)
    by (cases e) (auto simp: jsonError_fields_def jsonError_json_def zeroJsonError_def find_field_def dec_on_def
        ParseInt_FormatInt split: option.split)
qed

lemma message_struct:
  assumes "\<And>e. jm_Error m = Some e \<Longrightarrow> is_i64 (je_Code e) \<and> je_Data e \<noteq> Some JNull"
  shows "dec_struct jsonrpcMessage_fields (message_json m) zeroMessage = (m, False)"
proof -
  have "dec_ptr (dec_struct jsonError_fields) zeroJsonError (jsonError_json e) None = (Some e, False)"
    if "jm_Error m = Some e" for e
    using jsonError_decode [of e] assms [OF that] by (simp add: jsonError_json_def)
  then show ?thesis
    by (cases m) (auto simp: message_json_def zeroMessage_def jsonrpcMessage_fields_def
        str_field_def opt_field_def find_field_def dec_on_def split: option.split)
qed

lemma message_decode:
  assumes "\<And>e. jm_Error m = Some e \<Longrightarrow> is_i64 (je_Code e) \<and> je_Data e \<noteq> Some JNull"
  shows "parse_one (message_json m) = Some m"
  using message_struct [OF assms] by (simp add: parse_one_def message_json_def)

lemma parseArgumentArray_length:
  "parseArgumentArray js types args = Inr vs \<Longrightarrow> length vs = length args + length js \<and>
     (js \<noteq> [] \<longrightarrow> length vs \<le> length types)"
  by (induction js types args rule: parseArgumentArray.induct)
    (auto split: if_splits sum.splits)

lemma fill_missing_length: "fill_missing ts args = Inr vs \<Longrightarrow> length vs = length args + length ts"
  by (induction ts args rule: fill_missing.induct) (auto split: if_splits)

lemma parseArgumentArray_nth:
  "parseArgumentArray js types args = Inr vs \<Longrightarrow> length args \<le> length types \<Longrightarrow>
   length vs = length args + length js \<and> length vs \<le> length types \<and> take (length args) vs = args \<and>
   (\<forall>k < length js. pt_decode (types ! (length args + k)) (js ! k) = Inr (vs ! (length args + k)))"
proof (induction js types args rule: parseArgumentArray.induct)
  case (2 j js types args)
  then obtain v where v: "length args < length types" "pt_decode (types ! length args) j = Inr v"
    "parseArgumentArray js types (args @ [v]) = Inr vs"
    by (auto split: if_splits sum.splits)
  then have IH: "length vs = Suc (length args + length js)" "length vs \<le> length types" "take (Suc (length args)) vs = args @ [v]"
    "\<forall>k < length js. pt_decode (types ! Suc (length args + k)) (js ! k) = Inr (vs ! Suc (length args + k))"
    using "2.IH" by auto
  have t: "take (length args) vs = args" using IH(3) by (metis butlast_snoc butlast_take diff_Suc_1 IH(1) Suc_leI le_add1 less_Suc_eq_le)
  have "vs ! length args = v" using IH(1,3) by (metis lessI nth_append_length nth_take)
  with v(2) IH(4) have "pt_decode (types ! (length args + k)) ((j # js) ! k) = Inr (vs ! (length args + k))"
    if "k < length (j # js)" for k using that by (cases k) auto
  with IH(1,2) t show ?case by simp
qed simp

lemma fill_missing_nth:
  "fill_missing ts args = Inr vs \<Longrightarrow> vs = args @ map pt_zero ts \<and> list_all pt_isPtr ts"
  by (induction ts args rule: fill_missing.induct) (auto split: if_splits)

lemma parsePositionalArguments_length:
  assumes "parsePositionalArguments raw types = Inr vs"
  shows "length vs = length types"
proof -
  from assms obtain args where a: "fill_missing (drop (length args) types) args = Inr vs"
    and "args = [] \<or> (\<exists>js. parseArgumentArray js types [] = Inr args)"
    by (auto simp: parsePositionalArguments_def Let_def split: option.splits json.splits sum.splits)
      (metis drop0 list.size(3))+
  then have "length args \<le> length types"
    using parseArgumentArray_length by (metis append_Nil2 le0 list.size(3) add.right_neutral add_0)
  with fill_missing_length [OF a] show ?thesis by simp
qed

end
