(* ===== verification/Rpc_Service.thy ===== *)
theory Rpc_Service
  imports Rpc_Json
begin

text \<open>
  \<^verbatim>\<open>src/rpc/service.go\<close>: the registry of services and the calling of methods found by
  reflection. A Go type is what reflection tells the registry of it; a method is its name, its
  parameter and result types and a computation over the state \<open>'s\<close> of the services. A panic
  of a method is caught and becomes an error, with the state as the method left it.

  The locale \<open>directory\<close> is the contract of the registry (what a lookup finds after a
  registration); \<open>serviceRegistry\<close> interprets it.
\<close>

text \<open>The flag of a type says whether it implements \<^verbatim>\<open>error\<close>.\<close>

datatype 'v go_type =
    TContext
  | TError
  | TSubscription
  | TPtr bool "'v go_type" "'v param_type"
  | TOther bool "'v param_type"

text \<open>What a call returns: the encodings of its results that are not errors, and its error.\<close>

type_synonym fn_result = "(string + json) list \<times> rpc_error option"

record ('v, 's) go_method =
  gm_Name :: string
  gm_exported :: bool
  gm_In :: "'v go_type list"
  gm_Out :: "'v go_type list"
  gm_Func :: "'v list \<Rightarrow> ('s, fn_result) gom"

record ('v, 's) callback =
  cb_fn :: "'v list \<Rightarrow> ('s, fn_result) gom"
  cb_argTypes :: "'v go_type list"
  cb_hasCtx :: bool
  cb_errPos :: int
  cb_isSubscribe :: bool

record ('v, 's) service =
  svc_name :: string
  svc_callbacks :: "string \<Rightarrow> ('v, 's) callback option"
  svc_subscriptions :: "string \<Rightarrow> ('v, 's) callback option"

type_synonym ('v, 's) serviceRegistry = "string \<Rightarrow> ('v, 's) service option"

section \<open>Reflection\<close>

fun isErrorType :: "'v go_type \<Rightarrow> bool" where
  "isErrorType TError = True"
| "isErrorType (TPtr impl _ _) = impl"
| "isErrorType (TOther impl _) = impl"
| "isErrorType _ = False"

fun isContextType :: "'v go_type \<Rightarrow> bool" where
  "isContextType TContext = True"
| "isContextType _ = False"

fun isSubscriptionType :: "'v go_type \<Rightarrow> bool" where
  "isSubscriptionType (TPtr impl t _) = isSubscriptionType t"
| "isSubscriptionType TSubscription = True"
| "isSubscriptionType _ = False"

definition isPubSub :: "'v go_type list \<Rightarrow> 'v go_type list \<Rightarrow> bool" where
  "isPubSub ins outs =
     (if length ins < 2 \<or> length outs \<noteq> 2 then False
      else isContextType (ins ! 1) \<and> isSubscriptionType (outs ! 0) \<and> isErrorType (outs ! 1))"

text \<open>Only ordinary types and pointers decode from JSON.\<close>

fun param_of :: "'v \<Rightarrow> 'v go_type \<Rightarrow> 'v param_type" where
  "param_of z (TPtr impl t p) = p"
| "param_of z (TOther impl p) = p"
| "param_of z _ = \<lparr>pt_isPtr = False, pt_decode = \<lambda>j. Inl ''cannot unmarshal'', pt_zero = z\<rparr>"

text \<open>\<^verbatim>\<open>makeArgTypes\<close>: skip the receiver and a leading context.\<close>

definition makeArgTypes :: "bool \<Rightarrow> 'v go_type list \<Rightarrow> bool \<times> 'v go_type list" where
  "makeArgTypes hasRcvr ins =
     (let firstArg = (if hasRcvr then 1 else 0);
          hasCtx = (length ins > firstArg \<and> isContextType (ins ! firstArg));
          firstArg' = (if hasCtx then firstArg + 1 else firstArg)
      in (hasCtx, drop firstArg' ins))"

definition newCallback ::
  "bool \<Rightarrow> 'v go_type list \<Rightarrow> 'v go_type list \<Rightarrow> ('v list \<Rightarrow> ('s, fn_result) gom) \<Rightarrow>
     ('v, 's) callback option" where
  "newCallback hasRcvr ins outs fn =
     (let (hasCtx, argTypes) = makeArgTypes hasRcvr ins;
          c = \<lparr>cb_fn = fn, cb_argTypes = argTypes, cb_hasCtx = hasCtx, cb_errPos = -1,
               cb_isSubscribe = isPubSub ins outs\<rparr>
      in if length outs > 2 then None
         else if length outs = 1 \<and> isErrorType (outs ! 0) then Some (c\<lparr>cb_errPos := 0\<rparr>)
         else if length outs = 2 then
           (if isErrorType (outs ! 0) \<or> \<not> isErrorType (outs ! 1) then None else Some (c\<lparr>cb_errPos := 1\<rparr>))
         else Some c)"

definition formatName :: "string \<Rightarrow> string" where
  "formatName name = (case name of [] \<Rightarrow> [] | c # cs \<Rightarrow> lower_char c # cs)"

definition method_callback :: "('v, 's) go_method \<Rightarrow> ('v, 's) callback option" where
  "method_callback m = (if gm_exported m then newCallback True (gm_In m) (gm_Out m) (gm_Func m) else None)"

definition suitableCallbacks :: "('v, 's) go_method list \<Rightarrow> (string \<times> ('v, 's) callback) list" where
  "suitableCallbacks methods =
     fold (\<lambda>m callbacks. case method_callback m of
                           None \<Rightarrow> callbacks
                         | Some cb \<Rightarrow> alist_put (formatName (gm_Name m)) cb callbacks) methods []"

section \<open>The registry\<close>

definition add_callback :: "string \<times> ('v, 's) callback \<Rightarrow> ('v, 's) service \<Rightarrow> ('v, 's) service" where
  "add_callback e svc =
     (let (name, cb) = e
      in if cb_isSubscribe cb then svc\<lparr>svc_subscriptions := (svc_subscriptions svc)(name \<mapsto> cb)\<rparr>
         else svc\<lparr>svc_callbacks := (svc_callbacks svc)(name \<mapsto> cb)\<rparr>)"

definition registerName ::
  "string \<Rightarrow> ('v, 's) go_method list \<Rightarrow> ('v, 's) serviceRegistry \<Rightarrow> string + ('v, 's) serviceRegistry" where
  "registerName name rcvr r =
     (if name = [] then Inl ''no service name for type''
      else let callbacks = suitableCallbacks rcvr
           in if callbacks = [] then Inl ''service doesn't have any suitable methods/subscriptions to expose''
              else let svc = (case r name of
                                None \<Rightarrow> \<lparr>svc_name = name, svc_callbacks = Map.empty, svc_subscriptions = Map.empty\<rparr>
                              | Some svc \<Rightarrow> svc)
                   in Inr (r(name \<mapsto> fold add_callback callbacks svc)))"

definition registry_callback :: "('v, 's) serviceRegistry \<Rightarrow> string \<Rightarrow> ('v, 's) callback option" where
  "registry_callback r method =
     (let elem = SplitN2 CHR ''_'' method
      in if length elem \<noteq> 2 then None
         else Option.bind (r (elem ! 0)) (\<lambda>svc. svc_callbacks svc (elem ! 1)))"

definition registry_subscription ::
  "('v, 's) serviceRegistry \<Rightarrow> string \<Rightarrow> string \<Rightarrow> ('v, 's) callback option" where
  "registry_subscription r sv name = Option.bind (r sv) (\<lambda>svc. svc_subscriptions svc name)"

section \<open>Calling\<close>

text \<open>
  The results of a call: its error if it has one and it is not nil, otherwise the first
  result. A method whose only result is an error gives null.
\<close>

definition call_results :: "int \<Rightarrow> fn_result \<Rightarrow> rpc_error + (string + json)" where
  "call_results errPos res =
     (let (vals, err) = res
      in case (if errPos \<ge> 0 then err else None) of
           Some e \<Rightarrow> Inl e
         | None \<Rightarrow> Inr (case vals of [] \<Rightarrow> Inr JNull | v # _ \<Rightarrow> v))"

definition callback_call :: "('v, 's) callback \<Rightarrow> 'v list \<Rightarrow> ('s, rpc_error + (string + json)) gom" where
  "callback_call c args s =
     (case cb_fn c args s of
        (Ret res, t) \<Rightarrow> (Ret (call_results (cb_errPos c) res), t)
      | (Panic p, t) \<Rightarrow> (Ret (Inl (internalServerError errcodePanic ''method handler crashed'')), t)
      | (Hang, t) \<Rightarrow> (Hang, t))"

section \<open>Facts\<close>

lemma SplitN2_underscore: "CHR ''_'' \<notin> set a \<Longrightarrow> SplitN2 CHR ''_'' (a @ CHR ''_'' # b) = [a, b]"
proof -
  assume "CHR ''_'' \<notin> set a"
  then have "dropWhile (\<lambda>x. x \<noteq> CHR ''_'') (a @ CHR ''_'' # b) = CHR ''_'' # b"
    "takeWhile (\<lambda>x. x \<noteq> CHR ''_'') (a @ CHR ''_'' # b) = a"
    by (subst dropWhile_append2 takeWhile_append2; auto)+
  then show ?thesis by (simp add: SplitN2_def)
qed

lemma registry_callback_split:
  "CHR ''_'' \<notin> set ns \<Longrightarrow> registry_callback r (ns @ CHR ''_'' # m) = Option.bind (r ns) (\<lambda>svc. svc_callbacks svc m)"
  by (simp add: registry_callback_def SplitN2_underscore)

lemma newCallback_outs:
  assumes "newCallback hasRcvr ins outs fn = Some cb"
  shows "length outs \<le> 2 \<and> -1 \<le> cb_errPos cb \<and> cb_errPos cb < int (length outs) \<and>
    (cb_errPos cb \<ge> 0 \<longrightarrow> isErrorType (outs ! nat (cb_errPos cb)) \<and> cb_errPos cb = int (length outs) - 1) \<and>
    (cb_errPos cb = -1 \<longrightarrow> list_all (\<lambda>t. \<not> isErrorType t) outs)"
  using assms
  by (cases outs; cases "tl outs"; cases "tl (tl outs)")
    (auto simp: newCallback_def Let_def split: if_splits prod.splits)

text \<open>The callback that a list of methods ends up with under a name: the last suitable one.\<close>

definition last_callback :: "('v, 's) go_method list \<Rightarrow> string \<Rightarrow> ('v, 's) callback option" where
  "last_callback methods name =
     map_option (the \<circ> method_callback)
       (find (\<lambda>m. formatName (gm_Name m) = name \<and> method_callback m \<noteq> None) (rev methods))"

lemma suitableCallbacks_snoc:
  "suitableCallbacks (ms @ [m]) =
     (case method_callback m of None \<Rightarrow> suitableCallbacks ms
      | Some cb \<Rightarrow> alist_put (formatName (gm_Name m)) cb (suitableCallbacks ms))"
  by (simp add: suitableCallbacks_def split: option.split)

lemma map_of_suitableCallbacks: "map_of (suitableCallbacks ms) name = last_callback ms name"
proof (induction ms rule: rev_induct)
  case Nil
  show ?case by (simp add: suitableCallbacks_def last_callback_def)
next
  case (snoc m ms)
  then show ?case by (auto simp: suitableCallbacks_snoc last_callback_def split: option.split)
qed

lemma distinct_suitableCallbacks: "distinct (map fst (suitableCallbacks ms))"
  by (induction ms rule: rev_induct)
    (simp_all add: suitableCallbacks_snoc distinct_alist_put split: option.split, simp add: suitableCallbacks_def)

lemma fold_add_callback:
  assumes "distinct (map fst cbs)"
  shows "svc_callbacks (fold add_callback cbs svc) name =
    (case map_of cbs name of
       Some cb \<Rightarrow> if cb_isSubscribe cb then svc_callbacks svc name else Some cb
     | None \<Rightarrow> svc_callbacks svc name)"
  using assms
proof (induction cbs arbitrary: svc)
  case (Cons e cbs)
  obtain k cb where e: "e = (k, cb)" by (cases e)
  with Cons.prems have "map_of cbs k = None" by (simp add: map_of_eq_None_iff)
  with Cons e show ?case by (auto simp: add_callback_def split: option.split)
qed simp

lemma registerName_callback:
  assumes "registerName name ms r = Inr r'" and "last_callback ms m = Some cb" and "\<not> cb_isSubscribe cb"
    and "CHR ''_'' \<notin> set name"
  shows "registry_callback r' (name @ CHR ''_'' # m) = Some cb"
  using assms
  by (auto simp: registerName_def Let_def registry_callback_split fold_add_callback [OF distinct_suitableCallbacks]
      map_of_suitableCallbacks split: if_splits)

lemma registerName_other:
  assumes "registerName name ms r = Inr r'" and "CHR ''_'' \<notin> set name'" and "name' \<noteq> name"
  shows "registry_callback r' (name' @ CHR ''_'' # m) = registry_callback r (name' @ CHR ''_'' # m)"
  using assms by (auto simp: registerName_def Let_def registry_callback_split split: if_splits)

section \<open>The contract of the registry\<close>

locale directory =
  fixes register :: "string \<Rightarrow> 'm list \<Rightarrow> 'r \<Rightarrow> string + 'r"
    and lookup :: "'r \<Rightarrow> string \<Rightarrow> 'c option"
    and provides :: "'m list \<Rightarrow> string \<Rightarrow> 'c option"
    and plain :: "'c \<Rightarrow> bool"
  assumes found: "register name ms r = Inr r' \<Longrightarrow> provides ms m = Some c \<Longrightarrow> plain c \<Longrightarrow>
      CHR ''_'' \<notin> set name \<Longrightarrow> lookup r' (name @ CHR ''_'' # m) = Some c"
    and others: "register name ms r = Inr r' \<Longrightarrow> CHR ''_'' \<notin> set name' \<Longrightarrow> name' \<noteq> name \<Longrightarrow>
      lookup r' (name' @ CHR ''_'' # m) = lookup r (name' @ CHR ''_'' # m)"
begin

text \<open>Registering a list of services, one after the other, stopping at the first error.\<close>

fun register_all :: "(string \<times> 'm list) list \<Rightarrow> 'r \<Rightarrow> string + 'r" where
  "register_all [] r = Inr r"
| "register_all ((name, ms) # apis) r =
     (case register name ms r of Inl e \<Rightarrow> Inl e | Inr r' \<Rightarrow> register_all apis r')"

lemma register_all_others:
  "register_all apis r = Inr r' \<Longrightarrow> CHR ''_'' \<notin> set name \<Longrightarrow> name \<notin> fst ` set apis \<Longrightarrow>
   lookup r' (name @ CHR ''_'' # m) = lookup r (name @ CHR ''_'' # m)"
  by (induction apis r rule: register_all.induct) (auto simp: others split: sum.splits)

lemma register_all_found:
  assumes "register_all apis r = Inr r'" and "distinct (map fst apis)" and "(name, ms) \<in> set apis"
    and "provides ms m = Some c" and "plain c" and "CHR ''_'' \<notin> set name"
  shows "lookup r' (name @ CHR ''_'' # m) = Some c"
  using assms(1-3)
proof (induction apis r rule: register_all.induct)
  case (2 name' ms' apis r)
  then obtain r1 where r1: "register name' ms' r = Inr r1" "register_all apis r1 = Inr r'"
    by (auto split: sum.splits)
  show ?case
  proof (cases "name = name'")
    case True
    with "2.prems" have "ms = ms'" "name \<notin> fst ` set apis" by (auto simp: rev_image_eqI)
    then show ?thesis
      using register_all_others [OF r1(2) assms(6)] found [OF r1(1) _ assms(5)] assms(4,6) True by simp
  next
    case False
    with "2.prems" "2.IH" [OF r1(1)] r1 show ?thesis by auto
  qed
qed simp

end

interpretation registry: directory registerName registry_callback last_callback "\<lambda>cb. \<not> cb_isSubscribe cb"
  by unfold_locales (rule registerName_callback registerName_other; assumption)+

lemma callback_call_returns:
  assumes "fst (cb_fn c args s) \<noteq> Hang"
  shows "\<exists>r t. callback_call c args s = (Ret r, t) \<and> t = snd (cb_fn c args s)"
  using assms by (auto simp: callback_call_def split: prod.split outcome.split)

end
