(* ===== verification/Rpc_Handler.thy ===== *)
theory Rpc_Handler
  imports Rpc_Service
begin

text \<open>
  \<^verbatim>\<open>src/rpc/handler.go\<close>, serving: how one call message becomes an answer. The state is the
  state of the services, the identifiers of the subscriptions that are active on the
  connection, and the number of notifiers the running call has created. What comes from
  elsewhere (the registry, limits, the decoder of a subscription identifier, the subscription
  a notifier holds) is the record \<open>hconf\<close>. Metrics and logging are left out.

  Shown here: a call is answered once, with its own id; a notification never; a crashed method
  is an error and not the end of the connection.
\<close>

record 's hstate =
  hs_app :: 's
  hs_serverSubs :: "string list"
  hs_notifiers :: nat

record ('v, 's) hconf =
  hc_reg :: "('v, 's) serviceRegistry"
  hc_allowSubscribe :: bool
  hc_batchRequestLimit :: int
  hc_batchResponseMaxSize :: int
  hc_idType :: "'v param_type"
  hc_idOf :: "'v \<Rightarrow> string"
  hc_stringType :: "'v param_type"
  hc_subOf :: "'s \<Rightarrow> nat \<Rightarrow> string option"
  hc_resultLen :: "json \<Rightarrow> int"
  hc_zero :: 'v

definition on_app :: "('s, 'a) gom \<Rightarrow> ('s hstate, 'a) gom" where
  "on_app m h = (let (r, s) = m (hs_app h) in (r, h\<lparr>hs_app := s\<rparr>))"

section \<open>Calls\<close>

definition runMethod ::
  "jsonrpcMessage \<Rightarrow> ('v, 's) callback \<Rightarrow> 'v list \<Rightarrow> ('s hstate, jsonrpcMessage) gom" where
  "runMethod msg callb args =
     gbind (on_app (callback_call callb args)) (\<lambda>r.
     gret (case r of Inl err \<Rightarrow> errorResponse msg err | Inr result \<Rightarrow> msg_response msg result))"

text \<open>The built-in callback of every \<^verbatim>\<open>_unsubscribe\<close> method.\<close>

definition unsubscribe :: "string \<Rightarrow> ('s hstate, rpc_error + bool) gom" where
  "unsubscribe subId =
     gbind (gread hs_serverSubs) (\<lambda>subs.
     if subId \<notin> set subs then gret (Inl (PlainError ''subscription not found''))
     else gbind (gmodify (hs_serverSubs_update (filter (\<lambda>i. i \<noteq> subId)))) (\<lambda>_. gret (Inr True)))"

definition handleSubscribe :: "('v, 's) hconf \<Rightarrow> jsonrpcMessage \<Rightarrow> ('s hstate, jsonrpcMessage) gom" where
  "handleSubscribe H msg =
     (if \<not> hc_allowSubscribe H then gret (errorResponse msg notificationsUnsupportedError)
      else case parseSubscriptionName (jm_Params msg) of
        Inl e \<Rightarrow> gret (errorResponse msg (invalidParamsError e))
      | Inr name \<Rightarrow>
          (case registry_subscription (hc_reg H) (msg_namespace msg) name of
             None \<Rightarrow> gret (errorResponse msg (subscriptionNotFoundError (msg_namespace msg) name))
           | Some callb \<Rightarrow>
               (case parsePositionalArguments (jm_Params msg)
                       (hc_stringType H # map (param_of (hc_zero H)) (cb_argTypes callb)) of
                  Inl e \<Rightarrow> gret (errorResponse msg (invalidParamsError e))
                | Inr args \<Rightarrow>
                    gbind (gmodify (hs_notifiers_update Suc)) (\<lambda>_. runMethod msg callb (tl args)))))"

definition handleCall :: "('v, 's) hconf \<Rightarrow> jsonrpcMessage \<Rightarrow> ('s hstate, jsonrpcMessage) gom" where
  "handleCall H msg =
     (if isSubscribe msg then handleSubscribe H msg
      else if isUnsubscribe msg then
        (case parsePositionalArguments (jm_Params msg) [hc_idType H] of
           Inl e \<Rightarrow> gret (errorResponse msg (invalidParamsError e))
         | Inr args \<Rightarrow>
             gbind (unsubscribe (hc_idOf H (hd args))) (\<lambda>r.
             gret (case r of Inl err \<Rightarrow> errorResponse msg err
                   | Inr b \<Rightarrow> msg_response msg (Inr (JBool b)))))
      else case registry_callback (hc_reg H) (jm_Method msg) of
        None \<Rightarrow> gret (errorResponse msg (methodNotFoundError (jm_Method msg)))
      | Some callb \<Rightarrow>
          (case parsePositionalArguments (jm_Params msg) (map (param_of (hc_zero H)) (cb_argTypes callb)) of
             Inl e \<Rightarrow> gret (errorResponse msg (invalidParamsError e))
           | Inr args \<Rightarrow> runMethod msg callb args))"

text \<open>\<open>None\<close>: no answer, which is the case of a notification.\<close>

definition handleCallMsg ::
  "('v, 's) hconf \<Rightarrow> jsonrpcMessage \<Rightarrow> ('s hstate, jsonrpcMessage option) gom" where
  "handleCallMsg H msg =
     (if isNotification msg then gbind (handleCall H msg) (\<lambda>_. gret None)
      else if isCall msg then gbind (handleCall H msg) (\<lambda>resp. gret (Some resp))
      else if hasValidID msg then gret (Some (errorResponse msg (invalidRequestError ''invalid request'')))
      else gret (Some (errorMessage (invalidRequestError ''invalid request''))))"

section \<open>Subscriptions of the connection\<close>

text \<open>The notifiers of a call proc, in the order they were created.\<close>

definition addSubscriptions :: "('v, 's) hconf \<Rightarrow> nat list \<Rightarrow> ('s hstate, unit) gom" where
  "addSubscriptions H nn =
     gfold (\<lambda>n u. gbind (gread hs_app) (\<lambda>app.
              case hc_subOf H app n of
                None \<Rightarrow> gret ()
              | Some i \<Rightarrow> gmodify (hs_serverSubs_update (\<lambda>subs. if i \<in> set subs then subs else subs @ [i]))))
       nn ()"

definition cancelServerSubscriptions :: "('s hstate, unit) gom" where
  "cancelServerSubscriptions = gmodify (hs_serverSubs_update (\<lambda>_. []))"

section \<open>Batches\<close>

text \<open>\<^verbatim>\<open>respondWithBatchTooLarge\<close>: one error, with the id of the first call.\<close>

definition respondWithBatchTooLarge :: "jsonrpcMessage list \<Rightarrow> jsonrpcMessage" where
  "respondWithBatchTooLarge batch =
     (let resp = errorMessage (invalidRequestError ''batch too large'')
      in case find isCall batch of None \<Rightarrow> resp | Some msg \<Rightarrow> resp\<lparr>jm_ID := jm_ID msg\<rparr>)"

text \<open>
  The loop over the calls of a batch when nothing interrupts it: the answers so far, the calls
  left, and whether the limit on the size of the results was exceeded. The interrupted loop is
  the subject of the theory on batches.
\<close>

fun batch_loop ::
  "('v, 's) hconf \<Rightarrow> jsonrpcMessage list \<Rightarrow> jsonrpcMessage list \<Rightarrow> int \<Rightarrow>
     ('s hstate, jsonrpcMessage list \<times> bool) gom" where
  "batch_loop H [] resp responseBytes = gret (resp, False)"
| "batch_loop H (msg # calls) resp responseBytes =
     gbind (handleCallMsg H msg) (\<lambda>answer.
     case answer of
       None \<Rightarrow> batch_loop H calls resp responseBytes
     | Some r \<Rightarrow>
         (let n = responseBytes + (case jm_Result r of None \<Rightarrow> 0 | Some j \<Rightarrow> hc_resultLen H j)
          in if hc_batchResponseMaxSize H \<noteq> 0 \<and> n > hc_batchResponseMaxSize H then
               gret ((resp @ [r]) @
                 map (\<lambda>m. errorResponse m (internalServerError errcodeResponseTooLarge ''response too large''))
                   (filter (\<lambda>m. \<not> isNotification m) calls), True)
             else batch_loop H calls (resp @ [r]) n))"

text \<open>What \<^verbatim>\<open>handleBatch\<close> writes: messages and whether they are marked as an error.\<close>

datatype written = WriteOne jsonrpcMessage bool | WriteBatch "jsonrpcMessage list" bool | WriteNothing

text \<open>\<open>isResult\<close>: responses and subscription results, which are handled before any call.\<close>

definition isResult :: "jsonrpcMessage \<Rightarrow> bool" where
  "isResult m \<longleftrightarrow> isResponse m \<or> (isNotification m \<and> HasSuffix (jm_Method m) notificationMethodSuffix)"

definition handleBatch :: "('v, 's) hconf \<Rightarrow> jsonrpcMessage list \<Rightarrow> ('s hstate, written) gom" where
  "handleBatch H msgs =
     (if msgs = [] then gret (WriteOne (errorMessage (invalidRequestError ''empty batch'')) True)
      else if hc_batchRequestLimit H \<noteq> 0 \<and> int (length msgs) > hc_batchRequestLimit H then
        gret (WriteBatch [respondWithBatchTooLarge msgs] True)
      else
        (let calls = filter (\<lambda>m. \<not> isResult m) msgs
         in if calls = [] then gret WriteNothing
            else
              gbind (gmodify (hs_notifiers_update (\<lambda>_. 0))) (\<lambda>_.
              gbind (batch_loop H calls [] 0) (\<lambda>(resp, tooLarge).
              gbind (gread hs_notifiers) (\<lambda>k.
              gbind (addSubscriptions H [0..<k]) (\<lambda>_.
              gret (if resp = [] then WriteNothing else WriteBatch resp tooLarge)))))))"

text \<open>\<^verbatim>\<open>handleMsg\<close> for one message, without a timeout.\<close>

definition handleMsg :: "('v, 's) hconf \<Rightarrow> jsonrpcMessage \<Rightarrow> ('s hstate, written) gom" where
  "handleMsg H msg =
     (if isResult msg then gret WriteNothing
      else
        gbind (gmodify (hs_notifiers_update (\<lambda>_. 0))) (\<lambda>_.
        gbind (handleCallMsg H msg) (\<lambda>answer.
        gbind (gread hs_notifiers) (\<lambda>k.
        gbind (addSubscriptions H [0..<k]) (\<lambda>_.
        gret (case answer of None \<Rightarrow> WriteNothing | Some r \<Rightarrow> WriteOne r False))))))"

section \<open>Answers\<close>

text \<open>
  An answer belongs to its message: a response with the message's id, or with the id null when
  the message has no valid one.
\<close>

definition answers :: "jsonrpcMessage \<Rightarrow> jsonrpcMessage \<Rightarrow> bool" where
  "answers msg r \<longleftrightarrow>
     isResponse r \<and> jm_ID r = (if isCall msg \<or> hasValidID msg then jm_ID msg else Some JNull)"

lemma errorMessage_simps [simp]:
  "jm_Version (errorMessage e) = vsn" "jm_ID (errorMessage e) = Some JNull" "jm_Method (errorMessage e) = []"
  "jm_Params (errorMessage e) = None" "jm_Error (errorMessage e) \<noteq> None" "jm_Result (errorMessage e) = None"
  by (simp_all add: errorMessage_def)

lemma errorResponse_simps [simp]:
  "jm_Version (errorResponse m e) = vsn" "jm_ID (errorResponse m e) = jm_ID m"
  "jm_Method (errorResponse m e) = []" "jm_Params (errorResponse m e) = None"
  "jm_Error (errorResponse m e) \<noteq> None" "jm_Result (errorResponse m e) = None"
  by (simp_all add: errorResponse_def errorMessage_def)

lemma msg_response_simps [simp]:
  "jm_Version (msg_response m r) = vsn" "jm_ID (msg_response m r) = jm_ID m"
  "jm_Method (msg_response m r) = []" "jm_Params (msg_response m r) = None"
  "jm_Result (msg_response m r) \<noteq> None \<or> jm_Error (msg_response m r) \<noteq> None"
  by (cases r; simp add: msg_response_def)+

text \<open>A response to a message: right version, no method, the message's own id.\<close>

definition reply_to :: "jsonrpcMessage \<Rightarrow> jsonrpcMessage \<Rightarrow> bool" where
  "reply_to msg r \<longleftrightarrow> jm_Version r = vsn \<and> jm_ID r = jm_ID msg \<and> jm_Method r = [] \<and> jm_Params r = None \<and>
     (jm_Result r \<noteq> None \<or> jm_Error r \<noteq> None)"

lemma reply_to_error [simp]: "reply_to msg (errorResponse msg e)"
  by (simp add: reply_to_def del: not_None_eq)

lemma reply_to_response [simp]: "reply_to msg (msg_response msg r)"
  using msg_response_simps(5) [of msg r] by (auto simp: reply_to_def)

lemma reply_to_answers: "reply_to msg r \<Longrightarrow> hasValidID msg \<Longrightarrow> answers msg r"
  by (simp add: reply_to_def answers_def isResponse_def hasValidVersion_def hasValidID_def)

lemma invalid_answer: "answers msg (errorMessage e)" if "\<not> isCall msg" "\<not> hasValidID msg"
  using that by (simp add: answers_def isResponse_def hasValidVersion_def hasValidID_def)

text \<open>Every way a call can end is a reply to it; only a method that never returns has none.\<close>

definition replies :: "('s hstate, jsonrpcMessage) gom \<Rightarrow> jsonrpcMessage \<Rightarrow> bool" where
  "replies m msg \<longleftrightarrow> (\<forall>h. case fst (m h) of Ret r \<Rightarrow> reply_to msg r | Panic _ \<Rightarrow> False | Hang \<Rightarrow> True)"

lemma replies_gret [simp]: "reply_to msg r \<Longrightarrow> replies (gret r) msg"
  by (simp add: replies_def gret_run)

lemma replies_runMethod [simp]: "replies (runMethod msg callb args) msg"
  by (auto simp: replies_def runMethod_def gbind_def on_app_def callback_call_def gret_run
      split: prod.split outcome.split sum.split)

lemma replies_after_modify [simp]: "replies m msg \<Longrightarrow> replies (gbind (gmodify f) (\<lambda>_. m)) msg"
  by (simp add: replies_def)

lemma replies_handleSubscribe [simp]: "replies (handleSubscribe H msg) msg"
  by (auto simp: handleSubscribe_def split: sum.split option.split)

lemma replies_unsubscribe [simp]:
  "replies (gbind (unsubscribe i) (\<lambda>r. gret (case r of Inl err \<Rightarrow> errorResponse msg err
     | Inr b \<Rightarrow> msg_response msg (Inr (JBool b))))) msg"
  by (auto simp: replies_def unsubscribe_def gbind_def gret_run)

lemma replies_handleCall: "replies (handleCall H msg) msg"
  by (auto simp: handleCall_def split: sum.split option.split)

lemma handleCallMsg_answers:
  assumes "handleCallMsg H msg h = (Ret a, h')"
  shows "case a of None \<Rightarrow> isNotification msg | Some r \<Rightarrow> \<not> isNotification msg \<and> answers msg r"
proof -
  have r: "reply_to msg r" if "handleCall H msg h = (Ret r, h')" for r
    using replies_handleCall [of H msg] that by (auto simp: replies_def dest!: spec [of _ h])
  show ?thesis
  proof (cases "isNotification msg \<or> isCall msg")
    case True
    with assms show ?thesis
      using r message_kinds(1) [of msg]
      by (auto simp: handleCallMsg_def isCall_def gret_run reply_to_answers elim!: gbind_RetE split: if_splits)
  next
    case False
    with assms show ?thesis
      by (auto simp: handleCallMsg_def gret_run invalid_answer reply_to_answers split: if_splits)
  qed
qed

lemma handleCallMsg_no_panic: "fst (handleCallMsg H msg h) \<noteq> Panic p"
proof -
  have "fst (handleCall H msg h) \<noteq> Panic p"
    using replies_handleCall [of H msg] by (auto simp: replies_def dest!: spec [of _ h])
  then show ?thesis by (auto simp: handleCallMsg_def gbind_def gret_run split: prod.split outcome.split)
qed

text \<open>Without a size limit hit, a batch is answered message by message, in order.\<close>

lemma batch_loop_answers:
  assumes "batch_loop H calls resp n h = (Ret (out, tooLarge), h')"
  shows "\<exists>rs. out = resp @ rs \<and> list_all2 (\<lambda>m r. reply_to m r \<or> answers m r) (filter (\<lambda>m. \<not> isNotification m) calls) rs"
  using assms
proof (induction H calls resp n arbitrary: h rule: batch_loop.induct)
  case (1 H resp n)
  then show ?case by (simp add: gret_run)
next
  case (2 H msg calls resp n)
  from "2.prems" obtain a h1 where a: "handleCallMsg H msg h = (Ret a, h1)"
    by (auto elim: gbind_RetE)
  note ans = handleCallMsg_answers [OF a]
  show ?case
  proof (cases a)
    case None
    with "2.prems" a ans "2.IH"(1) [of h1] show ?thesis by (auto simp: gbind_def)
  next
    case (Some r)
    let ?n = "n + (case jm_Result r of None \<Rightarrow> 0 | Some j \<Rightarrow> hc_resultLen H j)"
    show ?thesis
    proof (cases "hc_batchResponseMaxSize H \<noteq> 0 \<and> ?n > hc_batchResponseMaxSize H")
      case True
      with "2.prems" a Some have "out = (resp @ [r]) @
          map (\<lambda>m. errorResponse m (internalServerError errcodeResponseTooLarge ''response too large''))
            (filter (\<lambda>m. \<not> isNotification m) calls)"
        by (simp add: gbind_def gret_run Let_def)
      with Some ans show ?thesis
        by (simp add: list.rel_map list_all2_same)
    next
      case False
      with "2.prems" a Some have "batch_loop H calls (resp @ [r]) ?n h1 = (Ret (out, tooLarge), h')"
        by (simp add: gbind_def Let_def)
      with "2.IH"(2) [OF refl False] Some ans show ?thesis by force
    qed
  qed
qed

end
