(* ===== verification/Rpc_Subscription.thy ===== *)
theory Rpc_Subscription
  imports Rpc_Json
begin

text \<open>
  \<^verbatim>\<open>src/rpc/subscription.go\<close>: the identifiers of subscriptions, the server's
  \<^verbatim>\<open>Notifier\<close> and the client's forwarding loop. The methods of the notifier hold its mutex
  and are functions on its state; the messages they write go to a list, and writing may fail
  (\<open>writeOk\<close> decides for the \<open>n\<close>-th message). \<open>notifier_run\<close> and \<open>forward_run\<close> are the runs
  of the two machines.

  Shown here: an identifier is \<^verbatim>\<open>0x\<close> and a hexadecimal number without leading zeros; nothing is sent before the activation and nothing
  is lost or reordered by it; the forwarding loop delivers in order, never buffers more than
  20000 values, and drops the subscription when it would have to.
\<close>

section \<open>Identifiers\<close>

definition hex_char :: "nat \<Rightarrow> char" where
  "hex_char d = (if d < 10 then char_of (48 + d) else char_of (87 + d))"

definition hex_encode :: "string \<Rightarrow> string" where
  "hex_encode b = concat (map (\<lambda>c. [hex_char (of_char c div 16), hex_char (of_char c mod 16)]) b)"

definition encodeID :: "string \<Rightarrow> string" where
  "encodeID b =
     (let i = dropWhile (\<lambda>c. c = CHR ''0'') (hex_encode b)
      in ''0x'' @ (if i = [] then ''0'' else i))"

section \<open>The notifier\<close>

record Notifier =
  n_namespace :: string
  n_sub :: "string option"
  n_buffer :: "json list"
  n_callReturned :: bool
  n_activated :: bool

record notifier_world =
  nw_notifier :: Notifier
  nw_sent :: "jsonrpcMessage list"

definition newNotifier :: "string \<Rightarrow> Notifier" where
  "newNotifier ns =
     \<lparr>n_namespace = ns, n_sub = None, n_buffer = [], n_callReturned = False, n_activated = False\<rparr>"

text \<open>\<open>idgen\<close> gives the identifier; creating twice or too late panics.\<close>

definition CreateSubscription :: "string \<Rightarrow> (notifier_world, string) gom" where
  "CreateSubscription idgen =
     gbind (gread nw_notifier) (\<lambda>n.
     if n_sub n \<noteq> None then glift (Panic (Explicit ''can't create multiple subscriptions with Notifier''))
     else if n_callReturned n then
       glift (Panic (Explicit ''can't create subscription after subscribe call has returned''))
     else gbind (gmodify (nw_notifier_update (n_sub_update (\<lambda>_. Some idgen)))) (\<lambda>_. gret idgen))"

definition subscriptionResult_json :: "subscriptionResult \<Rightarrow> json" where
  "subscriptionResult_json r =
     JObj ((''subscription'', JStr (sr_ID r)) # (case sr_Result r of None \<Rightarrow> [] | Some j \<Rightarrow> [(''result'', j)]))"

definition notification :: "string \<Rightarrow> string \<Rightarrow> json \<Rightarrow> jsonrpcMessage" where
  "notification ns subId data =
     zeroMessage\<lparr>jm_Version := vsn, jm_Method := ns @ notificationMethodSuffix,
       jm_Params := Some (subscriptionResult_json \<lparr>sr_ID = subId, sr_Result = Some data\<rparr>)\<rparr>"

text \<open>
  The result of a send is whether it failed. The data of a notification come as
  \<^verbatim>\<open>json.Marshal\<close> gives them: an error's text or a value.
\<close>

definition notifier_send :: "(nat \<Rightarrow> bool) \<Rightarrow> json \<Rightarrow> (notifier_world, bool) gom" where
  "notifier_send writeOk data =
     gbind (gread nw_notifier) (\<lambda>n.
     case n_sub n of
       None \<Rightarrow> glift (Panic NilDereference)
     | Some subId \<Rightarrow>
         gbind (gread (\<lambda>w. length (nw_sent w))) (\<lambda>k.
         if writeOk k then
           gbind (gmodify (nw_sent_update (\<lambda>ms. ms @ [notification (n_namespace n) subId data]))) (\<lambda>_. gret False)
         else gret True))"

definition Notify :: "(nat \<Rightarrow> bool) \<Rightarrow> string \<Rightarrow> string + json \<Rightarrow> (notifier_world, bool) gom" where
  "Notify writeOk subId data =
     (case data of
        Inl e \<Rightarrow> gret True
      | Inr enc \<Rightarrow>
          gbind (gread nw_notifier) (\<lambda>n.
          if n_sub n = None then glift (Panic (Explicit ''can't Notify before subscription is created''))
          else if n_sub n \<noteq> Some subId then glift (Panic (Explicit ''Notify with wrong ID''))
          else if n_activated n then notifier_send writeOk enc
          else gbind (gmodify (nw_notifier_update (n_buffer_update (\<lambda>b. b @ [enc])))) (\<lambda>_. gret False)))"

definition takeSubscription :: "(notifier_world, string option) gom" where
  "takeSubscription =
     gbind (gmodify (nw_notifier_update (n_callReturned_update (\<lambda>_. True)))) (\<lambda>_.
     gread (\<lambda>w. n_sub (nw_notifier w)))"

fun send_all :: "(nat \<Rightarrow> bool) \<Rightarrow> json list \<Rightarrow> (notifier_world, bool) gom" where
  "send_all writeOk [] = gret False"
| "send_all writeOk (d # ds) =
     gbind (notifier_send writeOk d) (\<lambda>err. if err then gret True else send_all writeOk ds)"

definition activate :: "(nat \<Rightarrow> bool) \<Rightarrow> (notifier_world, bool) gom" where
  "activate writeOk =
     gbind (gread (\<lambda>w. n_buffer (nw_notifier w))) (\<lambda>buf.
     gbind (send_all writeOk buf) (\<lambda>err.
     if err then gret True
     else gbind (gmodify (nw_notifier_update (n_activated_update (\<lambda>_. True)))) (\<lambda>_. gret False)))"

text \<open>
  A run on a connection that accepts every write: the callback creates the subscription and
  notifies, the handler takes the subscription and activates it once. \<open>told\<close> records what was
  notified.
\<close>

inductive notifier_run :: "string \<Rightarrow> json list \<Rightarrow> notifier_world \<Rightarrow> bool" where
  new: "notifier_run ns [] \<lparr>nw_notifier = newNotifier ns, nw_sent = []\<rparr>"
| create: "notifier_run ns told w \<Longrightarrow> CreateSubscription i w = (Ret i, w') \<Longrightarrow> notifier_run ns told w'"
| notify: "notifier_run ns told w \<Longrightarrow> Notify (\<lambda>_. True) i (Inr d) w = (Ret b, w') \<Longrightarrow> notifier_run ns (told @ [d]) w'"
| take: "notifier_run ns told w \<Longrightarrow> takeSubscription w = (Ret s, w') \<Longrightarrow> notifier_run ns told w'"
| activate: "notifier_run ns told w \<Longrightarrow> \<not> n_activated (nw_notifier w) \<Longrightarrow>
    Rpc_Subscription.activate (\<lambda>_. True) w = (Ret b, w') \<Longrightarrow> notifier_run ns told w'"

definition notifier_inv :: "string \<Rightarrow> json list \<Rightarrow> notifier_world \<Rightarrow> bool" where
  "notifier_inv ns told w \<longleftrightarrow>
     n_namespace (nw_notifier w) = ns \<and>
     (told \<noteq> [] \<longrightarrow> n_sub (nw_notifier w) \<noteq> None) \<and>
     (if n_activated (nw_notifier w)
      then nw_sent w = map (notification ns (the (n_sub (nw_notifier w)))) told
      else nw_sent w = [] \<and> n_buffer (nw_notifier w) = told)"

section \<open>The forwarding loop\<close>

text \<open>
  The errors of the client side. \<open>ServerError\<close> is an error object the server sent;
  \<open>OtherError\<close> is the text of an error from outside (a connection, a context, a decoder).
\<close>

datatype client_error =
    ErrUnsubscribed
  | ErrClientQuit
  | ErrSubscriptionQueueOverflow
  | ErrNoResult
  | ErrMissingBatchResponse
  | ErrClientReconnected
  | ErrDead
  | ServerError jsonError
  | OtherError string

definition maxClientSubscriptionBuffer :: nat where
  "maxClientSubscriptionBuffer = 20000"

record 'v forward_state =
  fw_buffer :: "'v list"
  fw_sent :: "'v list"
  fw_result :: "(bool \<times> client_error option) option"

datatype forward_event = FwQuit "client_error option" | FwIn "json option" | FwSend

text \<open>\<^verbatim>\<open>unmarshal\<close>: a notification without a result does not decode.\<close>

definition sub_unmarshal :: "(json \<Rightarrow> string + 'v) \<Rightarrow> json option \<Rightarrow> string + 'v" where
  "sub_unmarshal unmarshal result =
     (case result of None \<Rightarrow> Inl ''unexpected end of JSON input'' | Some j \<Rightarrow> unmarshal j)"

text \<open>
  One turn of the loop for the case that was chosen; the send case is offered only when the
  buffer is not empty. \<open>unmarshal\<close> decodes into the channel's element type.
\<close>

definition forward_turn ::
  "(json \<Rightarrow> string + 'v) \<Rightarrow> forward_event \<Rightarrow> 'v forward_state \<Rightarrow> 'v forward_state option" where
  "forward_turn unmarshal e s =
     (if fw_result s \<noteq> None then None
      else case e of
        FwQuit err \<Rightarrow>
          Some (s\<lparr>fw_result := Some (if err = Some ErrUnsubscribed then (True, None) else (False, err))\<rparr>)
      | FwIn j \<Rightarrow>
          (case sub_unmarshal unmarshal j of
             Inl m \<Rightarrow> Some (s\<lparr>fw_result := Some (True, Some (OtherError m))\<rparr>)
           | Inr v \<Rightarrow>
               if length (fw_buffer s) = maxClientSubscriptionBuffer then
                 Some (s\<lparr>fw_result := Some (True, Some ErrSubscriptionQueueOverflow)\<rparr>)
               else Some (s\<lparr>fw_buffer := fw_buffer s @ [v]\<rparr>))
      | FwSend \<Rightarrow>
          (case fw_buffer s of
             [] \<Rightarrow> None
           | v # vs \<Rightarrow> Some (s\<lparr>fw_buffer := vs, fw_sent := fw_sent s @ [v]\<rparr>)))"

definition forward_start :: "'v forward_state" where
  "forward_start = \<lparr>fw_buffer = [], fw_sent = [], fw_result = None\<rparr>"

fun forward_run ::
  "(json \<Rightarrow> string + 'v) \<Rightarrow> forward_event list \<Rightarrow> 'v forward_state \<Rightarrow> 'v forward_state option" where
  "forward_run unmarshal [] s = Some s"
| "forward_run unmarshal (e # es) s = Option.bind (forward_turn unmarshal e s) (forward_run unmarshal es)"

text \<open>
  \<^verbatim>\<open>run\<close> after the loop: whether the server is asked to unsubscribe, and what goes to the
  error channel (nothing, or an error; quitting the client is reported as nil).
\<close>

definition run_end :: "bool \<times> client_error option \<Rightarrow> bool \<times> client_error option option" where
  "run_end r =
     (let (unsub, err) = r
      in (unsub, case err of
                   None \<Rightarrow> None
                 | Some e \<Rightarrow> Some (if e = ErrClientQuit then None else Some e)))"

text \<open>The values that decode, in the order they came in.\<close>

fun received :: "(json \<Rightarrow> string + 'v) \<Rightarrow> forward_event list \<Rightarrow> 'v list" where
  "received unmarshal [] = []"
| "received unmarshal (FwIn j # es) =
     (case sub_unmarshal unmarshal j of Inl _ \<Rightarrow> [] | Inr v \<Rightarrow> [v]) @ received unmarshal es"
| "received unmarshal (_ # es) = received unmarshal es"

section \<open>Facts\<close>

lemma encodeID_prefix: "HasPrefix (encodeID b) ''0x''"
  by (simp add: encodeID_def HasPrefix_def Let_def)

lemma encodeID_no_leading_zero: "encodeID b = ''0x'' @ CHR ''0'' # r \<Longrightarrow> r = []"
proof -
  assume e: "encodeID b = ''0x'' @ CHR ''0'' # r"
  let ?i = "dropWhile (\<lambda>c. c = CHR ''0'') (hex_encode b)"
  show "r = []"
  proof (cases "?i = []")
    case True
    with e show ?thesis by (simp add: encodeID_def Let_def)
  next
    case False
    from hd_dropWhile [OF this] have "hd ?i \<noteq> CHR ''0''" .
    moreover from e False have "?i = CHR ''0'' # r"
      unfolding encodeID_def Let_def by (simp only: if_False append_same_eq same_append_eq)
    ultimately show ?thesis by simp
  qed
qed

lemma send_all_ok:
  "n_sub (nw_notifier w) = Some i \<Longrightarrow>
   send_all (\<lambda>_. True) ds w =
     (Ret False, w\<lparr>nw_sent := nw_sent w @ map (notification (n_namespace (nw_notifier w)) i) ds\<rparr>)"
proof (induction ds arbitrary: w)
  case Nil
  then show ?case by (simp add: gret_run)
next
  case (Cons d ds)
  then show ?case by (simp add: gbind_def notifier_send_def gret_run)
qed

lemma notifier_run_inv: "notifier_run ns told w \<Longrightarrow> notifier_inv ns told w"
proof (induction rule: notifier_run.induct)
  case (new ns)
  show ?case by (simp add: notifier_inv_def newNotifier_def)
next
  case (create ns told w i w')
  then show ?case
    by (auto simp: notifier_inv_def CreateSubscription_def gret_run glift_run split: if_splits)
next
  case (notify ns told w i d b w')
  then show ?case
    by (auto simp: notifier_inv_def Notify_def notifier_send_def gret_run glift_run split: if_splits option.splits)
next
  case (take ns told w s w')
  then show ?case by (auto simp: notifier_inv_def takeSubscription_def)
next
  case (activate ns told w b w')
  then show ?case
  proof (cases "n_sub (nw_notifier w)")
    case None
    with activate have "told = []" "n_buffer (nw_notifier w) = []" "nw_sent w = []"
      by (auto simp: notifier_inv_def)
    with activate None show ?thesis
      by (auto simp: notifier_inv_def activate_def gbind_def gret_run)
  next
    case (Some i)
    with activate send_all_ok [OF Some, of "n_buffer (nw_notifier w)"] show ?thesis
      by (auto simp: notifier_inv_def activate_def gbind_def gret_run)
  qed
qed

definition forward_inv :: "'v list \<Rightarrow> 'v forward_state \<Rightarrow> bool" where
  "forward_inv vs s \<longleftrightarrow> length (fw_buffer s) \<le> maxClientSubscriptionBuffer \<and>
     (fw_result s = None \<longrightarrow> fw_sent s @ fw_buffer s = vs) \<and> prefix (fw_sent s @ fw_buffer s) vs"

lemma forward_turn_inv:
  assumes "forward_turn unmarshal e s = Some s'" and "forward_inv vs s"
  shows "forward_inv (vs @ received unmarshal [e]) s'"
proof (cases e)
  case (FwQuit err)
  with assms show ?thesis by (auto simp: forward_turn_def forward_inv_def split: if_splits)
next
  case (FwIn j)
  with assms show ?thesis
    by (auto simp: forward_turn_def forward_inv_def prefix_def split: if_splits sum.splits)
next
  case FwSend
  with assms show ?thesis
    by (auto simp: forward_turn_def forward_inv_def split: if_splits list.splits)
qed

lemma received_Cons: "received unmarshal (e # es) = received unmarshal [e] @ received unmarshal es"
  by (cases e) simp_all

lemma forward_run_inv:
  "forward_run unmarshal es s = Some s' \<Longrightarrow> forward_inv vs s \<Longrightarrow> forward_inv (vs @ received unmarshal es) s'"
proof (induction es arbitrary: s vs)
  case (Cons e es)
  then obtain s1 where s1: "forward_turn unmarshal e s = Some s1" "forward_run unmarshal es s1 = Some s'"
    by (auto split: bind_splits)
  from Cons.IH [OF s1(2) forward_turn_inv [OF s1(1) Cons.prems(2)]] show ?case
    by (simp add: received_Cons [of unmarshal e es])
qed simp

end
