(* ===== verification/Rpc_Client.thy ===== *)
theory Rpc_Client
  imports Rpc_Handler Rpc_Subscription
begin

text \<open>
  \<^verbatim>\<open>src/rpc/client.go\<close> and the client half of \<^verbatim>\<open>src/rpc/handler.go\<close>: pending requests,
  their registration with the dispatch loop, the delivery of responses and the end of the
  connection. Requests and subscriptions are shared by pointer between the caller, the
  dispatch loop and the map of waiting ids, so they live in a store and a pointer is an index.
  A channel is its capacity, its contents and whether it is closed; sending on a closed
  channel and closing twice panic, sending on a full or nil channel blocks.

  \<open>client_turn\<close> is one step of the system of the callers, the dispatch loop and the read
  loop, for a connection that is not HTTP. It is \<open>None\<close> where the step is not enabled.
\<close>

section \<open>Channels\<close>

record 'a chan =
  ch_cap :: nat
  ch_buf :: "'a list"
  ch_closed :: bool

definition make_chan :: "nat \<Rightarrow> 'a chan" where
  "make_chan n = \<lparr>ch_cap = n, ch_buf = [], ch_closed = False\<rparr>"

fun chan_send :: "'a \<Rightarrow> 'a chan option \<Rightarrow> 'a chan option outcome" where
  "chan_send v None = Hang"
| "chan_send v (Some c) =
     (if ch_closed c then Panic (Explicit ''send on closed channel'')
      else if length (ch_buf c) < ch_cap c then Ret (Some (c\<lparr>ch_buf := ch_buf c @ [v]\<rparr>))
      else Hang)"

fun chan_close :: "'a chan option \<Rightarrow> 'a chan option outcome" where
  "chan_close None = Panic (Explicit ''close of nil channel'')"
| "chan_close (Some c) =
     (if ch_closed c then Panic (Explicit ''close of closed channel'') else Ret (Some (c\<lparr>ch_closed := True\<rparr>)))"

section \<open>Pending requests\<close>

record requestOp =
  op_ids :: "json list"
  op_err :: "client_error option"
  op_resp :: "jsonrpcMessage list chan option"
  op_sub :: "nat option"
  op_hadResponse :: bool

text \<open>
  A subscription: its forwarding loop is absent until the server has confirmed it.
  \<open>cs_runs\<close> counts how often \<^verbatim>\<open>run\<close> was launched.
\<close>

record 'v ClientSubscription =
  cs_namespace :: string
  cs_subid :: string
  cs_fw :: "'v forward_state option"
  cs_runs :: nat

definition newClientSubscription :: "string \<Rightarrow> 'v ClientSubscription" where
  "newClientSubscription ns = \<lparr>cs_namespace = ns, cs_subid = [], cs_fw = None, cs_runs = 0\<rparr>"

text \<open>The store of requests and subscriptions, and the two maps of the connection's handler.\<close>

record 'v chandler =
  hh_ops :: "requestOp list"
  hh_subs :: "'v ClientSubscription list"
  hh_respWait :: "(json \<times> nat) list"
  hh_clientSubs :: "(string \<times> nat) list"

definition set_op :: "nat \<Rightarrow> (requestOp \<Rightarrow> requestOp) \<Rightarrow> 'v chandler \<Rightarrow> 'v chandler" where
  "set_op p f h = h\<lparr>hh_ops := (hh_ops h)[p := f (hh_ops h ! p)]\<rparr>"

definition set_sub ::
  "nat \<Rightarrow> ('v ClientSubscription \<Rightarrow> 'v ClientSubscription) \<Rightarrow> 'v chandler \<Rightarrow> 'v chandler" where
  "set_sub s f h = h\<lparr>hh_subs := (hh_subs h)[s := f (hh_subs h ! s)]\<rparr>"

definition alist_del :: "'k \<Rightarrow> ('k \<times> 'w) list \<Rightarrow> ('k \<times> 'w) list" where
  "alist_del k m = filter (\<lambda>e. fst e \<noteq> k) m"

definition addRequestOp :: "nat \<Rightarrow> 'v chandler \<Rightarrow> 'v chandler" where
  "addRequestOp p h =
     h\<lparr>hh_respWait := fold (\<lambda>id m. alist_put id p m) (op_ids (hh_ops h ! p)) (hh_respWait h)\<rparr>"

definition removeRequestOp :: "nat \<Rightarrow> 'v chandler \<Rightarrow> 'v chandler" where
  "removeRequestOp p h = h\<lparr>hh_respWait := fold alist_del (op_ids (hh_ops h ! p)) (hh_respWait h)\<rparr>"

subsection \<open>Subscriptions\<close>

text \<open>
  \<open>un s\<close> decodes into the element type of subscription \<open>s\<close>. The channels of a subscription
  are not buffered: handing it a value or an error is a turn of its loop, or nothing once the
  loop has ended. Without a loop the sender would wait for ever.
\<close>

definition sub_turn ::
  "(nat \<Rightarrow> json \<Rightarrow> string + 'v) \<Rightarrow> forward_event \<Rightarrow> nat \<Rightarrow> 'v chandler \<Rightarrow> 'v chandler outcome" where
  "sub_turn un e s h =
     (case cs_fw (hh_subs h ! s) of
        None \<Rightarrow> Hang
      | Some fw \<Rightarrow>
          (case forward_turn (un s) e fw of
             None \<Rightarrow> Ret h
           | Some fw' \<Rightarrow> Ret (set_sub s (cs_fw_update (\<lambda>_. Some fw')) h)))"

definition deliver ::
  "(nat \<Rightarrow> json \<Rightarrow> string + 'v) \<Rightarrow> json option \<Rightarrow> nat \<Rightarrow> 'v chandler \<Rightarrow> 'v chandler outcome" where
  "deliver un result s h = sub_turn un (FwIn result) s h"

definition sub_close ::
  "(nat \<Rightarrow> json \<Rightarrow> string + 'v) \<Rightarrow> client_error \<Rightarrow> nat \<Rightarrow> 'v chandler \<Rightarrow> 'v chandler outcome" where
  "sub_close un err s h = sub_turn un (FwQuit (Some err)) s h"

definition run_sub :: "'v ClientSubscription \<Rightarrow> 'v ClientSubscription" where
  "run_sub sub =
     sub\<lparr>cs_fw := (case cs_fw sub of None \<Rightarrow> Some forward_start | Some fw \<Rightarrow> Some fw),
         cs_runs := Suc (cs_runs sub)\<rparr>"

definition handleSubscriptionResult ::
  "(nat \<Rightarrow> json \<Rightarrow> string + 'v) \<Rightarrow> jsonrpcMessage \<Rightarrow> 'v chandler \<Rightarrow> 'v chandler outcome" where
  "handleSubscriptionResult un msg h =
     (let (result, bad) = Unmarshal (dec_struct subscriptionResult_fields) (jm_Params msg)
                            \<lparr>sr_ID = [], sr_Result = None\<rparr>
      in if bad then Ret h
         else case map_of (hh_clientSubs h) (sr_ID result) of
                None \<Rightarrow> Ret h
              | Some s \<Rightarrow> deliver un (sr_Result result) s h)"

subsection \<open>Responses\<close>

text \<open>The part of a response that concerns a subscription request.\<close>

definition subscription_response :: "nat \<Rightarrow> jsonrpcMessage \<Rightarrow> 'v chandler \<Rightarrow> 'v chandler" where
  "subscription_response p msg h =
     (case op_sub (hh_ops h ! p) of
        None \<Rightarrow> h
      | Some s \<Rightarrow>
          (case jm_Error msg of
             Some e \<Rightarrow> set_op p (op_err_update (\<lambda>_. Some (ServerError e))) h
           | None \<Rightarrow>
               (let (i, bad) = Unmarshal dec_string (jm_Result msg) (cs_subid (hh_subs h ! s));
                    h1 = set_sub s (cs_subid_update (\<lambda>_. i)) h
                in if bad then set_op p (op_err_update (\<lambda>_. Some (OtherError ''json: cannot unmarshal''))) h1
                   else (set_sub s run_sub (set_op p (op_err_update (\<lambda>_. None)) h1))
                          \<lparr>hh_clientSubs := alist_put i s (hh_clientSubs h)\<rparr>)))"

text \<open>The result is the request that was resolved, if the id belongs to one.\<close>

definition handleResp ::
  "jsonrpcMessage list \<Rightarrow> jsonrpcMessage \<Rightarrow> 'v chandler \<Rightarrow> ('v chandler \<times> nat list) outcome" where
  "handleResp batch msg h =
     (case Option.bind (jm_ID msg) (map_of (hh_respWait h)) of
        None \<Rightarrow> Ret (h, [])
      | Some p \<Rightarrow>
          (let h1 = subscription_response p msg (h\<lparr>hh_respWait := alist_del (the (jm_ID msg)) (hh_respWait h)\<rparr>);
               op = hh_ops h1 ! p
           in if op_hadResponse op then Ret (h1, [p])
              else obind (chan_send batch (op_resp op)) (\<lambda>c.
                     Ret (set_op p (\<lambda>op. op\<lparr>op_hadResponse := True, op_resp := c\<rparr>) h1, [p]))))"

text \<open>One turn of the loop over a batch: the state, the calls for the server half and the resolved requests.\<close>

definition response_turn ::
  "(nat \<Rightarrow> json \<Rightarrow> string + 'v) \<Rightarrow> jsonrpcMessage list \<Rightarrow> jsonrpcMessage \<Rightarrow>
     'v chandler \<times> jsonrpcMessage list \<times> nat list \<Rightarrow> ('v chandler \<times> jsonrpcMessage list \<times> nat list) outcome" where
  "response_turn un batch msg st =
     (let (h, calls, resolved) = st
      in if isResponse msg then
           obind (handleResp batch msg h) (\<lambda>(h', ps). Ret (h', calls, resolved @ ps))
         else if isNotification msg \<and> HasSuffix (jm_Method msg) notificationMethodSuffix then
           obind (handleSubscriptionResult un msg h) (\<lambda>h'. Ret (h', calls, resolved))
         else Ret (h, calls @ [msg], resolved))"

fun ofold :: "('x \<Rightarrow> 'a \<Rightarrow> 'a outcome) \<Rightarrow> 'x list \<Rightarrow> 'a \<Rightarrow> 'a outcome" where
  "ofold f [] a = Ret a"
| "ofold f (x # xs) a = obind (f x a) (ofold f xs)"

definition handleResponses ::
  "(nat \<Rightarrow> json \<Rightarrow> string + 'v) \<Rightarrow> jsonrpcMessage list \<Rightarrow> 'v chandler \<Rightarrow>
     ('v chandler \<times> jsonrpcMessage list) outcome" where
  "handleResponses un batch h =
     obind (ofold (response_turn un batch) batch (h, [], [])) (\<lambda>(h', calls, resolved).
     Ret (fold removeRequestOp resolved h', calls))"

subsection \<open>Cancelling\<close>

text \<open>
  The loops over the two maps go through them in list order; every turn concerns one id and
  its own request or subscription only.
\<close>

definition cancel_turn ::
  "client_error \<Rightarrow> json \<times> nat \<Rightarrow> 'v chandler \<times> nat list \<Rightarrow> ('v chandler \<times> nat list) outcome" where
  "cancel_turn err e st =
     (let (h, didClose) = st; (i, p) = e;
          h1 = h\<lparr>hh_respWait := alist_del i (hh_respWait h)\<rparr>
      in if p \<in> set didClose then Ret (h1, didClose)
         else obind (chan_close (op_resp (hh_ops h1 ! p))) (\<lambda>c.
                Ret (set_op p (\<lambda>op. op\<lparr>op_err := Some err, op_resp := c\<rparr>) h1, p # didClose)))"

definition close_sub_turn ::
  "(nat \<Rightarrow> json \<Rightarrow> string + 'v) \<Rightarrow> client_error \<Rightarrow> string \<times> nat \<Rightarrow> 'v chandler \<Rightarrow> 'v chandler outcome" where
  "close_sub_turn un err e h =
     (let (i, s) = e
      in sub_close un err s (h\<lparr>hh_clientSubs := alist_del i (hh_clientSubs h)\<rparr>))"

definition cancelAllRequests ::
  "(nat \<Rightarrow> json \<Rightarrow> string + 'v) \<Rightarrow> client_error \<Rightarrow> nat option \<Rightarrow> 'v chandler \<Rightarrow> 'v chandler outcome" where
  "cancelAllRequests un err inflightReq h =
     obind (ofold (cancel_turn err) (hh_respWait h) (h, case inflightReq of None \<Rightarrow> [] | Some p \<Rightarrow> [p])) (\<lambda>(h', _).
     ofold (close_sub_turn un err) (hh_clientSubs h') h')"

section \<open>Callers and the dispatch loop\<close>

text \<open>What goes over the wire, and where a calling goroutine stands.\<close>

datatype payload = One jsonrpcMessage | Many "jsonrpcMessage list"

datatype caller =
    Fresh payload
  | Writing payload bool
  | Waiting
  | Returned "jsonrpcMessage list" "client_error option"

text \<open>
  \<open>cl_draws\<close> counts the ids given out, \<open>cl_orphans\<close> records the requests that were in flight
  when the read loop failed and were not registered again; no operation reads them.
\<close>

record 'v client =
  cl_h :: "'v chandler"
  cl_callers :: "caller list"
  cl_idCounter :: "32 word"
  cl_lastOp :: "nat option"
  cl_locked :: bool
  cl_reqSent :: "client_error option option"
  cl_reading :: bool
  cl_running :: bool
  cl_codecClosed :: bool
  cl_writeConn :: bool
  cl_wire :: "payload list"
  cl_draws :: nat
  cl_orphans :: "nat list"

definition initClient :: "'v client" where
  "initClient =
     \<lparr>cl_h = \<lparr>hh_ops = [], hh_subs = [], hh_respWait = [], hh_clientSubs = []\<rparr>, cl_callers = [], cl_idCounter = 0,
      cl_lastOp = None, cl_locked = False, cl_reqSent = None, cl_reading = True, cl_running = True,
      cl_codecClosed = False, cl_writeConn = True, cl_wire = [], cl_draws = 0, cl_orphans = []\<rparr>"

subsection \<open>Starting a request\<close>

definition id_json :: "32 word \<Rightarrow> json" where
  "id_json w = JNum (format_nat (unat w))"

definition nextID :: "'v client \<Rightarrow> json \<times> 'v client" where
  "nextID c =
     (let w = cl_idCounter c + 1
      in (id_json w, c\<lparr>cl_idCounter := w, cl_draws := Suc (cl_draws c)\<rparr>))"

text \<open>\<open>params\<close>: nil, or what \<^verbatim>\<open>json.Marshal\<close> makes of the arguments.\<close>

type_synonym params = "(string + json) option"

definition newMessage :: "string \<Rightarrow> params \<Rightarrow> 'v client \<Rightarrow> (string + jsonrpcMessage) \<times> 'v client" where
  "newMessage m paramsIn c =
     (let (i, c') = nextID c;
          msg = zeroMessage\<lparr>jm_Version := vsn, jm_ID := Some i, jm_Method := m\<rparr>
      in (case paramsIn of
            None \<Rightarrow> Inr msg
          | Some (Inl e) \<Rightarrow> Inl e
          | Some (Inr j) \<Rightarrow> Inr (msg\<lparr>jm_Params := Some j\<rparr>), c'))"

fun newMessages :: "(string \<times> params) list \<Rightarrow> 'v client \<Rightarrow> (string + jsonrpcMessage list) \<times> 'v client" where
  "newMessages [] c = (Inr [], c)"
| "newMessages ((m, ps) # elems) c =
     (case newMessage m ps c of
        (Inl e, c1) \<Rightarrow> (Inl e, c1)
      | (Inr msg, c1) \<Rightarrow>
          (case newMessages elems c1 of (Inl e, c2) \<Rightarrow> (Inl e, c2) | (Inr msgs, c2) \<Rightarrow> (Inr (msg # msgs), c2)))"

definition new_request :: "json list \<Rightarrow> bool \<Rightarrow> nat option \<Rightarrow> payload \<Rightarrow> 'v client \<Rightarrow> 'v client" where
  "new_request ids answered sub pl c =
     c\<lparr>cl_h := (cl_h c)\<lparr>hh_ops := hh_ops (cl_h c) @
         [\<lparr>op_ids = ids, op_err = None, op_resp = (if answered then Some (make_chan 1) else None), op_sub = sub,
           op_hadResponse = False\<rparr>]\<rparr>,
       cl_callers := cl_callers c @ [Fresh pl]\<rparr>"

datatype request =
    RCall string params
  | RBatch "(string \<times> params) list"
  | RNotify string params
  | RSubscribe string params

text \<open>
  The beginnings of \<^verbatim>\<open>CallContext\<close>, \<^verbatim>\<open>BatchCallContext\<close>, \<^verbatim>\<open>Notify\<close> and
  \<^verbatim>\<open>Subscribe\<close>, up to \<^verbatim>\<open>send\<close>. When the arguments cannot be encoded, no request comes
  to be, but the ids are spent.
\<close>

fun start_request :: "request \<Rightarrow> 'v client \<Rightarrow> 'v client" where
  "start_request (RCall m ps) c =
     (case newMessage m ps c of
        (Inl e, c1) \<Rightarrow> c1
      | (Inr msg, c1) \<Rightarrow> new_request [the (jm_ID msg)] True None (One msg) c1)"
| "start_request (RBatch b) c =
     (case newMessages b c of
        (Inl e, c1) \<Rightarrow> c1
      | (Inr msgs, c1) \<Rightarrow> new_request (map (the \<circ> jm_ID) msgs) True None (Many msgs) c1)"
| "start_request (RNotify m ps) c =
     (case newMessage m ps c of
        (Inl e, c1) \<Rightarrow> c1
      | (Inr msg, c1) \<Rightarrow> new_request [] False None (One (msg\<lparr>jm_ID := None\<rparr>)) c1)"
| "start_request (RSubscribe ns ps) c =
     (case newMessage (ns @ subscribeMethodSuffix) ps c of
        (Inl e, c1) \<Rightarrow> c1
      | (Inr msg, c1) \<Rightarrow>
          new_request [the (jm_ID msg)] True (Some (length (hh_subs (cl_h c1)))) (One msg)
            (c1\<lparr>cl_h := (cl_h c1)\<lparr>hh_subs := hh_subs (cl_h c1) @ [newClientSubscription ns]\<rparr>\<rparr>))"

subsection \<open>Steps\<close>

datatype client_event =
    Start request
  | GiveUp nat client_error
  | ReqInit nat
  | WriteOk nat
  | WriteFail nat client_error
  | DialFail nat client_error
  | Reconnected nat
  | ReqSent
  | ReadMsg json
  | ReadErr client_error
  | ReqTimeout nat client_error
  | Receive nat
  | CloseClient
  | SubTurn nat forward_event

definition set_caller :: "nat \<Rightarrow> caller \<Rightarrow> 'v client \<Rightarrow> 'v client" where
  "set_caller p k c = c\<lparr>cl_callers := (cl_callers c)[p := k]\<rparr>"

definition caller_at :: "nat \<Rightarrow> 'v client \<Rightarrow> caller option" where
  "caller_at p c = (if p < length (cl_callers c) then Some (cl_callers c ! p) else None)"

text \<open>The end of \<^verbatim>\<open>send\<close>: the error goes to the dispatch loop, the caller goes on.\<close>

definition sent :: "nat \<Rightarrow> client_error option \<Rightarrow> 'v client \<Rightarrow> 'v client outcome option" where
  "sent p err c =
     (if cl_reqSent c \<noteq> None then None
      else Some (Ret (set_caller p
             (case err of
                Some e \<Rightarrow> Returned [] (Some e)
              | None \<Rightarrow> if op_resp (hh_ops (cl_h c) ! p) = None then Returned [] None else Waiting)
             (c\<lparr>cl_reqSent := Some err\<rparr>))))"

text \<open>What the dispatch loop does with a message: \<^verbatim>\<open>handleBatch\<close> or \<^verbatim>\<open>handleMsg\<close> of its handler.\<close>

definition dispatch_read ::
  "(nat \<Rightarrow> json \<Rightarrow> string + 'v) \<Rightarrow> int \<Rightarrow> json \<Rightarrow> 'v chandler \<Rightarrow> ('v chandler \<times> jsonrpcMessage list) outcome" where
  "dispatch_read un limit raw h =
     (let (msgs, batch) = readBatch raw
      in if batch then
           (if msgs = [] then Ret (h, [])
            else if limit \<noteq> 0 \<and> int (length msgs) > limit then Ret (h, [])
            else handleResponses un msgs h)
         else case msgs of [] \<Rightarrow> Panic IndexOutOfRange | msg # _ \<Rightarrow> handleResponses un [msg] h)"

fun client_turn ::
  "(nat \<Rightarrow> json \<Rightarrow> string + 'v) \<Rightarrow> int \<Rightarrow> client_event \<Rightarrow> 'v client \<Rightarrow> 'v client outcome option" where
  "client_turn un limit (Start r) c = Some (Ret (start_request r c))"
| "client_turn un limit (GiveUp p e) c =
     (case caller_at p c of
        Some (Fresh pl) \<Rightarrow> Some (Ret (set_caller p (Returned [] (Some e)) c))
      | _ \<Rightarrow> None)"
| "client_turn un limit (ReqInit p) c =
     (if \<not> cl_running c \<or> cl_locked c then None
      else case caller_at p c of
             Some (Fresh pl) \<Rightarrow>
               Some (Ret (set_caller p (Writing pl False)
                 (c\<lparr>cl_locked := True, cl_lastOp := Some p, cl_h := addRequestOp p (cl_h c)\<rparr>)))
           | _ \<Rightarrow> None)"
| "client_turn un limit (WriteOk p) c =
     (case caller_at p c of
        Some (Writing pl retry) \<Rightarrow>
          if cl_writeConn c \<and> \<not> cl_codecClosed c then sent p None (c\<lparr>cl_wire := cl_wire c @ [pl]\<rparr>) else None
      | _ \<Rightarrow> None)"
| "client_turn un limit (WriteFail p e) c =
     (case caller_at p c of
        Some (Writing pl retry) \<Rightarrow>
          if \<not> cl_writeConn c then None
          else if retry then sent p (Some e) (c\<lparr>cl_writeConn := False\<rparr>)
          else Some (Ret (set_caller p (Writing pl True) (c\<lparr>cl_writeConn := False\<rparr>)))
      | _ \<Rightarrow> None)"
| "client_turn un limit (DialFail p e) c =
     (case caller_at p c of
        Some (Writing pl retry) \<Rightarrow> if cl_writeConn c then None else sent p (Some e) c
      | _ \<Rightarrow> None)"
| "client_turn un limit (Reconnected p) c =
     (case caller_at p c of
        Some (Writing pl retry) \<Rightarrow>
          if cl_writeConn c \<or> \<not> cl_running c then None
          else Some (obind
                 (if cl_reading c then cancelAllRequests un ErrClientReconnected (cl_lastOp c) (cl_h c) else Ret (cl_h c))
                 (\<lambda>h. case cl_lastOp c of
                        None \<Rightarrow> Panic NilDereference
                      | Some q \<Rightarrow>
                          Ret (c\<lparr>cl_reading := True, cl_codecClosed := False, cl_writeConn := True,
                                 cl_orphans := filter (\<lambda>r. r \<noteq> q) (cl_orphans c),
                                 cl_h := addRequestOp q (h\<lparr>hh_respWait := [], hh_clientSubs := []\<rparr>)\<rparr>)))
      | _ \<Rightarrow> None)"
| "client_turn un limit ReqSent c =
     (case cl_reqSent c of
        None \<Rightarrow> None
      | Some err \<Rightarrow>
          if \<not> cl_running c then None
          else Some (case (err, cl_lastOp c) of
                       (Some e, None) \<Rightarrow> Panic NilDereference
                     | (Some e, Some q) \<Rightarrow>
                         Ret (c\<lparr>cl_h := removeRequestOp q (cl_h c), cl_locked := False, cl_lastOp := None, cl_reqSent := None\<rparr>)
                     | (None, _) \<Rightarrow> Ret (c\<lparr>cl_locked := False, cl_lastOp := None, cl_reqSent := None\<rparr>)))"
| "client_turn un limit (ReadMsg raw) c =
     (if \<not> cl_running c \<or> \<not> cl_reading c then None
      else Some (obind (obind (dispatch_read un limit raw (cl_h c)) (\<lambda>(h, calls). Ret h)) (\<lambda>h. Ret (c\<lparr>cl_h := h\<rparr>))))"
| "client_turn un limit (ReadErr e) c =
     (if \<not> cl_running c \<or> \<not> cl_reading c then None
      else Some (obind (cancelAllRequests un e (cl_lastOp c) (cl_h c))
             (\<lambda>h. Ret (c\<lparr>cl_h := h, cl_reading := False, cl_codecClosed := True,
                     cl_orphans := (case cl_lastOp c of None \<Rightarrow> [] | Some q \<Rightarrow> [q]) @ cl_orphans c\<rparr>))))"
| "client_turn un limit (ReqTimeout p e) c =
     (case caller_at p c of
        Some Waiting \<Rightarrow>
          Some (Ret (set_caller p (Returned [] (Some e))
            (if cl_running c then c\<lparr>cl_h := removeRequestOp p (cl_h c)\<rparr> else c)))
      | _ \<Rightarrow> None)"
| "client_turn un limit (Receive p) c =
     (case caller_at p c of
        Some Waiting \<Rightarrow>
          (case op_resp (hh_ops (cl_h c) ! p) of
             None \<Rightarrow> None
           | Some ch \<Rightarrow>
               (case ch_buf ch of
                  r # rs \<Rightarrow>
                    Some (Ret (set_caller p (Returned r (op_err (hh_ops (cl_h c) ! p)))
                      (c\<lparr>cl_h := set_op p (op_resp_update (\<lambda>_. Some (ch\<lparr>ch_buf := rs\<rparr>))) (cl_h c)\<rparr>)))
                | [] \<Rightarrow>
                    if ch_closed ch
                    then Some (Ret (set_caller p (Returned [] (op_err (hh_ops (cl_h c) ! p))) c))
                    else None))
      | _ \<Rightarrow> None)"
| "client_turn un limit CloseClient c =
     (if \<not> cl_running c then None
      else Some (obind
             (if cl_reading c then cancelAllRequests un ErrClientQuit None (cl_h c) else Ret (cl_h c))
             (\<lambda>h. Ret (c\<lparr>cl_h := h, cl_running := False, cl_codecClosed := True\<rparr>))))"
| "client_turn un limit (SubTurn s e) c =
     (if s < length (hh_subs (cl_h c)) \<and> cs_fw (hh_subs (cl_h c) ! s) \<noteq> None \<and>
         (e = FwSend \<or> e = FwQuit (Some ErrUnsubscribed))
      then Some (obind (sub_turn un e s (cl_h c)) (\<lambda>h. Ret (c\<lparr>cl_h := h\<rparr>)))
      else None)"

section \<open>The store\<close>

text \<open>A request that can still be answered: its channel exists and is open.\<close>

definition open_op :: "requestOp \<Rightarrow> bool" where
  "open_op op = (case op_resp op of None \<Rightarrow> False | Some ch \<Rightarrow> \<not> ch_closed ch)"

definition answers_op :: "requestOp \<Rightarrow> jsonrpcMessage list \<Rightarrow> bool" where
  "answers_op op rs \<longleftrightarrow> (\<exists>r \<in> set rs. isResponse r \<and> (\<exists>i \<in> set (op_ids op). jm_ID r = Some i))"

definition op_buf :: "requestOp \<Rightarrow> jsonrpcMessage list list" where
  "op_buf op = (case op_resp op of None \<Rightarrow> [] | Some ch \<Rightarrow> ch_buf ch)"

definition op_closed :: "requestOp \<Rightarrow> bool" where
  "op_closed op = (case op_resp op of None \<Rightarrow> False | Some ch \<Rightarrow> ch_closed ch)"

definition op_ok :: "requestOp \<Rightarrow> bool" where
  "op_ok op =
     (case op_resp op of
        None \<Rightarrow> op_ids op = []
      | Some ch \<Rightarrow> ch_cap ch = 1 \<and> length (ch_buf ch) \<le> 1 \<and> (\<not> op_hadResponse op \<longrightarrow> ch_buf ch = []) \<and>
          (ch_closed ch \<longrightarrow> op_err op \<noteq> None) \<and> (\<forall>rs \<in> set (ch_buf ch). answers_op op rs))"

definition entry_ok :: "requestOp list \<Rightarrow> json \<times> nat \<Rightarrow> bool" where
  "entry_ok ops e = (snd e < length ops \<and> fst e \<in> set (op_ids (ops ! snd e)) \<and> open_op (ops ! snd e))"

definition sub_ok :: "'v ClientSubscription list \<Rightarrow> string \<times> nat \<Rightarrow> bool" where
  "sub_ok subs e = (snd e < length subs \<and> cs_fw (subs ! snd e) \<noteq> None)"

definition store_ok :: "'v chandler \<Rightarrow> bool" where
  "store_ok h \<longleftrightarrow>
     (\<forall>op \<in> set (hh_ops h). op_ok op \<and> (\<forall>s. op_sub op = Some s \<longrightarrow> s < length (hh_subs h))) \<and>
     (\<forall>e \<in> set (hh_respWait h). entry_ok (hh_ops h) e) \<and> distinct (map fst (hh_respWait h)) \<and>
     (\<forall>e \<in> set (hh_clientSubs h). sub_ok (hh_subs h) e)"

text \<open>How the handler may change a request: nothing is taken back, an answer is in the channel.\<close>

definition op_le :: "requestOp \<Rightarrow> requestOp \<Rightarrow> bool" where
  "op_le op op' \<longleftrightarrow>
     op_ids op' = op_ids op \<and> op_sub op' = op_sub op \<and> (op_resp op' = None \<longleftrightarrow> op_resp op = None) \<and>
     (op_hadResponse op \<longrightarrow> op_hadResponse op') \<and> (op_closed op \<longrightarrow> op_closed op') \<and>
     (op_hadResponse op' \<longrightarrow> op_hadResponse op \<or> op_buf op' \<noteq> []) \<and> (op_buf op \<noteq> [] \<longrightarrow> op_buf op' \<noteq> [])"

definition evolves :: "'v chandler \<Rightarrow> 'v chandler \<Rightarrow> bool" where
  "evolves h h' \<longleftrightarrow> list_all2 op_le (hh_ops h) (hh_ops h') \<and> length (hh_subs h') = length (hh_subs h)"

definition same_closed :: "'v chandler \<Rightarrow> 'v chandler \<Rightarrow> bool" where
  "same_closed h h' \<longleftrightarrow> map op_closed (hh_ops h') = map op_closed (hh_ops h)"

lemma same_closed_refl [simp]: "same_closed h h"
  by (simp add: same_closed_def)

lemma same_closed_trans: "same_closed a b \<Longrightarrow> same_closed b c \<Longrightarrow> same_closed a c"
  by (simp add: same_closed_def)

lemma same_closed_nth:
  "same_closed h h' \<Longrightarrow> p < length (hh_ops h) \<Longrightarrow> op_closed (hh_ops h' ! p) = op_closed (hh_ops h ! p)"
  unfolding same_closed_def by (metis length_map nth_map)

lemma same_closed_ops: "hh_ops h' = hh_ops h \<Longrightarrow> same_closed h h'"
  by (simp add: same_closed_def)

lemma same_closed_set_op:
  "op_closed (f (hh_ops h ! p)) = op_closed (hh_ops h ! p) \<Longrightarrow> same_closed h (set_op p f h)"
  by (cases "p < length (hh_ops h)") (simp_all add: same_closed_def set_op_def map_update list_update_same_conv list_update_beyond not_less)

lemma op_le_refl [simp]: "op_le op op"
  by (simp add: op_le_def)

lemma op_le_trans: "op_le a b \<Longrightarrow> op_le b c \<Longrightarrow> op_le a c"
  by (auto simp: op_le_def)

lemma evolves_refl [simp]: "evolves h h"
  by (simp add: evolves_def list_all2_same)

lemma evolves_trans [trans]: "evolves a b \<Longrightarrow> evolves b c \<Longrightarrow> evolves a c"
  unfolding evolves_def by (auto intro: list_all2_trans [OF op_le_trans])

lemma evolves_length: "evolves h h' \<Longrightarrow> length (hh_ops h') = length (hh_ops h)"
  by (auto simp: evolves_def dest: list_all2_lengthD)

lemma evolves_nth: "evolves h h' \<Longrightarrow> p < length (hh_ops h) \<Longrightarrow> op_le (hh_ops h ! p) (hh_ops h' ! p)"
  by (simp add: evolves_def list_all2_nthD)

lemma evolves_ids: "evolves h h' \<Longrightarrow> p < length (hh_ops h) \<Longrightarrow> op_ids (hh_ops h' ! p) = op_ids (hh_ops h ! p)"
  by (drule (1) evolves_nth) (simp add: op_le_def)

lemma evolves_set_op:
  "p < length (hh_ops h) \<Longrightarrow> op_le (hh_ops h ! p) (f (hh_ops h ! p)) \<Longrightarrow> evolves h (set_op p f h)"
  by (auto simp: evolves_def set_op_def list_all2_conv_all_nth nth_list_update)

lemma set_alist_del [simp]: "set (alist_del k m) = {e \<in> set m. fst e \<noteq> k}"
  by (auto simp: alist_del_def)

lemma distinct_alist_del: "distinct (map fst m) \<Longrightarrow> distinct (map fst (alist_del k m))"
  by (simp add: alist_del_def distinct_map_filter)

lemma entry_ok_set_op:
  "entry_ok ops e \<Longrightarrow> (snd e = p \<Longrightarrow> op_ids op = op_ids (ops ! p) \<and> open_op op) \<Longrightarrow> entry_ok (ops[p := op]) e"
  by (cases "snd e = p") (auto simp: entry_ok_def)

lemma store_ok_del: "store_ok h \<Longrightarrow> store_ok (h\<lparr>hh_respWait := alist_del k (hh_respWait h)\<rparr>)"
  by (auto simp: store_ok_def distinct_alist_del)

lemma store_ok_set_op:
  assumes "store_ok h" and "p < length (hh_ops h)" and "op_ok (f (hh_ops h ! p))"
    and "op_sub (f (hh_ops h ! p)) = op_sub (hh_ops h ! p)"
    and "p \<in> snd ` set (hh_respWait h) \<Longrightarrow>
           op_ids (f (hh_ops h ! p)) = op_ids (hh_ops h ! p) \<and> open_op (f (hh_ops h ! p))"
  shows "store_ok (set_op p f h)"
proof -
  have "op_ok op \<and> (\<forall>s. op_sub op = Some s \<longrightarrow> s < length (hh_subs h))"
    if "op \<in> set ((hh_ops h)[p := f (hh_ops h ! p)])" for op
  proof -
    from that consider "op \<in> set (hh_ops h)" | "op = f (hh_ops h ! p)"
      using set_update_subset_insert [of "hh_ops h" p "f (hh_ops h ! p)"] by blast
    then show ?thesis
    proof cases
      case 2
      with assms(1-4) nth_mem [OF assms(2)] show ?thesis by (auto simp: store_ok_def)
    qed (use assms(1) in \<open>simp add: store_ok_def\<close>)
  qed
  moreover have "entry_ok ((hh_ops h)[p := f (hh_ops h ! p)]) e" if "e \<in> set (hh_respWait h)" for e
    using that assms(1,5) by (intro entry_ok_set_op) (auto simp: store_ok_def)
  ultimately show ?thesis using assms(1) by (auto simp: store_ok_def set_op_def)
qed

lemma store_ok_set_sub:
  assumes "store_ok h" and "cs_fw (hh_subs h ! s) \<noteq> None \<Longrightarrow> cs_fw (f (hh_subs h ! s)) \<noteq> None"
  shows "store_ok (set_sub s f h)"
proof -
  have "sub_ok ((hh_subs h)[s := f (hh_subs h ! s)]) e" if "sub_ok (hh_subs h) e" for e
    using that assms(2) by (cases "snd e = s") (auto simp: sub_ok_def)
  with assms(1) show ?thesis by (simp add: store_ok_def set_sub_def)
qed

lemma evolves_frame:
  "hh_ops h' = hh_ops h \<Longrightarrow> length (hh_subs h') = length (hh_subs h) \<Longrightarrow> evolves h h'"
  by (simp add: evolves_def list_all2_same)

section \<open>What the handler does to the store\<close>

lemma ofold_inv:
  assumes "\<And>x a. x \<in> set xs \<Longrightarrow> I a \<Longrightarrow> \<exists>a'. f x a = Ret a' \<and> I a'" and "I a"
  shows "\<exists>a'. ofold f xs a = Ret a' \<and> I a'"
  using assms
proof (induction xs arbitrary: a)
  case (Cons x xs)
  from Cons.prems obtain a1 where a1: "f x a = Ret a1" "I a1" by (meson list.set_intros(1))
  from Cons.IH [OF Cons.prems(1) a1(2)] have "\<exists>a'. ofold f xs a1 = Ret a' \<and> I a'" by simp
  with a1 show ?case by simp
qed simp

lemma sub_turn_ok:
  assumes "store_ok h" and "cs_fw (hh_subs h ! s) \<noteq> None"
  shows "\<exists>h'. sub_turn un e s h = Ret h' \<and> store_ok h' \<and> evolves h h' \<and> hh_ops h' = hh_ops h \<and>
    hh_respWait h' = hh_respWait h \<and> hh_clientSubs h' = hh_clientSubs h"
proof -
  obtain fw where fw: "cs_fw (hh_subs h ! s) = Some fw" using assms(2) by auto
  show ?thesis
  proof (cases "forward_turn (un s) e fw")
    case (Some fw')
    have "store_ok (set_sub s (cs_fw_update (\<lambda>_. Some fw')) h)" by (rule store_ok_set_sub [OF assms(1)]) simp
    with fw Some show ?thesis by (auto simp: sub_turn_def set_sub_def intro: evolves_frame)
  qed (use assms fw in \<open>simp add: sub_turn_def\<close>)
qed

lemma sub_turn_fw:
  assumes "sub_turn un e s h = Ret h'"
  shows "length (hh_subs h') = length (hh_subs h)"
    and "t < length (hh_subs h) \<Longrightarrow> cs_fw (hh_subs h ! t) \<noteq> None \<Longrightarrow> cs_fw (hh_subs h' ! t) \<noteq> None"
  using assms
  by (auto simp: sub_turn_def set_sub_def split: option.splits) (cases "t = s"; simp)

lemma handleSubscriptionResult_ok:
  assumes "store_ok h"
  shows "\<exists>h'. handleSubscriptionResult un msg h = Ret h' \<and> store_ok h' \<and> evolves h h' \<and>
    hh_respWait h' = hh_respWait h \<and> same_closed h h' \<and> hh_ops h' = hh_ops h"
proof -
  obtain r bad where r: "Unmarshal (dec_struct subscriptionResult_fields) (jm_Params msg) \<lparr>sr_ID = [], sr_Result = None\<rparr> = (r, bad)"
    by force
  show ?thesis
  proof (cases "bad \<or> map_of (hh_clientSubs h) (sr_ID r) = None")
    case True
    with assms r show ?thesis by (auto simp: handleSubscriptionResult_def)
  next
    case False
    then obtain s where s: "map_of (hh_clientSubs h) (sr_ID r) = Some s" by auto
    with assms have "cs_fw (hh_subs h ! s) \<noteq> None"
      by (auto simp: store_ok_def sub_ok_def dest!: map_of_SomeD)
    from sub_turn_ok [OF assms this, of un "FwIn (sr_Result r)"] show ?thesis
      using r s False by (auto simp: handleSubscriptionResult_def deliver_def same_closed_ops)
  qed
qed

lemma op_ok_err [simp]: "open_op op \<Longrightarrow> op_ok (op\<lparr>op_err := e\<rparr>) \<longleftrightarrow> op_ok op"
  by (auto simp: op_ok_def open_op_def answers_op_def split: option.splits)

lemma op_fields_err [simp]:
  "open_op (op\<lparr>op_err := e\<rparr>) = open_op op" "op_le op (op\<lparr>op_err := e\<rparr>)"
  "op_closed (op\<lparr>op_err := e\<rparr>) = op_closed op"
  by (simp_all add: open_op_def op_le_def op_buf_def op_closed_def)

lemma set_op_fields [simp]:
  "hh_subs (set_op p f h) = hh_subs h" "hh_respWait (set_op p f h) = hh_respWait h"
  "hh_clientSubs (set_op p f h) = hh_clientSubs h" "length (hh_ops (set_op p f h)) = length (hh_ops h)"
  by (simp_all add: set_op_def)

lemma nth_set_op [simp]: "p < length (hh_ops h) \<Longrightarrow> hh_ops (set_op p f h) ! p = f (hh_ops h ! p)"
  by (simp add: set_op_def)

lemma set_sub_fields [simp]:
  "hh_ops (set_sub s g h) = hh_ops h" "hh_respWait (set_sub s g h) = hh_respWait h"
  "hh_clientSubs (set_sub s g h) = hh_clientSubs h" "length (hh_subs (set_sub s g h)) = length (hh_subs h)"
  by (simp_all add: set_sub_def)

lemma store_ok_op_err:
  "store_ok h \<Longrightarrow> p < length (hh_ops h) \<Longrightarrow> open_op (hh_ops h ! p) \<Longrightarrow> store_ok (set_op p (op_err_update (\<lambda>_. e)) h)"
  by (rule store_ok_set_op) (auto simp: store_ok_def)

lemma subscription_response_ok:
  assumes "store_ok h" and "p < length (hh_ops h)" and "open_op (hh_ops h ! p)"
  shows "store_ok (subscription_response p msg h) \<and> evolves h (subscription_response p msg h) \<and>
    hh_respWait (subscription_response p msg h) = hh_respWait h \<and>
    open_op (hh_ops (subscription_response p msg h) ! p) \<and> same_closed h (subscription_response p msg h)"
proof (cases "op_sub (hh_ops h ! p)")
  case None
  with assms show ?thesis by (simp add: subscription_response_def)
next
  case (Some s)
  from assms(1,2) Some have s: "s < length (hh_subs h)" by (auto simp: store_ok_def)
  have err: "store_ok (set_op p (op_err_update (\<lambda>_. e)) k) \<and> evolves k (set_op p (op_err_update (\<lambda>_. e)) k) \<and>
      open_op (hh_ops (set_op p (op_err_update (\<lambda>_. e)) k) ! p) \<and> same_closed h (set_op p (op_err_update (\<lambda>_. e)) k)"
    if "store_ok k" "hh_ops k = hh_ops h" for k :: "'a chandler" and e
    using that assms(2,3) same_closed_trans [OF same_closed_ops [of k h] same_closed_set_op]
    by (simp add: store_ok_op_err evolves_set_op)
  show ?thesis
  proof (cases "jm_Error msg")
    case (Some e)
    with \<open>op_sub (hh_ops h ! p) = Some s\<close> err [OF assms(1) refl] show ?thesis
      by (simp add: subscription_response_def)
  next
    case None
    obtain i bad where i: "Unmarshal dec_string (jm_Result msg) (cs_subid (hh_subs h ! s)) = (i, bad)" by force
    let ?h1 = "set_sub s (cs_subid_update (\<lambda>_. i)) h"
    have h1: "store_ok ?h1" by (rule store_ok_set_sub [OF assms(1)]) simp
    have e1: "evolves h ?h1" by (rule evolves_frame) simp_all
    show ?thesis
    proof (cases bad)
      case True
      with None Some i err [OF h1] e1 show ?thesis
        by (auto simp: subscription_response_def intro: evolves_trans)
    next
      case False
      let ?h2 = "set_op p (op_err_update (\<lambda>_. None)) ?h1"
      let ?h3 = "set_sub s run_sub ?h2"
      from err [OF h1] have h2: "store_ok ?h2" "evolves ?h1 ?h2" "open_op (hh_ops ?h2 ! p)" "same_closed h ?h2" by simp_all
      have h3: "store_ok ?h3" by (rule store_ok_set_sub [OF h2(1)]) (simp add: run_sub_def split: option.split)
      have "cs_fw (hh_subs ?h3 ! s) \<noteq> None" using s by (simp add: set_sub_def set_op_def run_sub_def split: option.split)
      then have "store_ok (?h3\<lparr>hh_clientSubs := alist_put i s (hh_clientSubs h)\<rparr>)"
        using h3 s set_alist_put_subset [of i s "hh_clientSubs h"] by (auto simp: store_ok_def sub_ok_def)
      moreover have "evolves ?h2 (?h3\<lparr>hh_clientSubs := alist_put i s (hh_clientSubs h)\<rparr>)"
        by (rule evolves_frame) simp_all
      ultimately show ?thesis
        using None Some i False e1 h2
        by (auto simp: subscription_response_def Let_def same_closed_def intro: evolves_trans)
    qed
  qed
qed

text \<open>
  What a step of the loop over a batch keeps, seen from the state \<open>h0\<close> before the loop:
  requests only leave the map of waiting ids when they have been answered.
\<close>

definition responding :: "'v chandler \<Rightarrow> 'v chandler \<Rightarrow> nat list \<Rightarrow> bool" where
  "responding h0 h resolved \<longleftrightarrow>
     store_ok h0 \<and> store_ok h \<and> evolves h0 h \<and> same_closed h0 h \<and> set (hh_respWait h) \<subseteq> set (hh_respWait h0) \<and>
     (\<forall>e \<in> set (hh_respWait h0). e \<in> set (hh_respWait h) \<or> op_hadResponse (hh_ops h ! snd e)) \<and>
     (\<forall>p \<in> set resolved. p < length (hh_ops h) \<and> op_hadResponse (hh_ops h ! p)) \<and>
     (\<forall>p. p \<notin> snd ` set (hh_respWait h0) \<longrightarrow> hh_ops h ! p = hh_ops h0 ! p)"

lemma subscription_response_other: "q \<noteq> p \<Longrightarrow> hh_ops (subscription_response p msg h) ! q = hh_ops h ! q"
  by (simp add: subscription_response_def set_op_def set_sub_def Let_def split: option.split prod.split)

lemma responding_trans:
  assumes "responding h0 h r" and "responding h h' r'"
  shows "responding h0 h' (r @ r')"
proof -
  have e: "evolves h h'" "length (hh_ops h') = length (hh_ops h)"
    using assms(2) evolves_length by (auto simp: responding_def)
  have had: "op_hadResponse (hh_ops h' ! p)" if "op_hadResponse (hh_ops h ! p)" "p < length (hh_ops h)" for p
    using evolves_nth [OF e(1) that(2)] that(1) by (simp add: op_le_def)
  have "e \<in> set (hh_respWait h') \<or> op_hadResponse (hh_ops h' ! snd e)" if "e \<in> set (hh_respWait h0)" for e
  proof -
    have "evolves h0 h" "entry_ok (hh_ops h0) e" using that assms(1) by (simp_all add: responding_def store_ok_def)
    then have "snd e < length (hh_ops h)" by (auto simp: entry_ok_def dest: evolves_length)
    with that assms had show ?thesis unfolding responding_def by blast
  qed
  moreover have "p < length (hh_ops h') \<and> op_hadResponse (hh_ops h' ! p)" if "p \<in> set (r @ r')" for p
    using that assms e(2) had by (auto simp: responding_def)
  moreover have "evolves h0 h'" using assms by (auto simp: responding_def intro: evolves_trans)
  moreover have "same_closed h0 h'" using assms by (auto simp: responding_def intro: same_closed_trans)
  moreover have "hh_ops h' ! p = hh_ops h0 ! p" if "p \<notin> snd ` set (hh_respWait h0)" for p
  proof -
    from that assms(1) have "p \<notin> snd ` set (hh_respWait h)" unfolding responding_def by blast
    with that assms show ?thesis by (simp add: responding_def)
  qed
  ultimately show ?thesis using assms unfolding responding_def by blast
qed

lemma responding_refl: "store_ok h \<Longrightarrow> responding h h []"
  by (simp add: responding_def)

lemma handleResp_ok:
  assumes "store_ok h" and "isResponse msg" and "msg \<in> set batch"
  shows "\<exists>h' ps. handleResp batch msg h = Ret (h', ps) \<and> responding h h' ps"
proof (cases "Option.bind (jm_ID msg) (map_of (hh_respWait h))")
  case None
  with assms show ?thesis by (auto simp: handleResp_def responding_refl)
next
  case (Some p)
  then obtain i where i: "jm_ID msg = Some i" "map_of (hh_respWait h) i = Some p" by (cases "jm_ID msg") auto
  let ?h1 = "h\<lparr>hh_respWait := alist_del i (hh_respWait h)\<rparr>"
  let ?h2 = "subscription_response p msg ?h1"
  let ?op = "hh_ops ?h2 ! p"
  have p: "p < length (hh_ops h)" "i \<in> set (op_ids (hh_ops h ! p))" "open_op (hh_ops h ! p)"
    using assms(1) i(2) by (auto simp: store_ok_def entry_ok_def dest!: map_of_SomeD)
  have h2: "store_ok ?h2" "evolves ?h1 ?h2" "hh_respWait ?h2 = alist_del i (hh_respWait h)" "open_op ?op"
    "same_closed h ?h2"
    using subscription_response_ok [OF store_ok_del [OF assms(1)], of p i msg] p by (simp_all add: same_closed_def)
  have e2: "evolves h ?h2" by (rule evolves_trans [OF _ h2(2)]) (rule evolves_frame; simp)
  have waiting: "q \<notin> snd ` set (hh_respWait h) \<Longrightarrow> q \<noteq> p" for q
    using i(2) by (auto dest!: map_of_SomeD simp: image_iff)
  have gone: "snd e = p" if "e \<in> set (hh_respWait h)" "e \<notin> set (alist_del i (hh_respWait h))" for e
  proof -
    from that have "(i, snd e) \<in> set (hh_respWait h)" by (cases e) auto
    then have "map_of (hh_respWait h) i = Some (snd e)" using assms(1) by (simp add: store_ok_def)
    with i(2) show ?thesis by simp
  qed
  have resp: "responding h k [p]"
    if "store_ok k" "evolves ?h2 k" "hh_respWait k = hh_respWait ?h2" "op_hadResponse (hh_ops k ! p)" "same_closed ?h2 k"
      "\<And>q. q \<noteq> p \<Longrightarrow> hh_ops k ! q = hh_ops ?h2 ! q" for k
  proof -
    have "hh_ops k ! q = hh_ops h ! q" if "q \<notin> snd ` set (hh_respWait h)" for q
      using \<open>\<And>q. q \<noteq> p \<Longrightarrow> hh_ops k ! q = hh_ops ?h2 ! q\<close> waiting [OF that] subscription_response_other [of q p msg ?h1]
      by simp
    with that(1-5) h2 gone assms(1) p(1) same_closed_trans [OF h2(5) that(5)] evolves_trans [OF e2 that(2)]
      evolves_length [OF e2] evolves_length [OF that(2)]
    show ?thesis unfolding responding_def by auto
  qed
  show ?thesis
  proof (cases "op_hadResponse ?op")
    case True
    with i resp [OF h2(1)] show ?thesis by (simp add: handleResp_def)
  next
    case False
    have p2: "p < length (hh_ops ?h2)" using p(1) evolves_length [OF e2] by simp
    then have ok: "op_ok ?op" using h2(1) by (simp add: store_ok_def)
    then obtain ch where ch: "op_resp ?op = Some ch" "\<not> ch_closed ch" "ch_cap ch = 1" "ch_buf ch = []"
      using h2(4) False by (auto simp: open_op_def op_ok_def split: option.splits)
    let ?f = "\<lambda>op. op\<lparr>op_hadResponse := True, op_resp := Some (ch\<lparr>ch_buf := [batch]\<rparr>)\<rparr>"
    have "answers_op ?op batch"
      using assms(2,3) i(1) p(2) evolves_ids [OF e2 p(1)] by (auto simp: answers_op_def)
    then have ok': "op_ok (?f ?op)" using ch by (simp add: op_ok_def answers_op_def)
    have le: "op_le ?op (?f ?op)" using ch by (simp add: op_le_def op_closed_def op_buf_def)
    have "store_ok (set_op p ?f ?h2)"
      by (rule store_ok_set_op [OF h2(1) p2]) (use ok' ch in \<open>simp_all add: open_op_def\<close>)
    moreover have "evolves ?h2 (set_op p ?f ?h2)" by (rule evolves_set_op [OF p2]) (rule le)
    moreover have "hh_ops (set_op p ?f ?h2) ! q = hh_ops ?h2 ! q" if "q \<noteq> p" for q using that by (simp add: set_op_def)
    moreover have "same_closed ?h2 (set_op p ?f ?h2)" using ch by (intro same_closed_set_op) (simp add: op_closed_def)
    ultimately have "responding h (set_op p ?f ?h2) [p]" using p2 by (intro resp) simp_all
    with i ch False show ?thesis by (simp add: handleResp_def)
  qed
qed

lemma response_turn_ok:
  assumes "responding h0 h resolved" and "msg \<in> set batch"
  shows "\<exists>h' calls' resolved'. response_turn un batch msg (h, calls, resolved) = Ret (h', calls', resolved') \<and>
    responding h0 h' resolved' \<and> calls' = calls @ filter (\<lambda>m. \<not> isResult m) [msg]"
proof -
  have ok: "store_ok h" using assms(1) by (simp add: responding_def)
  consider "isResponse msg" | "\<not> isResponse msg" "isNotification msg" "HasSuffix (jm_Method msg) notificationMethodSuffix"
    | "\<not> isResult msg" "\<not> isResponse msg" "\<not> (isNotification msg \<and> HasSuffix (jm_Method msg) notificationMethodSuffix)"
    by (auto simp: isResult_def)
  then show ?thesis
  proof cases
    case 1
    with handleResp_ok [OF ok 1 assms(2)] show ?thesis
      by (auto simp: response_turn_def isResult_def intro: responding_trans [OF assms(1)])
  next
    case 2
    obtain h' where h': "handleSubscriptionResult un msg h = Ret h'" "store_ok h'" "evolves h h'"
      "hh_respWait h' = hh_respWait h" "same_closed h h'" "hh_ops h' = hh_ops h"
      using handleSubscriptionResult_ok [OF ok] by blast
    have "responding h h' []" using h' ok by (simp add: responding_def)
    from responding_trans [OF assms(1) this] h'(1) 2 show ?thesis
      by (simp add: response_turn_def isResult_def)
  next
    case 3
    then show ?thesis using assms(1) by (auto simp: response_turn_def)
  qed
qed

text \<open>No two requests share an id.\<close>

definition ids_disjoint :: "'v chandler \<Rightarrow> bool" where
  "ids_disjoint h \<longleftrightarrow>
     (\<forall>p q i. p < length (hh_ops h) \<longrightarrow> q < length (hh_ops h) \<longrightarrow>
        i \<in> set (op_ids (hh_ops h ! p)) \<longrightarrow> i \<in> set (op_ids (hh_ops h ! q)) \<longrightarrow> p = q)"

lemma set_fold_alist_del: "set (fold alist_del ks m) = {e \<in> set m. fst e \<notin> set ks}"
  by (induction ks arbitrary: m) auto

lemma distinct_fold_alist_del: "distinct (map fst m) \<Longrightarrow> distinct (map fst (fold alist_del ks m))"
  by (induction ks arbitrary: m) (simp_all add: distinct_alist_del)

lemma removeRequestOp_fields [simp]:
  "hh_ops (removeRequestOp p h) = hh_ops h" "hh_subs (removeRequestOp p h) = hh_subs h"
  "hh_clientSubs (removeRequestOp p h) = hh_clientSubs h"
  "set (hh_respWait (removeRequestOp p h)) = {e \<in> set (hh_respWait h). fst e \<notin> set (op_ids (hh_ops h ! p))}"
  by (simp_all add: removeRequestOp_def set_fold_alist_del)

lemma store_ok_removeRequestOp: "store_ok h \<Longrightarrow> store_ok (removeRequestOp p h)"
  by (auto simp: store_ok_def) (simp add: removeRequestOp_def distinct_fold_alist_del)

lemma evolves_removeRequestOp [simp]: "evolves h (removeRequestOp p h)"
  by (rule evolves_frame) simp_all

lemma fold_removeRequestOp:
  assumes "store_ok h"
  shows "store_ok (fold removeRequestOp ps h) \<and> hh_ops (fold removeRequestOp ps h) = hh_ops h \<and>
    hh_subs (fold removeRequestOp ps h) = hh_subs h \<and>
    set (hh_respWait (fold removeRequestOp ps h)) =
      {e \<in> set (hh_respWait h). \<forall>p \<in> set ps. fst e \<notin> set (op_ids (hh_ops h ! p))}"
  using assms by (induction ps arbitrary: h) (auto simp: store_ok_removeRequestOp)

lemma handleResponses_ok:
  assumes "store_ok h"
  shows "\<exists>h'. handleResponses un batch h = Ret (h', filter (\<lambda>m. \<not> isResult m) batch) \<and> store_ok h' \<and> evolves h h' \<and>
    same_closed h h' \<and> set (hh_respWait h') \<subseteq> set (hh_respWait h) \<and>
    (ids_disjoint h \<longrightarrow>
       (\<forall>e \<in> set (hh_respWait h). e \<in> set (hh_respWait h') \<or> op_hadResponse (hh_ops h' ! snd e))) \<and>
    (\<forall>p. p \<notin> snd ` set (hh_respWait h) \<longrightarrow> hh_ops h' ! p = hh_ops h ! p)"
proof -
  have loop: "\<exists>h' resolved'. ofold (response_turn un batch) msgs (h1, calls, resolved) =
      Ret (h', calls @ filter (\<lambda>m. \<not> isResult m) msgs, resolved') \<and> responding h h' resolved'"
    if "set msgs \<subseteq> set batch" "responding h h1 resolved" for msgs h1 calls resolved
    using that
  proof (induction msgs arbitrary: h1 calls resolved)
    case (Cons msg msgs)
    obtain h2 calls2 resolved2 where
      t: "response_turn un batch msg (h1, calls, resolved) = Ret (h2, calls2, resolved2)" "responding h h2 resolved2"
        "calls2 = calls @ filter (\<lambda>m. \<not> isResult m) [msg]"
      using response_turn_ok [OF Cons.prems(2), of msg batch un calls] Cons.prems(1) by auto
    from Cons.IH [OF _ t(2), of calls2] Cons.prems(1) t show ?case by auto
  qed simp
  from loop [OF subset_refl responding_refl [OF assms], of "[]"] obtain h1 resolved where
    h1: "ofold (response_turn un batch) batch (h, [], []) = Ret (h1, filter (\<lambda>m. \<not> isResult m) batch, resolved)"
    "responding h h1 resolved" by auto
  let ?h' = "fold removeRequestOp resolved h1"
  from h1(2) have r: "store_ok h1" "evolves h h1" "set (hh_respWait h1) \<subseteq> set (hh_respWait h)"
    "same_closed h h1" by (simp_all add: responding_def)
  note f = fold_removeRequestOp [OF r(1), of resolved]
  have ev: "evolves h ?h'" by (rule evolves_trans [OF r(2)]) (rule evolves_frame; use f in simp)
  have "e \<in> set (hh_respWait ?h') \<or> op_hadResponse (hh_ops ?h' ! snd e)"
    if d: "ids_disjoint h" and e: "e \<in> set (hh_respWait h)" for e
  proof (cases "\<exists>p \<in> set resolved. fst e \<in> set (op_ids (hh_ops h1 ! p))")
    case True
    then obtain p where p: "p \<in> set resolved" "fst e \<in> set (op_ids (hh_ops h1 ! p))" by blast
    have len: "p < length (hh_ops h)" using h1(2) p(1) evolves_length [OF r(2)] by (simp add: responding_def)
    have "entry_ok (hh_ops h) e" using assms e by (simp add: store_ok_def)
    then have "snd e = p"
      using d p(2) len evolves_ids [OF r(2) len] by (auto simp: ids_disjoint_def entry_ok_def)
    with h1(2) p(1) f show ?thesis by (auto simp: responding_def)
  next
    case False
    with h1(2) e f show ?thesis by (auto simp: responding_def)
  qed
  moreover have "same_closed h ?h'" using f r(4) by (simp add: same_closed_def)
  moreover have "\<forall>p. p \<notin> snd ` set (hh_respWait h) \<longrightarrow> hh_ops ?h' ! p = hh_ops h ! p"
    using f h1(2) by (simp add: responding_def)
  ultimately show ?thesis using h1(1) f r(3) ev by (auto simp: handleResponses_def)
qed

text \<open>Cancelling closes every waiting request but the one in flight, and empties both maps.\<close>

definition ops_ok :: "'v chandler \<Rightarrow> bool" where
  "ops_ok h \<longleftrightarrow> (\<forall>op \<in> set (hh_ops h). op_ok op \<and> (\<forall>s. op_sub op = Some s \<longrightarrow> s < length (hh_subs h)))"

lemma cancel_loop:
  assumes "ops_ok h" and "hh_respWait h = es" and "distinct (map fst es)"
    and "\<forall>e \<in> set es. snd e < length (hh_ops h) \<and> (snd e \<in> set D \<or> open_op (hh_ops h ! snd e))"
  shows "\<exists>h' D'. ofold (cancel_turn err) es (h, D) = Ret (h', D') \<and> ops_ok h' \<and> evolves h h' \<and> hh_respWait h' = [] \<and>
    hh_subs h' = hh_subs h \<and> hh_clientSubs h' = hh_clientSubs h \<and>
    (\<forall>e \<in> set es. snd e \<in> set D \<or> op_closed (hh_ops h' ! snd e)) \<and> (\<forall>p \<in> set D. hh_ops h' ! p = hh_ops h ! p) \<and>
    (\<forall>p. p \<notin> snd ` set es \<longrightarrow> hh_ops h' ! p = hh_ops h ! p)"
  using assms
proof (induction es arbitrary: h D)
  case (Cons e es)
  obtain i p where e: "e = (i, p)" by (cases e)
  have del: "alist_del i (hh_respWait h) = es"
    using Cons.prems(2,3) e by (auto simp: alist_del_def intro!: filter_True)
  let ?h1 = "h\<lparr>hh_respWait := es\<rparr>"
  show ?case
  proof (cases "p \<in> set D")
    case True
    from Cons.IH [of ?h1 D] Cons.prems obtain h' D' where
      "ofold (cancel_turn err) es (?h1, D) = Ret (h', D') \<and> ops_ok h' \<and> evolves ?h1 h' \<and> hh_respWait h' = [] \<and>
        hh_subs h' = hh_subs h \<and> hh_clientSubs h' = hh_clientSubs h \<and>
        (\<forall>e \<in> set es. snd e \<in> set D \<or> op_closed (hh_ops h' ! snd e)) \<and> (\<forall>p \<in> set D. hh_ops h' ! p = hh_ops h ! p) \<and>
        (\<forall>p. p \<notin> snd ` set es \<longrightarrow> hh_ops h' ! p = hh_ops h ! p)"
      by (auto simp: ops_ok_def)
    moreover have "cancel_turn err e (h, D) = Ret (?h1, D)" using True e by (simp add: cancel_turn_def del)
    moreover have "evolves h ?h1" by (rule evolves_frame) simp_all
    ultimately show ?thesis using True e by (auto intro: evolves_trans)
  next
    case False
    with Cons.prems(4) e have p: "p < length (hh_ops h)" "open_op (hh_ops h ! p)" by auto
    then obtain ch where ch: "op_resp (hh_ops h ! p) = Some ch" "\<not> ch_closed ch"
      by (auto simp: open_op_def split: option.splits)
    let ?f = "\<lambda>op. op\<lparr>op_err := Some err, op_resp := Some (ch\<lparr>ch_closed := True\<rparr>)\<rparr>"
    let ?h2 = "set_op p ?f ?h1"
    have ok: "op_ok (?f (hh_ops h ! p))" and le: "op_le (hh_ops h ! p) (?f (hh_ops h ! p))"
      using ch nth_mem [OF p(1)] Cons.prems(1)
      by (auto simp: ops_ok_def op_ok_def op_le_def op_buf_def op_closed_def answers_op_def dest!: bspec)
    have ok2: "ops_ok ?h2"
      unfolding ops_ok_def
    proof
      fix op assume "op \<in> set (hh_ops ?h2)"
      then have "op \<in> set (hh_ops h) \<or> op = ?f (hh_ops h ! p)"
        using set_update_subset_insert [of "hh_ops h" p "?f (hh_ops h ! p)"] by (auto simp: set_op_def)
      then show "op_ok op \<and> (\<forall>s. op_sub op = Some s \<longrightarrow> s < length (hh_subs ?h2))"
        using ok Cons.prems(1) nth_mem [OF p(1)] by (auto simp: ops_ok_def)
    qed
    have ev: "evolves h ?h2"
      using evolves_trans [OF evolves_frame [of ?h1 h] evolves_set_op [of p ?h1 ?f]] p le by simp
    have "\<forall>e \<in> set es. snd e < length (hh_ops ?h2) \<and> (snd e \<in> set (p # D) \<or> open_op (hh_ops ?h2 ! snd e))"
      using Cons.prems(4) by (auto simp: set_op_def nth_list_update)
    from Cons.IH [OF ok2 _ _ this] Cons.prems(3) obtain h' D' where
      h': "ofold (cancel_turn err) es (?h2, p # D) = Ret (h', D')" "ops_ok h'" "evolves ?h2 h'" "hh_respWait h' = []"
        "hh_subs h' = hh_subs h" "hh_clientSubs h' = hh_clientSubs h"
        "\<forall>e \<in> set es. snd e \<in> set (p # D) \<or> op_closed (hh_ops h' ! snd e)"
        "\<forall>q \<in> set (p # D). hh_ops h' ! q = hh_ops ?h2 ! q"
        "\<forall>q. q \<notin> snd ` set es \<longrightarrow> hh_ops h' ! q = hh_ops ?h2 ! q"
      by auto
    have "op_closed (hh_ops h' ! p)" using h'(8) p(1) by (simp add: op_closed_def)
    moreover have "\<forall>q \<in> set D. hh_ops h' ! q = hh_ops h ! q"
    proof
      fix q assume "q \<in> set D"
      moreover from this False have "q \<noteq> p" by auto
      ultimately show "hh_ops h' ! q = hh_ops h ! q" using h'(8) by (simp add: set_op_def)
    qed
    moreover have "cancel_turn err e (h, D) = Ret (?h2, p # D)"
      using False e ch del by (simp add: cancel_turn_def)
    moreover have "\<forall>q. q \<notin> snd ` set (e # es) \<longrightarrow> hh_ops h' ! q = hh_ops h ! q"
      using h'(9) e by (simp add: set_op_def)
    ultimately show ?thesis using h' evolves_trans [OF ev h'(3)] e by auto
  qed
qed simp

lemma cancelAllRequests_ok:
  assumes "store_ok h"
  shows "\<exists>h'. cancelAllRequests un err infl h = Ret h' \<and> store_ok h' \<and> evolves h h' \<and> hh_respWait h' = [] \<and>
    hh_clientSubs h' = [] \<and> (\<forall>e \<in> set (hh_respWait h). Some (snd e) = infl \<or> op_closed (hh_ops h' ! snd e)) \<and>
    (\<forall>p. infl = Some p \<or> p \<notin> snd ` set (hh_respWait h) \<longrightarrow> hh_ops h' ! p = hh_ops h ! p)"
proof -
  let ?D = "case infl of None \<Rightarrow> [] | Some p \<Rightarrow> [p]"
  have "ops_ok h" "distinct (map fst (hh_respWait h))"
    "\<forall>e \<in> set (hh_respWait h). snd e < length (hh_ops h) \<and> (snd e \<in> set ?D \<or> open_op (hh_ops h ! snd e))"
    using assms by (auto simp: store_ok_def ops_ok_def entry_ok_def)
  from cancel_loop [OF this(1) refl this(2,3), of err] obtain h1 D where
    h1: "ofold (cancel_turn err) (hh_respWait h) (h, ?D) = Ret (h1, D)" "ops_ok h1" "evolves h h1" "hh_respWait h1 = []"
      "hh_subs h1 = hh_subs h" "hh_clientSubs h1 = hh_clientSubs h"
      "\<forall>e \<in> set (hh_respWait h). snd e \<in> set ?D \<or> op_closed (hh_ops h1 ! snd e)"
      "\<forall>p \<in> set ?D. hh_ops h1 ! p = hh_ops h ! p" "\<forall>p. p \<notin> snd ` set (hh_respWait h) \<longrightarrow> hh_ops h1 ! p = hh_ops h ! p"
    by blast
  have ok1: "store_ok h1" using h1 assms by (auto simp: store_ok_def ops_ok_def)
  have subs: "\<exists>h'. ofold (close_sub_turn un err) es k = Ret h' \<and> store_ok h' \<and> evolves k h' \<and> hh_ops h' = hh_ops k \<and>
      hh_respWait h' = hh_respWait k \<and> set (hh_clientSubs h') = {e \<in> set (hh_clientSubs k). fst e \<notin> fst ` set es}"
    if "store_ok k" "\<forall>e \<in> set es. sub_ok (hh_subs k) e" for es k
    using that
  proof (induction es arbitrary: k)
    case (Cons e es)
    obtain i s where e: "e = (i, s)" by (cases e)
    let ?k = "k\<lparr>hh_clientSubs := alist_del i (hh_clientSubs k)\<rparr>"
    have "store_ok ?k" using Cons.prems(1) by (auto simp: store_ok_def)
    moreover have "cs_fw (hh_subs ?k ! s) \<noteq> None" using Cons.prems(2) e by (simp add: sub_ok_def)
    ultimately obtain k1 where k1: "sub_turn un (FwQuit (Some err)) s ?k = Ret k1" "store_ok k1" "evolves ?k k1"
      "hh_ops k1 = hh_ops k" "hh_respWait k1 = hh_respWait k" "hh_clientSubs k1 = alist_del i (hh_clientSubs k)"
      using sub_turn_ok [of ?k s un "FwQuit (Some err)"] by auto
    have fw: "sub_ok (hh_subs k1) e'" if "sub_ok (hh_subs k) e'" for e'
      using sub_turn_fw [OF k1(1)] that by (auto simp: sub_ok_def)
    from Cons.IH [OF k1(2)] Cons.prems(2) fw obtain h' where
      "ofold (close_sub_turn un err) es k1 = Ret h'" "store_ok h'" "evolves k1 h'" "hh_ops h' = hh_ops k1"
      "hh_respWait h' = hh_respWait k1" "set (hh_clientSubs h') = {e \<in> set (hh_clientSubs k1). fst e \<notin> fst ` set es}"
      by auto
    moreover have "evolves k k1" using k1(3) evolves_frame [of ?k k] evolves_trans by fastforce
    moreover have "close_sub_turn un err e k = Ret k1" using k1(1) e by (simp add: close_sub_turn_def sub_close_def)
    ultimately show ?case using k1 e by (auto intro: evolves_trans)
  qed simp
  have "\<forall>e \<in> set (hh_clientSubs h1). sub_ok (hh_subs h1) e" using ok1 by (simp add: store_ok_def)
  from subs [OF ok1 this] obtain h' where
    h': "ofold (close_sub_turn un err) (hh_clientSubs h1) h1 = Ret h'" "store_ok h'" "evolves h1 h'"
      "hh_ops h' = hh_ops h1" "hh_respWait h' = []"
      "set (hh_clientSubs h') = {e \<in> set (hh_clientSubs h1). fst e \<notin> fst ` set (hh_clientSubs h1)}"
    using h1(4) by auto
  have "set (hh_clientSubs h') = {}" unfolding h'(6) by auto
  then have empty: "hh_clientSubs h' = []" by simp
  have "cancelAllRequests un err infl h = Ret h'" using h1(1) h'(1) by (simp add: cancelAllRequests_def)
  moreover have "\<forall>e \<in> set (hh_respWait h). Some (snd e) = infl \<or> op_closed (hh_ops h' ! snd e)"
    using h1(7) h'(4) by (auto split: option.splits)
  moreover have "\<forall>p. infl = Some p \<or> p \<notin> snd ` set (hh_respWait h) \<longrightarrow> hh_ops h' ! p = hh_ops h ! p"
    using h1(8,9) h'(4) by auto
  ultimately show ?thesis using h' empty evolves_trans [OF h1(3) h'(3)] by blast
qed

end
