(* ===== verification/Rpc_Dispatch.thy ===== *)
theory Rpc_Dispatch
  imports Rpc_Client
begin

text \<open>
  The dispatch loop of \<^verbatim>\<open>src/rpc/client.go\<close> over whole runs: the states that callers,
  dispatch loop and read loop can reach together, the invariant they keep, and what becomes of
  the responses a caller gets. Ids come from a 32-bit counter, so the statements about the
  fate of a request hold while fewer than $2^{32}$ ids have been drawn.

  Shown here: no step panics (no channel is closed twice, nothing is sent on a closed or full
  channel, no nil request is registered); what a caller receives answers its own request; a
  waiting request is answered, closed or still waited for, except when it had been written
  already as the read loop failed and before the dispatch loop noticed: such a request is
  forgotten for good.
\<close>

section \<open>Runs\<close>

inductive client_reachable :: "(nat \<Rightarrow> json \<Rightarrow> string + 'v) \<Rightarrow> int \<Rightarrow> 'v client \<Rightarrow> bool"
  for un limit where
  init: "client_reachable un limit initClient"
| turn: "client_reachable un limit c \<Longrightarrow> client_turn un limit e c = Some (Ret c') \<Longrightarrow> client_reachable un limit c'"

fun client_run ::
  "(nat \<Rightarrow> json \<Rightarrow> string + 'v) \<Rightarrow> int \<Rightarrow> client_event list \<Rightarrow> 'v client \<Rightarrow> 'v client outcome option" where
  "client_run un limit [] c = Some (Ret c)"
| "client_run un limit (e # es) c =
     (case client_turn un limit e c of
        Some (Ret c') \<Rightarrow> client_run un limit es c'
      | r \<Rightarrow> r)"

lemma client_run_reachable:
  "client_run un limit es c = Some (Ret c') \<Longrightarrow> client_reachable un limit c \<Longrightarrow> client_reachable un limit c'"
proof (induction es arbitrary: c)
  case (Cons e es)
  then show ?case by (auto split: option.splits outcome.splits intro: client_reachable.turn)
qed simp

section \<open>The invariant\<close>

abbreviation op_at :: "'v client \<Rightarrow> nat \<Rightarrow> requestOp" where
  "op_at c p \<equiv> hh_ops (cl_h c) ! p"

abbreviation caller_of :: "'v client \<Rightarrow> nat \<Rightarrow> caller" where
  "caller_of c p \<equiv> cl_callers c ! p"

definition waits_for :: "'v client \<Rightarrow> nat \<Rightarrow> bool" where
  "waits_for c p \<longleftrightarrow> p \<in> snd ` set (hh_respWait (cl_h c))"

fun is_writing :: "caller \<Rightarrow> bool" where
  "is_writing (Writing pl retry) = True"
| "is_writing _ = False"

fun is_returned :: "caller \<Rightarrow> bool" where
  "is_returned (Returned rs err) = True"
| "is_returned _ = False"

fun is_fresh :: "caller \<Rightarrow> bool" where
  "is_fresh (Fresh pl) = True"
| "is_fresh _ = False"

text \<open>What holds of one request and its caller.\<close>

definition sending_inv :: "'v client \<Rightarrow> nat \<Rightarrow> bool" where
  "sending_inv c p \<longleftrightarrow> (is_writing (caller_of c p) \<longrightarrow> cl_lastOp c = Some p \<and> cl_reqSent c = None)"

definition fresh_inv :: "'v client \<Rightarrow> nat \<Rightarrow> bool" where
  "fresh_inv c p \<longleftrightarrow>
     (is_fresh (caller_of c p) \<longrightarrow> \<not> waits_for c p \<and> \<not> op_closed (op_at c p) \<and> cl_lastOp c \<noteq> Some p)"

definition channel_inv :: "'v client \<Rightarrow> nat \<Rightarrow> bool" where
  "channel_inv c p \<longleftrightarrow>
     (caller_of c p = Waiting \<longrightarrow> op_resp (op_at c p) \<noteq> None) \<and>
     (\<not> is_returned (caller_of c p) \<longrightarrow> op_hadResponse (op_at c p) \<longrightarrow> op_buf (op_at c p) \<noteq> [])"

definition served_inv :: "'v client \<Rightarrow> nat \<Rightarrow> bool" where
  "served_inv c p \<longleftrightarrow>
     (caller_of c p = Waiting \<or> is_writing (caller_of c p) \<longrightarrow>
        op_ids (op_at c p) \<noteq> [] \<longrightarrow> cl_draws c < 2 ^ 32 \<longrightarrow> p \<notin> set (cl_orphans c) \<longrightarrow>
        op_hadResponse (op_at c p) \<or> op_closed (op_at c p) \<or> waits_for c p)"

definition conn_inv :: "'v client \<Rightarrow> nat \<Rightarrow> bool" where
  "conn_inv c p \<longleftrightarrow> (caller_of c p = Waiting \<longrightarrow> waits_for c p \<longrightarrow> cl_running c \<and> cl_reading c)"

definition returned_inv :: "'v client \<Rightarrow> nat \<Rightarrow> bool" where
  "returned_inv c p \<longleftrightarrow>
     (\<forall>rs. caller_of c p = Returned rs None \<longrightarrow> op_resp (op_at c p) \<noteq> None \<longrightarrow> answers_op (op_at c p) rs)"

definition ids_inv :: "'v client \<Rightarrow> nat \<Rightarrow> bool" where
  "ids_inv c p \<longleftrightarrow> (\<forall>i \<in> set (op_ids (op_at c p)). \<exists>k. 0 < k \<and> k \<le> cl_draws c \<and> i = id_json (of_nat k))"

definition request_inv :: "'v client \<Rightarrow> nat \<Rightarrow> bool" where
  "request_inv c p \<longleftrightarrow>
     sending_inv c p \<and> fresh_inv c p \<and> channel_inv c p \<and> served_inv c p \<and> conn_inv c p \<and> returned_inv c p \<and> ids_inv c p"

lemmas request_inv_defs =
  request_inv_def sending_inv_def fresh_inv_def channel_inv_def served_inv_def conn_inv_def returned_inv_def ids_inv_def

definition client_inv :: "'v client \<Rightarrow> bool" where
  "client_inv c \<longleftrightarrow>
     store_ok (cl_h c) \<and> length (cl_callers c) = length (hh_ops (cl_h c)) \<and>
     (cl_draws c < 2 ^ 32 \<longrightarrow> ids_disjoint (cl_h c)) \<and> cl_idCounter c = of_nat (cl_draws c) \<and>
     (\<forall>p. cl_lastOp c = Some p \<longrightarrow> p < length (cl_callers c) \<and> (cl_running c \<longrightarrow> \<not> op_closed (op_at c p))) \<and>
     (cl_running c \<longrightarrow> (cl_locked c \<longleftrightarrow> cl_lastOp c \<noteq> None)) \<and>
     (\<forall>err. cl_reqSent c = Some err \<longrightarrow>
        (\<exists>p. cl_lastOp c = Some p \<and> (err \<noteq> None \<longrightarrow> is_returned (caller_of c p)))) \<and>
     (\<not> (cl_running c \<and> cl_reading c) \<longrightarrow> cl_codecClosed c) \<and>
     (\<forall>p < length (cl_callers c). request_inv c p)"

lemma client_inv_init: "client_inv initClient"
  by (simp add: client_inv_def initClient_def store_ok_def ids_disjoint_def)

subsection \<open>Steps of the handler\<close>

lemma ids_disjoint_evolves: "evolves h h' \<Longrightarrow> ids_disjoint h \<Longrightarrow> ids_disjoint h'"
  by (simp add: ids_disjoint_def evolves_ids evolves_length)

lemma answers_op_ids: "op_ids op' = op_ids op \<Longrightarrow> answers_op op' rs = answers_op op rs"
  by (simp add: answers_op_def)

text \<open>
  A step that leaves the callers alone: it may change the store along \<open>evolves\<close>, the state of
  the connection and the record of orphans.
\<close>

lemma client_inv_update:
  assumes inv: "client_inv c"
    and same: "cl_callers c' = cl_callers c" "cl_lastOp c' = cl_lastOp c" "cl_locked c' = cl_locked c"
      "cl_reqSent c' = cl_reqSent c" "cl_idCounter c' = cl_idCounter c" "cl_draws c' = cl_draws c"
    and store: "store_ok (cl_h c')" "evolves (cl_h c) (cl_h c')"
    and conn: "cl_running c' \<Longrightarrow> cl_running c" "\<not> (cl_running c' \<and> cl_reading c') \<Longrightarrow> cl_codecClosed c'"
    and closed: "\<And>p. p < length (cl_callers c) \<Longrightarrow> op_closed (op_at c' p) \<Longrightarrow>
      op_closed (op_at c p) \<or> \<not> is_fresh (caller_of c p) \<and> \<not> (cl_running c' \<and> cl_lastOp c = Some p)"
    and waits: "\<And>p. p < length (cl_callers c) \<Longrightarrow> waits_for c' p \<Longrightarrow>
      \<not> is_fresh (caller_of c p) \<and> (caller_of c p = Waiting \<longrightarrow> cl_running c' \<and> cl_reading c')"
    and served: "\<And>p. p < length (cl_callers c) \<Longrightarrow> caller_of c p = Waiting \<or> is_writing (caller_of c p) \<Longrightarrow>
      op_ids (op_at c p) \<noteq> [] \<Longrightarrow> cl_draws c < 2 ^ 32 \<Longrightarrow> p \<notin> set (cl_orphans c') \<Longrightarrow>
      op_hadResponse (op_at c' p) \<or> op_closed (op_at c' p) \<or> waits_for c' p"
  shows "client_inv c'"
proof -
  from inv have len: "length (cl_callers c) = length (hh_ops (cl_h c))" by (simp add: client_inv_def)
  have req: "request_inv c' p" if p: "p < length (cl_callers c)" for p
  proof -
    have r: "request_inv c p" using inv p by (simp add: client_inv_def)
    have le: "op_le (op_at c p) (op_at c' p)" using evolves_nth [OF store(2)] p len by simp
    then have ids: "op_ids (op_at c' p) = op_ids (op_at c p)" by (simp add: op_le_def)
    have res: "op_resp (op_at c' p) = None \<longleftrightarrow> op_resp (op_at c p) = None"
      and had: "op_hadResponse (op_at c' p) \<Longrightarrow> op_hadResponse (op_at c p) \<or> op_buf (op_at c' p) \<noteq> []"
      and buf: "op_buf (op_at c p) \<noteq> [] \<Longrightarrow> op_buf (op_at c' p) \<noteq> []"
      using le by (simp_all add: op_le_def)
    have "sending_inv c' p" using r by (simp add: request_inv_def sending_inv_def same)
    moreover have "fresh_inv c' p" using r closed [OF p] waits [OF p] by (auto simp: request_inv_def fresh_inv_def same)
    moreover have "channel_inv c' p" using r res had buf by (auto simp: request_inv_def channel_inv_def same)
    moreover have "served_inv c' p" using served [OF p] by (simp add: served_inv_def same ids)
    moreover have "conn_inv c' p" using waits [OF p] by (simp add: conn_inv_def same)
    moreover have "returned_inv c' p"
      using r res answers_op_ids [OF ids] by (simp add: request_inv_def returned_inv_def same)
    moreover have "ids_inv c' p" using r by (simp add: request_inv_def ids_inv_def same ids)
    ultimately show ?thesis by (simp add: request_inv_def)
  qed
  have "\<not> op_closed (op_at c' p)" if "cl_lastOp c = Some p" "cl_running c'" for p
    using inv that closed [of p] conn(1) by (auto simp: client_inv_def)
  with inv req same store conn evolves_length [OF store(2)] ids_disjoint_evolves [OF store(2)] show ?thesis
    unfolding client_inv_def by auto
qed

lemma served_before:
  assumes "client_inv c" and "p < length (cl_callers c)" and "caller_of c p = Waiting \<or> is_writing (caller_of c p)"
    and "op_ids (op_at c p) \<noteq> []" and "cl_draws c < 2 ^ 32" and "p \<notin> set (cl_orphans c)"
  shows "op_hadResponse (op_at c p) \<or> op_closed (op_at c p) \<or> waits_for c p"
proof -
  from assms(1,2) have "request_inv c p" by (simp add: client_inv_def)
  with assms(3-) show ?thesis by (simp add: request_inv_def served_inv_def)
qed

lemma waits_before:
  assumes "client_inv c" and "waits_for c p"
  shows "p < length (cl_callers c)" "\<not> is_fresh (caller_of c p)"
    "caller_of c p = Waiting \<Longrightarrow> cl_running c \<and> cl_reading c"
proof -
  have "p < length (hh_ops (cl_h c))"
    using assms by (auto simp: client_inv_def store_ok_def entry_ok_def waits_for_def)
  then show p: "p < length (cl_callers c)" using assms(1) by (simp add: client_inv_def)
  then have "request_inv c p" using assms(1) by (simp add: client_inv_def)
  with assms(2) show "\<not> is_fresh (caller_of c p)" "caller_of c p = Waiting \<Longrightarrow> cl_running c \<and> cl_reading c"
    by (auto simp: request_inv_def fresh_inv_def conn_inv_def)
qed

lemma still_had:
  assumes "evolves (cl_h c) h'" and "client_inv c" and "p < length (cl_callers c)"
  shows "op_hadResponse (op_at c p) \<Longrightarrow> op_hadResponse (hh_ops h' ! p)" "op_closed (op_at c p) \<Longrightarrow> op_closed (hh_ops h' ! p)"
  using evolves_nth [OF assms(1)] assms(2,3) by (auto simp: client_inv_def op_le_def)

subsection \<open>Reading\<close>

lemma dispatch_read_ok:
  assumes "store_ok h"
  shows "\<exists>h' calls. dispatch_read un limit raw h = Ret (h', calls) \<and> store_ok h' \<and> evolves h h' \<and>
    same_closed h h' \<and> set (hh_respWait h') \<subseteq> set (hh_respWait h) \<and>
    (ids_disjoint h \<longrightarrow>
       (\<forall>e \<in> set (hh_respWait h). e \<in> set (hh_respWait h') \<or> op_hadResponse (hh_ops h' ! snd e))) \<and>
    (\<forall>p. p \<notin> snd ` set (hh_respWait h) \<longrightarrow> hh_ops h' ! p = hh_ops h ! p)"
proof -
  obtain msgs batch where m: "readBatch raw = (msgs, batch)" by force
  have ne: "\<not> batch \<Longrightarrow> msgs \<noteq> []" using m by (cases raw) (auto simp: readBatch_def parseMessage_def)
  consider "batch" "msgs = [] \<or> limit \<noteq> 0 \<and> int (length msgs) > limit"
    | ms where "dispatch_read un limit raw h = handleResponses un ms h"
    using m ne by (cases "batch"; cases msgs; cases "limit \<noteq> 0 \<and> int (length msgs) > limit")
      (auto simp: dispatch_read_def)
  then show ?thesis
  proof cases
    case 1
    with m assms show ?thesis by (auto simp: dispatch_read_def)
  next
    case 2
    with handleResponses_ok [OF assms, of un ms] show ?thesis by auto
  qed
qed

lemma client_inv_read:
  assumes inv: "client_inv c" and "cl_running c" and "cl_reading c"
  shows "\<exists>c'. client_turn un limit (ReadMsg raw) c = Some (Ret c') \<and> client_inv c'"
proof -
  have ok: "store_ok (cl_h c)" using inv by (simp add: client_inv_def)
  obtain h' calls where h': "dispatch_read un limit raw (cl_h c) = Ret (h', calls)" "store_ok h'" "evolves (cl_h c) h'"
    "same_closed (cl_h c) h'" "set (hh_respWait h') \<subseteq> set (hh_respWait (cl_h c))"
    "ids_disjoint (cl_h c) \<longrightarrow>
       (\<forall>e \<in> set (hh_respWait (cl_h c)). e \<in> set (hh_respWait h') \<or> op_hadResponse (hh_ops h' ! snd e))"
    using dispatch_read_ok [OF ok] by blast
  have len: "length (cl_callers c) = length (hh_ops (cl_h c))" using inv by (simp add: client_inv_def)
  have "client_inv (c\<lparr>cl_h := h'\<rparr>)"
  proof (rule client_inv_update [OF inv])
    show "op_closed (op_at c p) \<or> \<not> is_fresh (caller_of c p) \<and> \<not> (cl_running (c\<lparr>cl_h := h'\<rparr>) \<and> cl_lastOp c = Some p)"
      if "p < length (cl_callers c)" "op_closed (op_at (c\<lparr>cl_h := h'\<rparr>) p)" for p
      using that same_closed_nth [OF h'(4)] len by simp
    show "\<not> is_fresh (caller_of c p) \<and> (caller_of c p = Waiting \<longrightarrow> cl_running (c\<lparr>cl_h := h'\<rparr>) \<and> cl_reading (c\<lparr>cl_h := h'\<rparr>))"
      if "waits_for (c\<lparr>cl_h := h'\<rparr>) p" for p
      using waits_before [OF inv, of p] that h'(5) by (auto simp: waits_for_def)
    show "op_hadResponse (op_at (c\<lparr>cl_h := h'\<rparr>) p) \<or> op_closed (op_at (c\<lparr>cl_h := h'\<rparr>) p) \<or> waits_for (c\<lparr>cl_h := h'\<rparr>) p"
      if p: "p < length (cl_callers c)" "caller_of c p = Waiting \<or> is_writing (caller_of c p)" "op_ids (op_at c p) \<noteq> []"
        "cl_draws c < 2 ^ 32" "p \<notin> set (cl_orphans (c\<lparr>cl_h := h'\<rparr>))" for p
    proof -
      from inv p(4) have "ids_disjoint (cl_h c)" by (simp add: client_inv_def)
      with h'(6) have "waits_for c p \<Longrightarrow> waits_for (c\<lparr>cl_h := h'\<rparr>) p \<or> op_hadResponse (hh_ops h' ! p)"
        by (auto simp: waits_for_def image_iff)
      with served_before [OF inv p(1-4)] p(5) still_had [OF h'(3) inv p(1)] show ?thesis by auto
    qed
  qed (use h' inv in \<open>auto simp: client_inv_def\<close>)
  with assms h'(1) show ?thesis by auto
qed

subsection \<open>The end of a connection and a new one\<close>

lemma client_inv_cancel:
  assumes inv: "client_inv c" and infl: "infl = None \<or> infl = cl_lastOp c"
  obtains h' where "cancelAllRequests un err infl (cl_h c) = Ret h'" "store_ok h'" "evolves (cl_h c) h'"
    "hh_respWait h' = []" "hh_clientSubs h' = []"
    "\<And>p. waits_for c p \<Longrightarrow> infl = Some p \<or> op_closed (hh_ops h' ! p)"
    "\<And>p. op_closed (hh_ops h' ! p) \<Longrightarrow> op_closed (op_at c p) \<or> waits_for c p \<and> infl \<noteq> Some p"
proof -
  have "store_ok (cl_h c)" using inv by (simp add: client_inv_def)
  from cancelAllRequests_ok [OF this, of un err infl] obtain h' where
    h': "cancelAllRequests un err infl (cl_h c) = Ret h'" "store_ok h'" "evolves (cl_h c) h'"
      "hh_respWait h' = []" "hh_clientSubs h' = []"
      "\<forall>e \<in> set (hh_respWait (cl_h c)). Some (snd e) = infl \<or> op_closed (hh_ops h' ! snd e)"
      "\<forall>p. infl = Some p \<or> p \<notin> snd ` set (hh_respWait (cl_h c)) \<longrightarrow> hh_ops h' ! p = op_at c p"
    by blast
  from h'(7) have "op_closed (op_at c p) \<or> waits_for c p \<and> infl \<noteq> Some p" if "op_closed (hh_ops h' ! p)" for p
    using that unfolding waits_for_def by metis
  with h' show ?thesis by (intro that [of h']) (auto simp: waits_for_def)
qed

lemma client_inv_readErr:
  assumes inv: "client_inv c" and r: "cl_running c" "cl_reading c"
  shows "\<exists>c'. client_turn un limit (ReadErr e) c = Some (Ret c') \<and> client_inv c'"
proof -
  obtain h' where h': "cancelAllRequests un e (cl_lastOp c) (cl_h c) = Ret h'" "store_ok h'" "evolves (cl_h c) h'"
    "hh_respWait h' = []" "hh_clientSubs h' = []"
    "\<And>p. waits_for c p \<Longrightarrow> cl_lastOp c = Some p \<or> op_closed (hh_ops h' ! p)"
    "\<And>p. op_closed (hh_ops h' ! p) \<Longrightarrow> op_closed (op_at c p) \<or> waits_for c p \<and> cl_lastOp c \<noteq> Some p"
    by (rule client_inv_cancel [OF inv, of "cl_lastOp c"]) auto
  let ?c = "c\<lparr>cl_h := h', cl_reading := False, cl_codecClosed := True,
    cl_orphans := (case cl_lastOp c of None \<Rightarrow> [] | Some q \<Rightarrow> [q]) @ cl_orphans c\<rparr>"
  have "client_inv ?c"
  proof (rule client_inv_update [OF inv])
    show "op_closed (op_at c p) \<or> \<not> is_fresh (caller_of c p) \<and> \<not> (cl_running ?c \<and> cl_lastOp c = Some p)"
      if "op_closed (op_at ?c p)" for p
      using h'(7) [of p] that waits_before(2) [OF inv] by auto
    show "\<not> is_fresh (caller_of c p) \<and> (caller_of c p = Waiting \<longrightarrow> cl_running ?c \<and> cl_reading ?c)"
      if "waits_for ?c p" for p
      using that h'(4) by (simp add: waits_for_def)
    show "op_hadResponse (op_at ?c p) \<or> op_closed (op_at ?c p) \<or> waits_for ?c p"
      if p: "p < length (cl_callers c)" "caller_of c p = Waiting \<or> is_writing (caller_of c p)" "op_ids (op_at c p) \<noteq> []"
        "cl_draws c < 2 ^ 32" "p \<notin> set (cl_orphans ?c)" for p
      using served_before [OF inv p(1-4)] p(5) still_had [OF h'(3) inv p(1)] h'(6) [of p] by auto
  qed (use h' in auto)
  with r h'(1) show ?thesis by auto
qed

lemma client_inv_close:
  assumes inv: "client_inv c" and r: "cl_running c"
  shows "\<exists>c'. client_turn un limit CloseClient c = Some (Ret c') \<and> client_inv c'"
proof -
  obtain h' where h': "(if cl_reading c then cancelAllRequests un ErrClientQuit None (cl_h c) else Ret (cl_h c)) = Ret h'"
    "store_ok h'" "evolves (cl_h c) h'"
    "\<And>p. waits_for c p \<Longrightarrow> op_closed (hh_ops h' ! p) \<or> \<not> cl_reading c \<and> p \<in> snd ` set (hh_respWait h')"
    "\<And>p. op_closed (hh_ops h' ! p) \<Longrightarrow> op_closed (op_at c p) \<or> waits_for c p"
    "\<And>p. p \<in> snd ` set (hh_respWait h') \<Longrightarrow> waits_for c p \<and> \<not> cl_reading c"
  proof (cases "cl_reading c")
    case True
    show ?thesis
      by (rule client_inv_cancel [OF inv, of None un ErrClientQuit]) (auto intro!: that simp: True)
  next
    case False
    show ?thesis
      by (rule that [of "cl_h c"]) (use False inv in \<open>auto simp: client_inv_def waits_for_def\<close>)
  qed
  let ?c = "c\<lparr>cl_h := h', cl_running := False, cl_codecClosed := True\<rparr>"
  have "client_inv ?c"
  proof (rule client_inv_update [OF inv])
    show "op_closed (op_at c p) \<or> \<not> is_fresh (caller_of c p) \<and> \<not> (cl_running ?c \<and> cl_lastOp c = Some p)"
      if "op_closed (op_at ?c p)" for p
      using h'(5) [of p] that waits_before(2) [OF inv] by auto
    show "\<not> is_fresh (caller_of c p) \<and> (caller_of c p = Waiting \<longrightarrow> cl_running ?c \<and> cl_reading ?c)"
      if "waits_for ?c p" for p
      using that h'(6) [of p] waits_before [OF inv, of p] by (auto simp: waits_for_def)
    show "op_hadResponse (op_at ?c p) \<or> op_closed (op_at ?c p) \<or> waits_for ?c p"
      if p: "p < length (cl_callers c)" "caller_of c p = Waiting \<or> is_writing (caller_of c p)" "op_ids (op_at c p) \<noteq> []"
        "cl_draws c < 2 ^ 32" "p \<notin> set (cl_orphans ?c)" for p
      using served_before [OF inv p(1-4)] p(5) still_had [OF h'(3) inv p(1)] h'(4) [of p]
      by (auto simp: waits_for_def)
  qed (use h' in auto)
  with r h'(1) show ?thesis by auto
qed

lemma map_of_fold_put:
  "map_of (fold (\<lambda>i m. alist_put i p m) is m) = (\<lambda>i. if i \<in> set is then Some p else map_of m i)"
  by (induction "is" arbitrary: m) (auto simp: fun_eq_iff)

lemma distinct_fold_put: "distinct (map fst m) \<Longrightarrow> distinct (map fst (fold (\<lambda>i m. alist_put i p m) is m))"
  by (induction "is" arbitrary: m) (simp_all add: distinct_alist_put)

lemma addRequestOp_fields [simp]:
  "hh_ops (addRequestOp p h) = hh_ops h" "hh_subs (addRequestOp p h) = hh_subs h"
  "hh_clientSubs (addRequestOp p h) = hh_clientSubs h"
  by (simp_all add: addRequestOp_def)

lemma addRequestOp_waits:
  assumes "store_ok h"
  shows "e \<in> set (hh_respWait (addRequestOp p h)) \<longleftrightarrow>
    (if fst e \<in> set (op_ids (hh_ops h ! p)) then snd e = p else e \<in> set (hh_respWait h))"
proof -
  have d: "distinct (map fst (hh_respWait h))" using assms by (simp add: store_ok_def)
  have "e \<in> set (hh_respWait (addRequestOp p h)) \<longleftrightarrow> map_of (hh_respWait (addRequestOp p h)) (fst e) = Some (snd e)"
    using distinct_fold_put [OF d] by (simp add: addRequestOp_def)
  also have "\<dots> \<longleftrightarrow> (if fst e \<in> set (op_ids (hh_ops h ! p)) then p = snd e else map_of (hh_respWait h) (fst e) = Some (snd e))"
    by (simp add: addRequestOp_def map_of_fold_put)
  finally show ?thesis using d by auto
qed

lemma addRequestOp_ok:
  assumes "store_ok h" and "p < length (hh_ops h)" and "\<not> op_closed (hh_ops h ! p)"
  shows "store_ok (addRequestOp p h)"
proof -
  have "entry_ok (hh_ops h) e" if "e \<in> set (hh_respWait (addRequestOp p h))" for e
  proof (cases "fst e \<in> set (op_ids (hh_ops h ! p))")
    case True
    have "op_ok (hh_ops h ! p)" using assms(1,2) by (simp add: store_ok_def)
    with True assms(3) have "open_op (hh_ops h ! p)"
      by (auto simp: op_ok_def open_op_def op_closed_def split: option.splits)
    with True that assms(1,2) show ?thesis by (simp add: addRequestOp_waits entry_ok_def)
  next
    case False
    with that assms(1) show ?thesis by (simp add: addRequestOp_waits store_ok_def)
  qed
  moreover have "distinct (map fst (hh_respWait (addRequestOp p h)))"
    using assms(1) by (simp add: store_ok_def addRequestOp_def distinct_fold_put)
  ultimately show ?thesis using assms(1) by (simp add: store_ok_def)
qed

lemma client_inv_reconnected:
  assumes inv: "client_inv c" and w: "caller_at p c = Some (Writing pl retry)" and r: "cl_running c" "\<not> cl_writeConn c"
  shows "\<exists>c'. client_turn un limit (Reconnected p) c = Some (Ret c') \<and> client_inv c'"
proof -
  have p: "p < length (cl_callers c)" "caller_of c p = Writing pl retry" using w by (auto simp: caller_at_def split: if_splits)
  then have last: "cl_lastOp c = Some p" using inv by (auto simp: client_inv_def request_inv_def sending_inv_def)
  obtain h where h: "(if cl_reading c then cancelAllRequests un ErrClientReconnected (cl_lastOp c) (cl_h c) else Ret (cl_h c)) = Ret h"
    "store_ok h" "evolves (cl_h c) h"
    "\<And>q. waits_for c q \<Longrightarrow> q \<noteq> p \<Longrightarrow> op_closed (hh_ops h ! q) \<or> \<not> cl_reading c"
    "\<And>q. op_closed (hh_ops h ! q) \<Longrightarrow> op_closed (op_at c q) \<or> waits_for c q \<and> q \<noteq> p"
  proof (cases "cl_reading c")
    case True
    show ?thesis
      by (rule client_inv_cancel [OF inv, of "cl_lastOp c" un ErrClientReconnected]) (auto intro!: that simp: True last)
  next
    case False
    show ?thesis by (rule that [of "cl_h c"]) (use False inv in \<open>auto simp: client_inv_def\<close>)
  qed
  let ?h1 = "h\<lparr>hh_respWait := [], hh_clientSubs := []\<rparr>"
  let ?c = "c\<lparr>cl_reading := True, cl_codecClosed := False, cl_writeConn := True,
    cl_orphans := filter (\<lambda>r. r \<noteq> p) (cl_orphans c), cl_h := addRequestOp p ?h1\<rparr>"
  have len: "length (cl_callers c) = length (hh_ops (cl_h c))" using inv by (simp add: client_inv_def)
  have ok1: "store_ok ?h1" using h(2) by (simp add: store_ok_def)
  have ev: "evolves (cl_h c) (addRequestOp p ?h1)"
    by (rule evolves_trans [OF h(3)]) (rule evolves_frame; simp)
  have open_p: "\<not> op_closed (hh_ops h ! p)" using h(5) [of p] inv last r(1) by (auto simp: client_inv_def)
  have p1: "p < length (hh_ops h)" using p(1) len evolves_length [OF h(3)] by simp
  have waits: "waits_for ?c q \<longleftrightarrow> q = p \<and> op_ids (op_at c p) \<noteq> []" for q
  proof -
    have "waits_for ?c q \<longleftrightarrow> (\<exists>i. (i, q) \<in> set (hh_respWait (addRequestOp p ?h1)))" by (force simp: waits_for_def)
    also have "\<dots> \<longleftrightarrow> q = p \<and> op_ids (op_at c p) \<noteq> []"
      using evolves_ids [OF h(3), of p] p(1) len by (cases "op_ids (op_at c p)") (auto simp: addRequestOp_waits [OF ok1])
    finally show ?thesis .
  qed
  have "client_inv ?c"
  proof (rule client_inv_update [OF inv])
    show "store_ok (cl_h ?c)" using addRequestOp_ok [OF ok1] p1 open_p by simp
    show "op_closed (op_at c q) \<or> \<not> is_fresh (caller_of c q) \<and> \<not> (cl_running ?c \<and> cl_lastOp c = Some q)"
      if "op_closed (op_at ?c q)" for q
      using h(5) [of q] that waits_before(2) [OF inv] last by auto
    show "\<not> is_fresh (caller_of c q) \<and> (caller_of c q = Waiting \<longrightarrow> cl_running ?c \<and> cl_reading ?c)"
      if "waits_for ?c q" for q
      using that p(2) r(1) unfolding waits by simp
    show "op_hadResponse (op_at ?c q) \<or> op_closed (op_at ?c q) \<or> waits_for ?c q"
      if q: "q < length (cl_callers c)" "caller_of c q = Waiting \<or> is_writing (caller_of c q)" "op_ids (op_at c q) \<noteq> []"
        "cl_draws c < 2 ^ 32" "q \<notin> set (cl_orphans ?c)" for q
    proof (cases "q = p")
      case True
      with q(3) show ?thesis unfolding waits by simp
    next
      case False
      then have "caller_of c q = Waiting"
        using q(1,2) inv last by (auto simp: client_inv_def request_inv_def sending_inv_def)
      then have "waits_for c q \<Longrightarrow> op_closed (hh_ops h ! q)"
        using h(4) [OF _ False] waits_before(3) [OF inv, of q] by auto
      with served_before [OF inv q(1-4)] q(5) False still_had [OF h(3) inv q(1)] show ?thesis by auto
    qed
  qed (use ev last r(1) in auto)
  moreover have "client_turn un limit (Reconnected p) c = Some (Ret ?c)" using w r h(1) last by simp
  ultimately show ?thesis by blast
qed

subsection \<open>Steps of a caller\<close>

text \<open>A step of the caller of request \<open>p\<close>: the other requests keep what they had.\<close>

lemma client_inv_caller:
  assumes inv: "client_inv c" and p: "p < length (cl_callers c)"
    and same: "cl_idCounter c' = cl_idCounter c" "cl_draws c' = cl_draws c" "cl_running c' = cl_running c"
      "cl_reading c' = cl_reading c" "cl_codecClosed c' = cl_codecClosed c" "cl_orphans c' = cl_orphans c"
    and callers: "cl_callers c' = (cl_callers c)[p := k]"
    and store: "store_ok (cl_h c')" "hh_ops (cl_h c') = (hh_ops (cl_h c))[p := op]" "op_ids op = op_ids (op_at c p)"
    and waits: "\<And>q. q \<noteq> p \<Longrightarrow> waits_for c' q \<Longrightarrow> waits_for c q"
      "\<And>q. q \<noteq> p \<Longrightarrow> cl_draws c < 2 ^ 32 \<Longrightarrow> waits_for c q \<Longrightarrow> waits_for c' q"
    and last: "\<And>q. cl_lastOp c' = Some q \<Longrightarrow> q < length (cl_callers c) \<and> (cl_running c \<longrightarrow> \<not> op_closed (op_at c' q))"
      "cl_running c \<Longrightarrow> cl_locked c' \<longleftrightarrow> cl_lastOp c' \<noteq> None"
      "\<And>err. cl_reqSent c' = Some err \<Longrightarrow>
         \<exists>q. cl_lastOp c' = Some q \<and> (err \<noteq> None \<longrightarrow> is_returned (caller_of c' q))"
    and others: "\<And>q. q \<noteq> p \<Longrightarrow> q < length (cl_callers c) \<Longrightarrow>
      (is_writing (caller_of c q) \<longrightarrow> cl_lastOp c' = Some q \<and> cl_reqSent c' = None) \<and>
      (is_fresh (caller_of c q) \<longrightarrow> cl_lastOp c' \<noteq> Some q)"
    and req: "request_inv c' p"
  shows "client_inv c'"
proof -
  have len: "length (cl_callers c) = length (hh_ops (cl_h c))" using inv by (simp add: client_inv_def)
  have ids: "op_ids (op_at c' q) = op_ids (op_at c q)" if "q < length (cl_callers c)" for q
    using that store(2,3) len by (cases "q = p") simp_all
  have "request_inv c' q" if q: "q \<noteq> p" "q < length (cl_callers c)" for q
  proof -
    have at: "op_at c' q = op_at c q" "caller_of c' q = caller_of c q" using q(1) store(2) callers by simp_all
    have "request_inv c q" using inv q(2) by (simp add: client_inv_def)
    with others [OF q] waits(1,2) [OF q(1)] show ?thesis
      unfolding request_inv_defs at same by auto
  qed
  with req have "\<forall>q < length (cl_callers c). request_inv c' q" by metis
  moreover have "ids_disjoint (cl_h c) \<Longrightarrow> ids_disjoint (cl_h c')"
    using ids store(2) len by (simp add: ids_disjoint_def)
  ultimately show ?thesis
    using inv same callers store last unfolding client_inv_def by auto
qed

lemma caller_atD: "caller_at p c = Some k \<Longrightarrow> p < length (cl_callers c) \<and> caller_of c p = k"
  by (auto simp: caller_at_def split: if_splits)

lemma request_invD: "client_inv c \<Longrightarrow> p < length (cl_callers c) \<Longrightarrow> request_inv c p"
  by (simp add: client_inv_def)

text \<open>The caller alone moves: giving up, a first failed write, and the end of \<^verbatim>\<open>send\<close>.\<close>

lemma client_inv_set_caller:
  assumes inv: "client_inv c" and p: "p < length (cl_callers c)"
    and k: "\<not> is_fresh k" "is_writing k \<Longrightarrow> is_writing (caller_of c p)" "k = Waiting \<Longrightarrow> is_writing (caller_of c p) \<and>
        op_resp (op_at c p) \<noteq> None \<and> cl_running c \<and> cl_reading c"
      "\<And>rs. k = Returned rs None \<Longrightarrow> op_resp (op_at c p) = None \<or> answers_op (op_at c p) rs"
    and ret: "\<not> is_returned k \<Longrightarrow> \<not> is_returned (caller_of c p)"
  shows "client_inv (set_caller p k c)"
proof (rule client_inv_caller [OF inv p, where op = "op_at c p" and k = k])
  let ?c = "set_caller p k c"
  have at: "caller_of ?c p = k" "op_at ?c p = op_at c p" "waits_for ?c p = waits_for c p" "cl_lastOp ?c = cl_lastOp c"
    "cl_reqSent ?c = cl_reqSent c" "cl_running ?c = cl_running c" "cl_reading ?c = cl_reading c" "cl_draws ?c = cl_draws c"
    "cl_orphans ?c = cl_orphans c"
    using p by (simp_all add: set_caller_def waits_for_def)
  note r = request_invD [OF inv p]
  have "sending_inv ?c p" using r k(2) by (simp add: request_inv_def sending_inv_def at)
  moreover have "fresh_inv ?c p" using k(1) by (simp add: fresh_inv_def at)
  moreover have "channel_inv ?c p" using r k(3) ret unfolding request_inv_def channel_inv_def at by blast
  moreover have "served_inv ?c p" using r k(2,3) unfolding request_inv_def served_inv_def at by blast
  moreover have "conn_inv ?c p" using k(3) unfolding conn_inv_def at by blast
  moreover have "returned_inv ?c p" using k(4) unfolding returned_inv_def at by (intro allI impI) auto
  moreover have "ids_inv ?c p" using r by (simp add: request_inv_def ids_inv_def at)
  ultimately show "request_inv ?c p" by (simp add: request_inv_def)
  show "\<exists>q. cl_lastOp (set_caller p k c) = Some q \<and> (err \<noteq> None \<longrightarrow> is_returned (caller_of (set_caller p k c) q))"
    if "cl_reqSent (set_caller p k c) = Some err" for err
  proof -
    from inv that obtain q where q: "cl_lastOp c = Some q" "err \<noteq> None \<longrightarrow> is_returned (caller_of c q)"
      by (auto simp: client_inv_def set_caller_def)
    have "is_returned k" if "q = p" "err \<noteq> None" using ret q that by blast
    with q p show ?thesis by (auto simp: set_caller_def nth_list_update)
  qed
  show "cl_lastOp (set_caller p k c) = Some q \<Longrightarrow>
      q < length (cl_callers c) \<and> (cl_running c \<longrightarrow> \<not> op_closed (op_at (set_caller p k c) q))" for q
    using inv by (simp add: client_inv_def set_caller_def)
  show "(is_writing (caller_of c q) \<longrightarrow> cl_lastOp (set_caller p k c) = Some q \<and> cl_reqSent (set_caller p k c) = None) \<and>
      (is_fresh (caller_of c q) \<longrightarrow> cl_lastOp (set_caller p k c) \<noteq> Some q)" if "q < length (cl_callers c)" for q
    using request_invD [OF inv that] by (simp add: request_inv_def sending_inv_def fresh_inv_def set_caller_def)
qed (use inv p in \<open>auto simp: set_caller_def client_inv_def waits_for_def list_update_same_conv\<close>)

lemma client_inv_sent:
  assumes inv: "client_inv c" and p: "caller_at p c = Some (Writing pl retry)" and none: "cl_reqSent c = None"
    and ok: "err = None \<Longrightarrow> cl_running c \<and> cl_reading c"
  shows "\<exists>c'. sent p err c = Some (Ret c') \<and> client_inv c'"
proof -
  let ?k = "case err of Some e \<Rightarrow> Returned [] (Some e)
     | None \<Rightarrow> if op_resp (op_at c p) = None then Returned [] None else Waiting"
  let ?c = "set_caller p ?k c"
  have p': "p < length (cl_callers c)" "caller_of c p = Writing pl retry" using caller_atD [OF p] by simp_all
  have last: "cl_lastOp c = Some p" using request_invD [OF inv p'(1)] p'(2) by (simp add: request_inv_def sending_inv_def)
  have c1: "client_inv ?c"
    by (rule client_inv_set_caller [OF inv p'(1)]) (use p' ok in \<open>auto split: option.splits if_splits\<close>)
  have "request_inv (?c\<lparr>cl_reqSent := Some err\<rparr>) q" if "q < length (cl_callers ?c)" for q
  proof -
    have r: "request_inv ?c q" by (rule request_invD [OF c1 that])
    have "\<not> is_writing (caller_of ?c q)"
      using r last p' by (cases "q = p") (auto simp: request_inv_def sending_inv_def set_caller_def split: option.split)
    with r show ?thesis by (simp add: request_inv_defs waits_for_def)
  qed
  then have "client_inv (?c\<lparr>cl_reqSent := Some err\<rparr>)"
    using c1 last p' by (auto simp: client_inv_def set_caller_def)
  moreover have "sent p err c = Some (Ret (?c\<lparr>cl_reqSent := Some err\<rparr>))"
    using none by (simp add: sent_def set_caller_def)
  ultimately show ?thesis by blast
qed

lemma client_inv_irrelevant [simp]:
  "client_inv (c\<lparr>cl_wire := w\<rparr>) = client_inv c" "client_inv (c\<lparr>cl_writeConn := b\<rparr>) = client_inv c"
  by (simp_all add: client_inv_def request_inv_defs waits_for_def)

lemma caller_at_irrelevant [simp]:
  "caller_at p (c\<lparr>cl_wire := w\<rparr>) = caller_at p c" "caller_at p (c\<lparr>cl_writeConn := b\<rparr>) = caller_at p c"
  by (simp_all add: caller_at_def)

lemma writing_no_reqSent: "client_inv c \<Longrightarrow> caller_at p c = Some (Writing pl retry) \<Longrightarrow> cl_reqSent c = None"
  using caller_atD [of p c] request_invD [of c p] by (auto simp: request_inv_def sending_inv_def)

lemma client_inv_reqInit:
  assumes inv: "client_inv c" and r: "cl_running c" "\<not> cl_locked c" and p: "caller_at p c = Some (Fresh pl)"
  shows "\<exists>c'. client_turn un limit (ReqInit p) c = Some (Ret c') \<and> client_inv c'"
proof -
  let ?c = "set_caller p (Writing pl False) (c\<lparr>cl_locked := True, cl_lastOp := Some p, cl_h := addRequestOp p (cl_h c)\<rparr>)"
  have p': "p < length (cl_callers c)" "caller_of c p = Fresh pl" using caller_atD [OF p] by simp_all
  note rp = request_invD [OF inv p'(1)]
  have ok: "store_ok (cl_h c)" and len: "length (cl_callers c) = length (hh_ops (cl_h c))" and none: "cl_lastOp c = None"
    and sent: "cl_reqSent c = None" and disj: "cl_draws c < 2 ^ 32 \<Longrightarrow> ids_disjoint (cl_h c)"
    using inv r by (auto simp: client_inv_def)
  have fresh: "\<not> op_closed (op_at c p)" "\<not> waits_for c p" using rp p'(2) by (auto simp: request_inv_def fresh_inv_def)
  have w: "waits_for ?c q \<longleftrightarrow> (\<exists>i. if i \<in> set (op_ids (op_at c p)) then q = p else (i, q) \<in> set (hh_respWait (cl_h c)))" for q
    by (auto simp: waits_for_def set_caller_def image_iff addRequestOp_waits [OF ok] Bex_def)
  have at: "caller_of ?c p = Writing pl False" "op_at ?c p = op_at c p" "cl_lastOp ?c = Some p" "cl_reqSent ?c = None"
    "cl_draws ?c = cl_draws c" "cl_orphans ?c = cl_orphans c"
    using p'(1) sent by (simp_all add: set_caller_def)
  have "client_inv ?c"
  proof (rule client_inv_caller [OF inv p'(1), where op = "op_at c p" and k = "Writing pl False"])
    show "store_ok (cl_h ?c)" using addRequestOp_ok [OF ok] p'(1) len fresh(1) by (simp add: set_caller_def)
    show "waits_for c q" if "q \<noteq> p" "waits_for ?c q" for q
      using that(1) that(2) [unfolded w] by (force simp: waits_for_def split: if_splits)
    show "waits_for ?c q" if q: "q \<noteq> p" "cl_draws c < 2 ^ 32" "waits_for c q" for q
    proof -
      from q(3) obtain i where i: "(i, q) \<in> set (hh_respWait (cl_h c))" by (auto simp: waits_for_def)
      then have "q < length (hh_ops (cl_h c))" "i \<in> set (op_ids (op_at c q))"
        using ok by (auto simp: store_ok_def entry_ok_def)
      then have "i \<notin> set (op_ids (op_at c p))"
        using disj [OF q(2)] q(1) p'(1) len by (auto simp: ids_disjoint_def)
      with i show ?thesis unfolding w by auto
    qed
    show "(is_writing (caller_of c q) \<longrightarrow> cl_lastOp ?c = Some q \<and> cl_reqSent ?c = None) \<and>
        (is_fresh (caller_of c q) \<longrightarrow> cl_lastOp ?c \<noteq> Some q)" if "q \<noteq> p" "q < length (cl_callers c)" for q
      using request_invD [OF inv that(2)] none that(1) by (auto simp: request_inv_def sending_inv_def set_caller_def)
    have "sending_inv ?c p" "fresh_inv ?c p" "conn_inv ?c p" "returned_inv ?c p"
      by (simp_all add: sending_inv_def fresh_inv_def conn_inv_def returned_inv_def at)
    moreover have "channel_inv ?c p" using rp p'(2) by (simp add: request_inv_def channel_inv_def at)
    moreover have "served_inv ?c p"
      unfolding served_inv_def at w by (cases "op_ids (op_at c p)") auto
    moreover have "ids_inv ?c p" using rp by (simp add: request_inv_def ids_inv_def at)
    ultimately show "request_inv ?c p" by (simp add: request_inv_def)
  qed (use inv p' fresh sent in \<open>auto simp: set_caller_def client_inv_def list_update_same_conv\<close>)
  with r p show ?thesis by auto
qed

lemma client_inv_removeRequestOp:
  assumes inv: "client_inv c" and q: "q < length (cl_callers c)" "is_returned (caller_of c q)"
  shows "client_inv (c\<lparr>cl_h := removeRequestOp q (cl_h c)\<rparr>)" (is "client_inv ?c")
proof (rule client_inv_update [OF inv])
  have ok: "store_ok (cl_h c)" and len: "length (cl_callers c) = length (hh_ops (cl_h c))"
    using inv by (simp_all add: client_inv_def)
  show "store_ok (cl_h ?c)" using store_ok_removeRequestOp [OF ok] by simp
  show "\<not> is_fresh (caller_of c p) \<and> (caller_of c p = Waiting \<longrightarrow> cl_running ?c \<and> cl_reading ?c)"
    if "waits_for ?c p" for p
    using waits_before [OF inv, of p] that by (auto simp: waits_for_def)
  show "op_hadResponse (op_at ?c p) \<or> op_closed (op_at ?c p) \<or> waits_for ?c p"
    if p: "p < length (cl_callers c)" "caller_of c p = Waiting \<or> is_writing (caller_of c p)" "op_ids (op_at c p) \<noteq> []"
      "cl_draws c < 2 ^ 32" "p \<notin> set (cl_orphans ?c)" for p
  proof -
    have pq: "p \<noteq> q" using p(2) q(2) by (cases "caller_of c q") auto
    have "waits_for ?c p" if "waits_for c p"
    proof -
      from that obtain i where i: "(i, p) \<in> set (hh_respWait (cl_h c))" by (auto simp: waits_for_def)
      then have "i \<in> set (op_ids (op_at c p))" using ok by (auto simp: store_ok_def entry_ok_def)
      then have "i \<notin> set (op_ids (op_at c q))"
        using inv p(1,4) q(1) pq len by (auto simp: client_inv_def ids_disjoint_def)
      with i show ?thesis by (force simp: waits_for_def)
    qed
    with served_before [OF inv p(1-4)] p(5) show ?thesis by auto
  qed
qed (use inv in \<open>auto simp: client_inv_def\<close>)

lemma client_inv_reqSent:
  assumes inv: "client_inv c" and r: "cl_running c" "cl_reqSent c = Some err"
  shows "\<exists>c'. client_turn un limit ReqSent c = Some (Ret c') \<and> client_inv c'"
proof -
  from inv r(2) obtain q where q: "cl_lastOp c = Some q" "err \<noteq> None \<longrightarrow> is_returned (caller_of c q)" "q < length (cl_callers c)"
    by (auto simp: client_inv_def)
  obtain c1 where c1: "client_inv c1" "cl_callers c1 = cl_callers c" "cl_reqSent c1 = Some err"
    "client_turn un limit ReqSent c = Some (Ret (c1\<lparr>cl_locked := False, cl_lastOp := None, cl_reqSent := None\<rparr>))"
  proof (cases err)
    case None
    with inv r q show ?thesis by (intro that [of c]) auto
  next
    case (Some e)
    with inv r q client_inv_removeRequestOp [OF inv q(3)] show ?thesis
      by (intro that [of "c\<lparr>cl_h := removeRequestOp q (cl_h c)\<rparr>"]) auto
  qed
  let ?c = "c1\<lparr>cl_locked := False, cl_lastOp := None, cl_reqSent := None\<rparr>"
  have "request_inv ?c p" if "p < length (cl_callers c1)" for p
    using request_invD [OF c1(1) that] c1(3) by (simp add: request_inv_defs waits_for_def)
  then have "client_inv ?c" using c1(1) by (simp add: client_inv_def)
  with c1(4) show ?thesis by blast
qed

lemma client_inv_receive:
  assumes inv: "client_inv c" and w: "caller_at p c = Some Waiting" and t: "client_turn un limit (Receive p) c = Some r"
  shows "\<exists>c'. r = Ret c' \<and> client_inv c'"
proof -
  have p: "p < length (cl_callers c)" "caller_of c p = Waiting" using caller_atD [OF w] by simp_all
  have ok: "store_ok (cl_h c)" and len: "length (cl_callers c) = length (hh_ops (cl_h c))"
    using inv by (simp_all add: client_inv_def)
  have opk: "op_ok (op_at c p)" using ok p(1) len by (simp add: store_ok_def)
  from t w obtain ch where ch: "op_resp (op_at c p) = Some ch" by (auto split: option.splits)
  show ?thesis
  proof (cases "ch_buf ch")
    case Nil
    with t w ch have r: "ch_closed ch" "r = Ret (set_caller p (Returned [] (op_err (op_at c p))) c)"
      by (auto split: if_splits)
    then have "op_err (op_at c p) \<noteq> None" using opk ch by (simp add: op_ok_def)
    then have "client_inv (set_caller p (Returned [] (op_err (op_at c p))) c)"
      by (intro client_inv_set_caller [OF inv p(1)]) auto
    with r show ?thesis by blast
  next
    case (Cons rs rest)
    let ?k = "Returned rs (op_err (op_at c p))"
    let ?f = "op_resp_update (\<lambda>_. Some (ch\<lparr>ch_buf := rest\<rparr>))"
    let ?c1 = "set_caller p ?k c"
    let ?c = "set_caller p ?k (c\<lparr>cl_h := set_op p ?f (cl_h c)\<rparr>)"
    have ans: "answers_op (op_at c p) rs" and rest: "rest = []" using opk ch Cons by (auto simp: op_ok_def)
    have c1: "client_inv ?c1" by (rule client_inv_set_caller [OF inv p(1)]) (use ans in auto)
    have h: "hh_ops (cl_h ?c) = (hh_ops (cl_h c))[p := ?f (op_at c p)]" by (simp add: set_caller_def set_op_def)
    have w: "waits_for ?c q \<longleftrightarrow> waits_for ?c1 q" for q by (simp add: waits_for_def set_caller_def)
    have "store_ok (set_op p ?f (cl_h c))"
    proof (rule store_ok_set_op [OF ok])
      show "op_ok (?f (op_at c p))" using opk ch Cons by (auto simp: op_ok_def answers_op_def)
      show "op_ids (?f (op_at c p)) = op_ids (op_at c p) \<and> open_op (?f (op_at c p))"
        if "p \<in> snd ` set (hh_respWait (cl_h c))"
        using that ok ch by (auto simp: store_ok_def entry_ok_def open_op_def)
    qed (use p(1) len in simp_all)
    then have sok: "store_ok (cl_h ?c)" by (simp add: set_caller_def)
    have req: "request_inv ?c p"
      using request_invD [OF c1, of p] p(1) ans ch h len
      by (auto simp: request_inv_defs set_caller_def waits_for_def set_op_def answers_op_def)
    have "op_closed (?f (op_at c p)) = op_closed (op_at c p)" using ch by (simp add: op_closed_def)
    then have cl: "op_closed (op_at ?c q) = op_closed (op_at c q)" for q
      unfolding h using p(1) len by (cases "q = p") simp_all
    have eq: "cl_callers ?c = cl_callers ?c1" "cl_lastOp ?c = cl_lastOp ?c1" "cl_reqSent ?c = cl_reqSent ?c1"
      "cl_locked ?c = cl_locked ?c1"
      by (simp_all add: set_caller_def)
    have "client_inv ?c"
    proof (rule client_inv_caller [OF c1, where p = p and op = "?f (op_at c p)" and k = ?k])
      show "(is_writing (caller_of ?c1 q) \<longrightarrow> cl_lastOp ?c = Some q \<and> cl_reqSent ?c = None) \<and>
        (is_fresh (caller_of ?c1 q) \<longrightarrow> cl_lastOp ?c \<noteq> Some q)" if "q < length (cl_callers ?c1)" for q
        using request_invD [OF c1 that] unfolding eq by (simp add: request_inv_def sending_inv_def fresh_inv_def)
      show "\<exists>q. cl_lastOp ?c = Some q \<and> (err \<noteq> None \<longrightarrow> is_returned (caller_of ?c q))" if "cl_reqSent ?c = Some err" for err
        using c1 that unfolding eq client_inv_def by blast
      show "q < length (cl_callers ?c1) \<and> (cl_running ?c1 \<longrightarrow> \<not> op_closed (op_at ?c q))" if "cl_lastOp ?c = Some q" for q
        using inv that unfolding cl by (simp add: client_inv_def set_caller_def)
      show "cl_locked ?c = (cl_lastOp ?c \<noteq> None)" if "cl_running ?c1"
        using c1 that unfolding eq client_inv_def by blast
      show "cl_callers ?c = (cl_callers ?c1)[p := ?k]" by (simp add: set_caller_def)
      show "hh_ops (cl_h ?c) = (hh_ops (cl_h ?c1))[p := ?f (op_at c p)]" using h by (simp add: set_caller_def)
    qed (use sok req p(1) in \<open>auto simp: w, auto simp: set_caller_def\<close>)
    moreover have "r = Ret ?c" using t \<open>caller_at p c = Some Waiting\<close> ch Cons by simp
    ultimately show ?thesis by blast
  qed
qed

subsection \<open>New requests\<close>

lemma format_nat_inj: "m < 2 ^ 64 \<Longrightarrow> n < 2 ^ 64 \<Longrightarrow> format_nat m = format_nat n \<longleftrightarrow> m = n"
  by (metis ParseUint_format_nat prod.inject)

lemma id_json_inj:
  assumes "k < 2 ^ 32" and "l < 2 ^ 32" and "id_json (of_nat k) = id_json (of_nat l)"
  shows "k = l"
proof -
  have "unat (of_nat k :: 32 word) = k" "unat (of_nat l :: 32 word) = l"
    using assms(1,2) by (simp_all add: unat_of_nat)
  with assms show ?thesis by (simp add: id_json_def format_nat_inj)
qed

lemma client_inv_draw:
  assumes "client_inv c" and "nextID c = (i, c')"
  shows "client_inv c'" "i = id_json (of_nat (Suc (cl_draws c)))" "cl_draws c' = Suc (cl_draws c)" "cl_h c' = cl_h c"
proof -
  have c': "c' = c\<lparr>cl_idCounter := cl_idCounter c + 1, cl_draws := Suc (cl_draws c)\<rparr>" and i: "i = id_json (cl_idCounter c + 1)"
    using assms(2) by (auto simp: nextID_def Let_def)
  have "request_inv c' p" if "p < length (cl_callers c)" for p
  proof -
    note r = request_invD [OF assms(1) that]
    have "sending_inv c' p" "fresh_inv c' p" "channel_inv c' p" "conn_inv c' p" "returned_inv c' p"
      using r by (simp_all add: request_inv_def sending_inv_def fresh_inv_def channel_inv_def conn_inv_def
          returned_inv_def waits_for_def c')
    moreover have "served_inv c' p" using r by (simp add: request_inv_def served_inv_def waits_for_def c')
    moreover have "ids_inv c' p"
      using r unfolding request_inv_def ids_inv_def c' by (simp) (meson le_SucI)
    ultimately show ?thesis by (simp add: request_inv_def)
  qed
  with assms(1) show "client_inv c'" by (auto simp: client_inv_def c')
  show "i = id_json (of_nat (Suc (cl_draws c)))"
    using i assms(1) by (simp add: client_inv_def add.commute)
  show "cl_draws c' = Suc (cl_draws c)" "cl_h c' = cl_h c" by (simp_all add: c')
qed

text \<open>The ids drawn between two counts.\<close>

definition drawn :: "nat \<Rightarrow> nat \<Rightarrow> json list" where
  "drawn a b = map (\<lambda>k. id_json (of_nat k)) [Suc a ..< Suc b]"

lemma client_inv_newMessage:
  assumes "client_inv c" and "newMessage m ps c = (r, c')"
  shows "client_inv c'" "cl_h c' = cl_h c" "cl_draws c' = Suc (cl_draws c)"
    "\<And>msg. r = Inr msg \<Longrightarrow> jm_ID msg = Some (id_json (of_nat (Suc (cl_draws c))))"
proof -
  obtain i c1 where d: "nextID c = (i, c1)" by force
  note draw = client_inv_draw [OF assms(1) d]
  have "c' = c1" using assms(2) d by (simp add: newMessage_def Let_def)
  with draw show "client_inv c'" "cl_h c' = cl_h c" "cl_draws c' = Suc (cl_draws c)" by simp_all
  show "jm_ID msg = Some (id_json (of_nat (Suc (cl_draws c))))" if "r = Inr msg" for msg
    using assms(2) d that draw(2) by (auto simp: newMessage_def Let_def split: option.splits sum.splits)
qed

lemma client_inv_newMessages:
  assumes "client_inv c" and "newMessages b c = (r, c')"
  shows "client_inv c' \<and> cl_h c' = cl_h c \<and> cl_draws c \<le> cl_draws c' \<and>
    (\<forall>msgs. r = Inr msgs \<longrightarrow> map (the \<circ> jm_ID) msgs = drawn (cl_draws c) (cl_draws c'))"
  using assms
proof (induction b c arbitrary: r c' rule: newMessages.induct)
  case (1 c)
  then show ?case by (auto simp: drawn_def)
next
  case (2 m ps elems c)
  obtain r1 c1 where m: "newMessage m ps c = (r1, c1)" by force
  note new = client_inv_newMessage [OF "2.prems"(1) m]
  show ?case
  proof (cases r1)
    case (Inl e)
    with "2.prems"(2) m new show ?thesis by auto
  next
    case (Inr msg)
    obtain r2 c2 where n: "newMessages elems c1 = (r2, c2)" by force
    note IH = "2.IH" [OF m [symmetric] Inr new(1) n]
    have "drawn (cl_draws c) (cl_draws c2) = id_json (of_nat (Suc (cl_draws c))) # drawn (cl_draws c1) (cl_draws c2)"
      using IH new(3) by (simp add: drawn_def upt_conv_Cons del: upt_Suc)
    with "2.prems"(2) m n Inr IH new show ?thesis by (auto split: sum.splits)
  qed
qed

lemma set_drawn: "set (drawn a b) = {id_json (of_nat k) | k. a < k \<and> k \<le> b}"
  by (auto simp: drawn_def less_Suc_eq_le Suc_le_eq simp del: upt_Suc)

lemma client_inv_new_request:
  assumes inv: "client_inv c" and old: "\<And>p i. p < length (cl_callers c) \<Longrightarrow> i \<in> set (op_ids (op_at c p)) \<Longrightarrow>
      \<exists>k. 0 < k \<and> k \<le> a \<and> i = id_json (of_nat k)" and a: "a \<le> cl_draws c"
    and ids: "set ids \<subseteq> set (drawn a (cl_draws c))" and ans: "answered \<or> ids = []"
    and sub: "\<And>s. sub = Some s \<Longrightarrow> s < length (hh_subs (cl_h c))"
  shows "client_inv (new_request ids answered sub pl c)" (is "client_inv ?c")
proof -
  have len: "length (cl_callers c) = length (hh_ops (cl_h c))" and ok: "store_ok (cl_h c)"
    using inv by (simp_all add: client_inv_def)
  let ?n = "length (cl_callers c)"
  have at: "op_at ?c p = op_at c p" "caller_of ?c p = caller_of c p" if "p < ?n" for p
    using that len by (simp_all add: new_request_def nth_append)
  have new: "caller_of ?c ?n = Fresh pl" "op_ids (op_at ?c ?n) = ids" "\<not> op_closed (op_at ?c ?n)"
    "\<not> op_hadResponse (op_at ?c ?n)"
    using len by (simp_all add: new_request_def nth_append op_closed_def make_chan_def)
  have w: "waits_for ?c p = waits_for c p" for p by (simp add: waits_for_def new_request_def)
  have rest: "cl_lastOp ?c = cl_lastOp c" "cl_reqSent ?c = cl_reqSent c" "cl_running ?c = cl_running c"
    "cl_reading ?c = cl_reading c" "cl_draws ?c = cl_draws c" "cl_orphans ?c = cl_orphans c"
    "cl_locked ?c = cl_locked c" "cl_idCounter ?c = cl_idCounter c" "cl_codecClosed ?c = cl_codecClosed c"
    "length (cl_callers ?c) = Suc ?n" "length (hh_ops (cl_h ?c)) = Suc ?n"
    using len by (simp_all add: new_request_def)
  have last: "cl_lastOp c \<noteq> Some ?n" "\<not> waits_for c ?n"
    using inv waits_before(1) [OF inv, of ?n] by (auto simp: client_inv_def)
  have "request_inv ?c p" if "p < Suc ?n" for p
  proof (cases "p = ?n")
    case True
    have "ids_inv ?c ?n"
      unfolding ids_inv_def new rest
    proof
      fix i assume "i \<in> set ids"
      with ids obtain l where "a < l" "l \<le> cl_draws c" "i = id_json (of_nat l)" by (auto simp: set_drawn)
      then show "\<exists>k. 0 < k \<and> k \<le> cl_draws c \<and> i = id_json (of_nat k)" by (intro exI [of _ l]) simp
    qed
    with last new True show ?thesis by (simp add: request_inv_defs w rest)
  next
    case False
    with that have p: "p < ?n" by simp
    from request_invD [OF inv p] show ?thesis by (simp add: request_inv_defs at [OF p] w rest)
  qed
  moreover have "store_ok (cl_h ?c)"
  proof -
    have "op_ok (op_at ?c ?n)" using ans len by (auto simp: new_request_def nth_append op_ok_def make_chan_def)
    moreover have "entry_ok (hh_ops (cl_h ?c)) e" if "e \<in> set (hh_respWait (cl_h c))" for e
      using that ok len by (auto simp: store_ok_def entry_ok_def new_request_def nth_append)
    moreover have "set (hh_ops (cl_h ?c)) = insert (op_at ?c ?n) (set (hh_ops (cl_h c)))" "op_sub (op_at ?c ?n) = sub"
      "hh_respWait (cl_h ?c) = hh_respWait (cl_h c)" "hh_subs (cl_h ?c) = hh_subs (cl_h c)"
      "hh_clientSubs (cl_h ?c) = hh_clientSubs (cl_h c)"
      using len by (simp_all add: new_request_def nth_append)
    ultimately show ?thesis using ok sub by (simp add: store_ok_def)
  qed
  moreover have "ids_disjoint (cl_h ?c)" if d: "cl_draws c < 2 ^ 32"
  proof -
    have clash: False if "p < ?n" "i \<in> set (op_ids (op_at c p))" "i \<in> set ids" for p i
    proof -
      from old [OF that(1,2)] obtain k where k: "k \<le> a" "i = id_json (of_nat k)" by blast
      from ids that(3) obtain l where l: "a < l" "l \<le> cl_draws c" "i = id_json (of_nat l)" by (auto simp: set_drawn)
      from id_json_inj [of k l] k l d a show False by simp
    qed
    have "p = q" if "p < Suc ?n" "q < Suc ?n" "i \<in> set (op_ids (op_at ?c p))" "i \<in> set (op_ids (op_at ?c q))" for p q i
    proof (cases "p = ?n"; cases "q = ?n")
      assume "p \<noteq> ?n" "q \<noteq> ?n"
      with that have "p < ?n" "q < ?n" by simp_all
      with that(3,4) inv d len show ?thesis by (auto simp: at client_inv_def ids_disjoint_def)
    qed (use that clash in \<open>auto simp: new at less_Suc_eq\<close>)
    then show ?thesis by (simp add: ids_disjoint_def rest)
  qed
  ultimately show ?thesis
    using inv last len at by (auto simp: client_inv_def rest less_Suc_eq)
qed

lemma client_inv_start: "client_inv c \<Longrightarrow> client_inv (start_request r c)"
proof -
  assume inv: "client_inv c"
  have old: "\<exists>k. 0 < k \<and> k \<le> cl_draws c \<and> i = id_json (of_nat k)"
    if "p < length (cl_callers c')" "cl_h c' = cl_h c" "client_inv c'" "i \<in> set (op_ids (op_at c' p))" for c' p i
    using that inv request_invD [OF inv, of p] by (auto simp: request_inv_def ids_inv_def client_inv_def)
  have one: "client_inv (new_request [the (jm_ID msg)] True sub pl c')"
    if "newMessage m ps c = (Inr msg, c1)" "client_inv c'" "cl_h c' = (cl_h c)\<lparr>hh_subs := s'\<rparr>" "cl_draws c' = cl_draws c1"
      "\<And>s. sub = Some s \<Longrightarrow> s < length s'" for m ps msg c1 c' s' sub pl
  proof (rule client_inv_new_request [OF that(2)])
    note new = client_inv_newMessage [OF inv that(1)]
    show "set [the (jm_ID msg)] \<subseteq> set (drawn (cl_draws c) (cl_draws c'))"
      using new(3,4) that(4) by (auto simp: set_drawn intro!: exI [of _ "Suc (cl_draws c)"])
    show "\<exists>k. 0 < k \<and> k \<le> cl_draws c \<and> i = id_json (of_nat k)"
      if "p < length (cl_callers c')" "i \<in> set (op_ids (op_at c' p))" for p i
      using that \<open>client_inv c'\<close> \<open>cl_h c' = _\<close> inv request_invD [OF inv, of p]
      by (auto simp: request_inv_def ids_inv_def client_inv_def)
    show "cl_draws c \<le> cl_draws c'" using new(3) that(4) by simp
  qed (use that in auto)
  show ?thesis
  proof (cases r)
    case (RCall m ps)
    obtain r1 c1 where m: "newMessage m ps c = (r1, c1)" by force
    note new = client_inv_newMessage [OF inv m]
    show ?thesis
      using RCall m new(1-3) one [of m ps _ c1 c1 "hh_subs (cl_h c)"] by (cases r1) auto
  next
    case (RBatch b)
    obtain r1 c1 where m: "newMessages b c = (r1, c1)" by force
    note new = client_inv_newMessages [OF inv m]
    show ?thesis
    proof (cases r1)
      case (Inr msgs)
      have "client_inv (new_request (map (the \<circ> jm_ID) msgs) True None (Many msgs) c1)"
        using new old [of _ c1] Inr by (intro client_inv_new_request [where a = "cl_draws c"]) auto
      with RBatch m Inr show ?thesis by simp
    qed (use RBatch m new in simp)
  next
    case (RNotify m ps)
    obtain r1 c1 where m: "newMessage m ps c = (r1, c1)" by force
    note new = client_inv_newMessage [OF inv m]
    have "client_inv (new_request [] False None pl c1)" for pl
      using new old [of _ c1] by (intro client_inv_new_request [where a = "cl_draws c"]) auto
    with RNotify m new show ?thesis by (cases r1) auto
  next
    case (RSubscribe ns ps)
    obtain r1 c1 where m: "newMessage (ns @ subscribeMethodSuffix) ps c = (r1, c1)" by force
    note new = client_inv_newMessage [OF inv m]
    let ?s = "hh_subs (cl_h c1) @ [newClientSubscription ns]"
    let ?c2 = "c1\<lparr>cl_h := (cl_h c1)\<lparr>hh_subs := ?s\<rparr>\<rparr>"
    have "store_ok (cl_h ?c2)"
      using new(1) by (force simp: client_inv_def store_ok_def sub_ok_def nth_append)
    moreover have "request_inv ?c2 p = request_inv c1 p" for p by (simp add: request_inv_defs waits_for_def)
    moreover have "ids_disjoint (cl_h ?c2) = ids_disjoint (cl_h c1)" by (simp add: ids_disjoint_def)
    ultimately have c2: "client_inv ?c2" using new(1) unfolding client_inv_def by auto
    show ?thesis
    proof (cases r1)
      case (Inr msg)
      with m c2 new(2) have "client_inv (new_request [the (jm_ID msg)] True (Some (length (hh_subs (cl_h c1)))) (One msg) ?c2)"
        by (intro one [of _ _ _ c1 _ ?s]) auto
      with RSubscribe m Inr show ?thesis by simp
    qed (use RSubscribe m new(1) in simp)
  qed
qed

subsection \<open>Every step\<close>

lemma client_inv_subTurn:
  assumes inv: "client_inv c" and s: "s < length (hh_subs (cl_h c))" "cs_fw (hh_subs (cl_h c) ! s) \<noteq> None"
  shows "\<exists>h'. sub_turn un e s (cl_h c) = Ret h' \<and> client_inv (c\<lparr>cl_h := h'\<rparr>)"
proof -
  have "store_ok (cl_h c)" using inv by (simp add: client_inv_def)
  from sub_turn_ok [OF this s(2)] obtain h' where h': "sub_turn un e s (cl_h c) = Ret h'" "store_ok h'"
    "evolves (cl_h c) h'" "hh_ops h' = hh_ops (cl_h c)" "hh_respWait h' = hh_respWait (cl_h c)"
    by blast
  have "client_inv (c\<lparr>cl_h := h'\<rparr>)"
    by (rule client_inv_update [OF inv])
      (use h' inv waits_before [OF inv] served_before [OF inv] in \<open>auto simp: client_inv_def waits_for_def\<close>)
  with h'(1) show ?thesis by blast
qed

lemma client_inv_giveUp:
  assumes inv: "client_inv c" and "p < length (cl_callers c)"
  shows "client_inv (set_caller p (Returned [] (Some e)) c)"
  by (rule client_inv_set_caller [OF assms]) simp_all

lemma client_turn_ok:
  assumes inv: "client_inv c" and t: "client_turn un limit e c = Some r"
  shows "\<exists>c'. r = Ret c' \<and> client_inv c'"
proof (cases e)
  case (Start rq)
  with t client_inv_start [OF inv] show ?thesis by auto
next
  case (GiveUp p er)
  with t have "p < length (cl_callers c)" "r = Ret (set_caller p (Returned [] (Some er)) c)"
    by (auto dest: caller_atD split: option.splits caller.splits)
  with client_inv_giveUp [OF inv] show ?thesis by blast
next
  case (ReqInit p)
  with t obtain pl where "cl_running c" "\<not> cl_locked c" "caller_at p c = Some (Fresh pl)"
    by (auto split: if_splits option.splits caller.splits)
  from client_inv_reqInit [OF inv this] t ReqInit show ?thesis by auto
next
  case (WriteOk p)
  with t obtain pl retry where w: "caller_at p c = Some (Writing pl retry)" "\<not> cl_codecClosed c"
    "sent p None (c\<lparr>cl_wire := cl_wire c @ [pl]\<rparr>) = Some r"
    by (auto split: if_splits option.splits caller.splits)
  then have "cl_running c" "cl_reading c" using inv by (auto simp: client_inv_def)
  with client_inv_sent [of "c\<lparr>cl_wire := cl_wire c @ [pl]\<rparr>" p pl retry None] w inv writing_no_reqSent [OF inv w(1)]
  show ?thesis by auto
next
  case (WriteFail p er)
  with t obtain pl retry where w: "caller_at p c = Some (Writing pl retry)"
    "r = Ret (set_caller p (Writing pl True) (c\<lparr>cl_writeConn := False\<rparr>)) \<or> sent p (Some er) (c\<lparr>cl_writeConn := False\<rparr>) = Some r"
    by (auto split: if_splits option.splits caller.splits)
  let ?c = "c\<lparr>cl_writeConn := False\<rparr>"
  have p: "p < length (cl_callers ?c)" "caller_of ?c p = Writing pl retry" using caller_atD [OF w(1)] by simp_all
  have "client_inv (set_caller p (Writing pl True) ?c)"
    by (rule client_inv_set_caller) (use inv p in auto)
  with client_inv_sent [of ?c p pl retry "Some er"] w inv writing_no_reqSent [OF inv w(1)] show ?thesis by auto
next
  case (DialFail p er)
  with t obtain pl retry where w: "caller_at p c = Some (Writing pl retry)" "sent p (Some er) c = Some r"
    by (auto split: if_splits option.splits caller.splits)
  with client_inv_sent [OF inv w(1), of "Some er"] writing_no_reqSent [OF inv w(1)] show ?thesis by auto
next
  case (Reconnected p)
  with t obtain pl retry where "caller_at p c = Some (Writing pl retry)" "cl_running c" "\<not> cl_writeConn c"
    by (auto split: if_splits option.splits caller.splits)
  from client_inv_reconnected [OF inv this, of un limit] t Reconnected show ?thesis by auto
next
  case ReqSent
  with t obtain err where "cl_running c" "cl_reqSent c = Some err" by (auto split: if_splits option.splits)
  from client_inv_reqSent [OF inv this, of un limit] t ReqSent show ?thesis by auto
next
  case (ReadMsg raw)
  with t have "cl_running c" "cl_reading c" by (auto split: if_splits)
  from client_inv_read [OF inv this, of un limit raw] t ReadMsg show ?thesis by auto
next
  case (ReadErr er)
  with t have "cl_running c" "cl_reading c" by (auto split: if_splits)
  from client_inv_readErr [OF inv this, of un limit er] t ReadErr show ?thesis by auto
next
  case (ReqTimeout p er)
  with t have p: "p < length (cl_callers c)"
    and r: "r = Ret (set_caller p (Returned [] (Some er)) (if cl_running c then c\<lparr>cl_h := removeRequestOp p (cl_h c)\<rparr> else c))"
    by (auto dest: caller_atD split: option.splits caller.splits)
  let ?c = "set_caller p (Returned [] (Some er)) c"
  have c1: "client_inv ?c" by (rule client_inv_giveUp [OF inv p])
  have "client_inv (?c\<lparr>cl_h := removeRequestOp p (cl_h ?c)\<rparr>)"
    by (rule client_inv_removeRequestOp [OF c1]) (use p in \<open>simp_all add: set_caller_def\<close>)
  moreover have "set_caller p (Returned [] (Some er)) (c\<lparr>cl_h := h\<rparr>) = ?c\<lparr>cl_h := h\<rparr>" for h by (simp add: set_caller_def)
  moreover have "cl_h ?c = cl_h c" by (simp add: set_caller_def)
  ultimately show ?thesis using c1 r by (cases "cl_running c") simp_all
next
  case (Receive p)
  with t have "caller_at p c = Some Waiting" by (auto split: option.splits caller.splits)
  from client_inv_receive [OF inv this] t Receive show ?thesis by blast
next
  case CloseClient
  with t have "cl_running c" by (auto split: if_splits)
  from client_inv_close [OF inv this, of un limit] t CloseClient show ?thesis by auto
next
  case (SubTurn s fe)
  with t have "s < length (hh_subs (cl_h c))" "cs_fw (hh_subs (cl_h c) ! s) \<noteq> None"
    "r = obind (sub_turn un fe s (cl_h c)) (\<lambda>h. Ret (c\<lparr>cl_h := h\<rparr>))"
    by (auto split: if_splits)
  with client_inv_subTurn [OF inv, of s un fe] show ?thesis by auto
qed

lemma client_inv_reachable: "client_reachable un limit c \<Longrightarrow> client_inv c"
proof (induction rule: client_reachable.induct)
  case init
  show ?case by (rule client_inv_init)
next
  case (turn c e c')
  then show ?case using client_turn_ok by blast
qed

section \<open>A forgotten request\<close>

text \<open>
  The caller waits, but nobody will ever write to its channel or close it: no id of the
  request is registered and it is not in flight.
\<close>

definition forgotten :: "'v client \<Rightarrow> nat \<Rightarrow> bool" where
  "forgotten c p \<longleftrightarrow>
     p < length (cl_callers c) \<and> caller_of c p = Waiting \<and> \<not> waits_for c p \<and> cl_lastOp c \<noteq> Some p \<and>
     op_buf (op_at c p) = [] \<and> \<not> op_closed (op_at c p)"

text \<open>What a step of anybody but the caller leaves alone.\<close>

lemma forgotten_frame:
  assumes "forgotten c p" and "caller_of c' p = caller_of c p" and "length (cl_callers c) \<le> length (cl_callers c')"
    and "op_at c' p = op_at c p" and "waits_for c' p \<Longrightarrow> waits_for c p" and "cl_lastOp c' = Some p \<Longrightarrow> cl_lastOp c = Some p"
  shows "forgotten c' p"
  using assms unfolding forgotten_def by auto

lemma forgotten_set_caller:
  "forgotten c p \<Longrightarrow> q \<noteq> p \<Longrightarrow> forgotten (set_caller q k c) p"
  by (erule forgotten_frame) (simp_all add: set_caller_def waits_for_def)

lemma newMessage_frame:
  "newMessage m ps c = (r, c') \<Longrightarrow> cl_h c' = cl_h c \<and> cl_callers c' = cl_callers c \<and> cl_lastOp c' = cl_lastOp c"
  by (auto simp: newMessage_def nextID_def Let_def)

lemma newMessages_frame:
  "newMessages b c = (r, c') \<Longrightarrow> cl_h c' = cl_h c \<and> cl_callers c' = cl_callers c \<and> cl_lastOp c' = cl_lastOp c"
proof (induction b c arbitrary: r c' rule: newMessages.induct)
  case (2 m ps elems c)
  obtain r1 c1 where m: "newMessage m ps c = (r1, c1)" by force
  show ?case
  proof (cases r1)
    case (Inr msg)
    obtain r2 c2 where n: "newMessages elems c1 = (r2, c2)" by force
    from "2.IH" [OF m [symmetric] Inr n] newMessage_frame [OF m] "2.prems" m n Inr show ?thesis
      by (auto split: sum.splits)
  qed (use "2.prems" m newMessage_frame [OF m] in auto)
qed simp

lemma forgotten_start:
  assumes "client_inv c" and f: "forgotten c p"
  shows "forgotten (start_request r c) p"
proof -
  have p: "p < length (cl_callers c)" "p < length (hh_ops (cl_h c))"
    using assms by (auto simp: forgotten_def client_inv_def)
  have new: "forgotten (new_request ids ans sub pl c') p"
    if "hh_ops (cl_h c') = hh_ops (cl_h c)" "hh_respWait (cl_h c') = hh_respWait (cl_h c)" "cl_callers c' = cl_callers c"
      "cl_lastOp c' = cl_lastOp c" for ids ans sub pl c'
    by (rule forgotten_frame [OF f]) (use p that in \<open>simp_all add: new_request_def nth_append waits_for_def\<close>)
  have same: "forgotten c' p" if "cl_h c' = cl_h c" "cl_callers c' = cl_callers c" "cl_lastOp c' = cl_lastOp c" for c'
    by (rule forgotten_frame [OF f]) (use that in \<open>simp_all add: waits_for_def\<close>)
  show ?thesis
    by (cases r) (auto split: prod.split sum.split dest!: newMessage_frame newMessages_frame simp: new same)
qed

lemma forgotten_handler:
  assumes "forgotten c p" and "hh_ops h' ! p = op_at c p" and "p \<in> snd ` set (hh_respWait h') \<Longrightarrow> waits_for c p"
    and "cl_callers c' = cl_callers c" and "cl_lastOp c' = cl_lastOp c \<or> cl_lastOp c' = None" and "cl_h c' = h'"
  shows "forgotten c' p"
  using assms by (intro forgotten_frame [OF assms(1)]) (auto simp: waits_for_def)

lemma forgotten_sent:
  assumes "forgotten c p" and "sent q err c = Some (Ret c')" and "q \<noteq> p"
  shows "forgotten c' p"
proof -
  have "forgotten (c\<lparr>cl_reqSent := Some err\<rparr>) p" by (rule forgotten_frame [OF assms(1)]) (simp_all add: waits_for_def)
  from forgotten_set_caller [OF this assms(3)] assms(2) show ?thesis by (auto simp: sent_def split: if_splits)
qed

lemma forgotten_irrelevant [simp]:
  "forgotten (c\<lparr>cl_wire := w\<rparr>) p = forgotten c p" "forgotten (c\<lparr>cl_writeConn := b\<rparr>) p = forgotten c p"
  by (simp_all add: forgotten_def waits_for_def)

lemma forgotten_cancel:
  assumes inv: "client_inv c" and f: "forgotten c p" and t: "cancelAllRequests un err infl (cl_h c) = Ret h'"
  shows "hh_ops h' ! p = op_at c p \<and> hh_respWait h' = []"
proof -
  have "store_ok (cl_h c)" using inv by (simp add: client_inv_def)
  from cancelAllRequests_ok [OF this, of un err infl] t f show ?thesis
    by (auto simp: forgotten_def waits_for_def)
qed

lemma forgotten_turn:
  assumes inv: "client_inv c" and f: "forgotten c p" and t: "client_turn un limit e c = Some (Ret c')"
    and e: "\<And>er. e \<noteq> ReqTimeout p er"
  shows "forgotten c' p"
proof -
  have wait: "caller_at p c = Some Waiting" using f by (auto simp: forgotten_def caller_at_def)
  have store: "store_ok (cl_h c)" using inv by (simp add: client_inv_def)
  have q: "q \<noteq> p" if "caller_at q c = Some k" "k \<noteq> Waiting" for q k using that wait by auto
  have rem: "forgotten (c\<lparr>cl_h := removeRequestOp q (cl_h c)\<rparr>) p" for q
    by (rule forgotten_handler [OF f, of "removeRequestOp q (cl_h c)"]) (auto simp: waits_for_def)
  show ?thesis
  proof (cases e)
    case (Start rq)
    with t forgotten_start [OF inv f] show ?thesis by auto
  next
    case (GiveUp q er)
    with t q show ?thesis by (auto split: option.splits caller.splits intro!: forgotten_set_caller [OF f])
  next
    case (ReqInit q)
    with t obtain pl where k: "caller_at q c = Some (Fresh pl)"
      and c': "c' = set_caller q (Writing pl False) (c\<lparr>cl_locked := True, cl_lastOp := Some q, cl_h := addRequestOp q (cl_h c)\<rparr>)"
      by (auto split: if_splits option.splits caller.splits)
    from k q have "q \<noteq> p" by auto
    moreover have "forgotten (c\<lparr>cl_locked := True, cl_lastOp := Some q, cl_h := addRequestOp q (cl_h c)\<rparr>) p"
      using \<open>q \<noteq> p\<close> by (intro forgotten_frame [OF f])
        (auto simp: waits_for_def addRequestOp_waits [OF store] split: if_splits)
    ultimately show ?thesis using c' forgotten_set_caller by blast
  next
    case (WriteOk q)
    with t obtain pl retry where k: "caller_at q c = Some (Writing pl retry)"
      "sent q None (c\<lparr>cl_wire := cl_wire c @ [pl]\<rparr>) = Some (Ret c')"
      by (auto split: if_splits option.splits caller.splits)
    from forgotten_sent [OF _ k(2)] q [OF k(1)] f show ?thesis by simp
  next
    case (WriteFail q er)
    with t obtain pl retry where k: "caller_at q c = Some (Writing pl retry)"
      "sent q (Some er) (c\<lparr>cl_writeConn := False\<rparr>) = Some (Ret c') \<or>
       c' = set_caller q (Writing pl True) (c\<lparr>cl_writeConn := False\<rparr>)"
      by (auto split: if_splits option.splits caller.splits)
    from k(2) forgotten_sent [of "c\<lparr>cl_writeConn := False\<rparr>" p q "Some er" c'] q [OF k(1)] f show ?thesis
      by (auto intro: forgotten_set_caller)
  next
    case (DialFail q er)
    with t obtain pl retry where k: "caller_at q c = Some (Writing pl retry)" "sent q (Some er) c = Some (Ret c')"
      by (auto split: if_splits option.splits caller.splits)
    from forgotten_sent [OF f k(2)] q [OF k(1)] show ?thesis by simp
  next
    case (Reconnected q)
    with t obtain pl retry h where k: "caller_at q c = Some (Writing pl retry)"
      and h: "(if cl_reading c then cancelAllRequests un ErrClientReconnected (cl_lastOp c) (cl_h c) else Ret (cl_h c)) = Ret h"
      by (auto split: if_splits option.splits caller.splits elim!: obind_RetE)
    have "cl_lastOp c = Some q"
      using caller_atD [OF k] request_invD [OF inv, of q] by (auto simp: request_inv_def sending_inv_def)
    moreover have "hh_ops h ! p = op_at c p" using h forgotten_cancel [OF inv f] by (auto split: if_splits)
    moreover have "store_ok h"
      using h store cancelAllRequests_ok [OF store, of un ErrClientReconnected "cl_lastOp c"] by (auto split: if_splits)
    then have "store_ok (h\<lparr>hh_respWait := [], hh_clientSubs := []\<rparr>)" by (simp add: store_ok_def)
    ultimately show ?thesis
      using t Reconnected k h q [OF k]
      by (intro forgotten_handler [OF f, of "cl_h c'"])
        (auto simp: addRequestOp_waits split: if_splits elim!: obind_RetE)
  next
    case ReqSent
    with t rem show ?thesis
      by (intro forgotten_handler [OF f, of "cl_h c'"]) (auto simp: waits_for_def split: option.splits if_splits)
  next
    case (ReadMsg raw)
    with t obtain h calls where h: "dispatch_read un limit raw (cl_h c) = Ret (h, calls)" "c' = c\<lparr>cl_h := h\<rparr>"
      by (auto split: if_splits elim!: obind_RetE)
    from dispatch_read_ok [OF store, of un limit raw] h f show ?thesis
      by (intro forgotten_handler [OF f, of h]) (auto simp: forgotten_def waits_for_def)
  next
    case (ReadErr er)
    with t obtain h where "cancelAllRequests un er (cl_lastOp c) (cl_h c) = Ret h"
      "cl_h c' = h" "cl_callers c' = cl_callers c" "cl_lastOp c' = cl_lastOp c"
      by (auto split: if_splits elim!: obind_RetE)
    with forgotten_cancel [OF inv f] show ?thesis by (intro forgotten_handler [OF f, of h]) auto
  next
    case (ReqTimeout q er)
    with e have "q \<noteq> p" by auto
    with t ReqTimeout f rem show ?thesis
      by (auto split: option.splits caller.splits intro!: forgotten_set_caller)
  next
    case (Receive q)
    show ?thesis
    proof (cases "q = p")
      case True
      with t Receive f wait show ?thesis
        by (auto simp: forgotten_def op_buf_def op_closed_def split: option.splits list.splits)
    next
      case False
      have "forgotten (c\<lparr>cl_h := set_op q g (cl_h c)\<rparr>) p" for g
        using False by (intro forgotten_handler [OF f, of "set_op q g (cl_h c)"]) (auto simp: set_op_def waits_for_def)
      with t Receive False f show ?thesis
        by (auto split: option.splits caller.splits list.splits if_splits intro!: forgotten_set_caller)
    qed
  next
    case CloseClient
    with t obtain h where "(if cl_reading c then cancelAllRequests un ErrClientQuit None (cl_h c) else Ret (cl_h c)) = Ret h"
      "cl_h c' = h" "cl_callers c' = cl_callers c" "cl_lastOp c' = cl_lastOp c"
      by (auto split: if_splits elim!: obind_RetE)
    with forgotten_cancel [OF inv f] show ?thesis
      by (intro forgotten_handler [OF f, of h]) (auto simp: waits_for_def split: if_splits)
  next
    case (SubTurn s fe)
    with t obtain h where h: "sub_turn un fe s (cl_h c) = Ret h" "c' = c\<lparr>cl_h := h\<rparr>" "cs_fw (hh_subs (cl_h c) ! s) \<noteq> None"
      by (auto split: if_splits elim!: obind_RetE)
    with sub_turn_ok [OF store h(3), of un fe] show ?thesis
      by (intro forgotten_handler [OF f, of h]) (auto simp: waits_for_def)
  qed
qed

section \<open>What the caller makes of the responses\<close>

text \<open>
  The end of \<^verbatim>\<open>CallContext\<close> for what \<^verbatim>\<open>wait\<close> returned. \<open>unmarshal\<close> is absent when the
  result is not wanted.
\<close>

definition CallContext_end ::
  "(json \<Rightarrow> string + 'r) option \<Rightarrow> jsonrpcMessage list \<Rightarrow> client_error option \<Rightarrow> (client_error + 'r option) outcome" where
  "CallContext_end unmarshal batchresp err =
     (case err of
        Some e \<Rightarrow> Ret (Inl e)
      | None \<Rightarrow>
          (case batchresp of
             [] \<Rightarrow> Panic IndexOutOfRange
           | resp # _ \<Rightarrow>
               Ret (case jm_Error resp of
                      Some e \<Rightarrow> Inl (ServerError e)
                    | None \<Rightarrow>
                        (case jm_Result resp of
                           None \<Rightarrow> Inl ErrNoResult
                         | Some j \<Rightarrow>
                             (case unmarshal of
                                None \<Rightarrow> Inr None
                              | Some f \<Rightarrow> (case f j of Inl m \<Rightarrow> Inl (OtherError m) | Inr v \<Rightarrow> Inr (Some v)))))))"

record 'r BatchElem =
  be_unmarshal :: "json \<Rightarrow> string + 'r"
  be_Result :: "'r option"
  be_Error :: "client_error option"

text \<open>Assigning a response to its element.\<close>

definition elem_assign :: "jsonrpcMessage \<Rightarrow> 'r BatchElem \<Rightarrow> 'r BatchElem" where
  "elem_assign resp elem =
     (case jm_Error resp of
        Some e \<Rightarrow> elem\<lparr>be_Error := Some (ServerError e)\<rparr>
      | None \<Rightarrow>
          (case jm_Result resp of
             None \<Rightarrow> elem\<lparr>be_Error := Some ErrNoResult\<rparr>
           | Some j \<Rightarrow>
               (case be_unmarshal elem j of
                  Inl m \<Rightarrow> elem\<lparr>be_Error := Some (OtherError m)\<rparr>
                | Inr v \<Rightarrow> elem\<lparr>be_Result := Some v, be_Error := None\<rparr>)))"

text \<open>The loop over the responses; a nil response comes from a batch sent via HTTP.\<close>

fun assign_responses ::
  "jsonrpcMessage option list \<Rightarrow> (json \<times> nat) list \<Rightarrow> 'r BatchElem list \<Rightarrow> (json \<times> nat) list \<times> 'r BatchElem list" where
  "assign_responses [] byID b = (byID, b)"
| "assign_responses (None # rs) byID b = assign_responses rs byID b"
| "assign_responses (Some resp # rs) byID b =
     (case jm_ID resp of
        None \<Rightarrow> assign_responses rs byID b
      | Some i \<Rightarrow>
          (case map_of byID i of
             None \<Rightarrow> assign_responses rs byID b
           | Some index \<Rightarrow> assign_responses rs (alist_del i byID) (b[index := elem_assign resp (b ! index)])))"

definition missing_response :: "'r BatchElem \<Rightarrow> 'r BatchElem" where
  "missing_response elem = elem\<lparr>be_Error := Some ErrMissingBatchResponse\<rparr>"

definition BatchCallContext_end ::
  "json list \<Rightarrow> jsonrpcMessage option list \<Rightarrow> 'r BatchElem list \<Rightarrow> 'r BatchElem list" where
  "BatchCallContext_end ids batchresp b =
     (let byID = fold (\<lambda>(i, index) m. alist_put i index m) (zip ids [0..<length ids]) [];
          (byID', b') = assign_responses batchresp byID b
      in fold (\<lambda>(i, index) b. b[index := missing_response (b ! index)]) byID' b')"

text \<open>The first response with an id.\<close>

fun response_for :: "jsonrpcMessage option list \<Rightarrow> json \<Rightarrow> jsonrpcMessage option" where
  "response_for [] i = None"
| "response_for (None # rs) i = response_for rs i"
| "response_for (Some r # rs) i = (if jm_ID r = Some i then Some r else response_for rs i)"

lemma assign_responses_spec:
  assumes "distinct (map fst byID)" and "distinct (map snd byID)" and "snd ` set byID \<subseteq> {..<length b}"
    and "assign_responses rs byID b = (byID', b')"
  shows "length b' = length b \<and> byID' = filter (\<lambda>e. response_for rs (fst e) = None) byID \<and>
    (\<forall>(i, k) \<in> set byID. b' ! k = (case response_for rs i of None \<Rightarrow> b ! k | Some r \<Rightarrow> elem_assign r (b ! k))) \<and>
    (\<forall>k. k \<notin> snd ` set byID \<longrightarrow> b' ! k = b ! k)"
  using assms
proof (induction rs byID b rule: assign_responses.induct)
  case (1 byID b)
  then show ?case by (auto simp: filter_True)
next
  case (2 rs byID b)
  then show ?case by simp
next
  case (3 resp rs byID b)
  show ?case
  proof (cases "Option.bind (jm_ID resp) (map_of byID)")
    case None
    have "response_for (Some resp # rs) (fst e) = response_for rs (fst e)" if "e \<in> set byID" for e
      using None that by (cases "jm_ID resp") (auto simp: map_of_eq_None_iff)
    moreover have "assign_responses (Some resp # rs) byID b = assign_responses rs byID b"
      using None by (cases "jm_ID resp") auto
    moreover from None have "jm_ID resp = None \<or> (\<exists>i. jm_ID resp = Some i \<and> map_of byID i = None)"
      by (cases "jm_ID resp") auto
    then have "length b' = length b \<and> byID' = filter (\<lambda>e. response_for rs (fst e) = None) byID \<and>
      (\<forall>(i, k) \<in> set byID. b' ! k = (case response_for rs i of None \<Rightarrow> b ! k | Some r \<Rightarrow> elem_assign r (b ! k))) \<and>
      (\<forall>k. k \<notin> snd ` set byID \<longrightarrow> b' ! k = b ! k)"
      using "3.IH"(1,2) "3.prems" by auto
    ultimately show ?thesis by (auto cong: filter_cong simp del: response_for.simps)
  next
    case (Some index)
    then obtain i where i: "jm_ID resp = Some i" "map_of byID i = Some index" by (cases "jm_ID resp") auto
    let ?m = "alist_del i byID" and ?b = "b[index := elem_assign resp (b ! index)]"
    have mem: "(i, index) \<in> set byID" using i(2) by (rule map_of_SomeD)
    have d: "distinct (map fst ?m)" "distinct (map snd ?m)"
      using "3.prems"(1,2) by (simp_all add: alist_del_def distinct_map_filter)
    have "assign_responses rs ?m ?b = (byID', b')" using "3.prems"(4) i by simp
    from "3.IH"(3) [OF i d _ this] "3.prems"(3) have IH:
      "length b' = length b" "byID' = filter (\<lambda>e. response_for rs (fst e) = None) ?m"
      "\<forall>(j, k) \<in> set ?m. b' ! k = (case response_for rs j of None \<Rightarrow> ?b ! k | Some r \<Rightarrow> elem_assign r (?b ! k))"
      "\<forall>k. k \<notin> snd ` set ?m \<longrightarrow> b' ! k = ?b ! k"
      by auto
    have uniq: "k \<noteq> index" if "(j, k) \<in> set byID" "j \<noteq> i" for j k
      using that mem "3.prems"(2) by (fastforce simp: distinct_map inj_on_def)
    have same: "k = index" if "(i, k) \<in> set byID" for k
      using that mem "3.prems"(1) by (fastforce simp: distinct_map inj_on_def)
    have "index \<notin> snd ` set ?m" by (auto dest: uniq)
    then have at: "b' ! index = elem_assign resp (b ! index)" using IH(4) mem "3.prems"(3) by auto
    have "b' ! k = (case response_for (Some resp # rs) j of None \<Rightarrow> b ! k | Some r \<Rightarrow> elem_assign r (b ! k))"
      if "(j, k) \<in> set byID" for j k
    proof (cases "j = i")
      case True
      with that same at i(1) show ?thesis by auto
    next
      case False
      with that uniq [OF that] have "?b ! k = b ! k" by simp
      with that False IH(3) i(1) show ?thesis by (auto split: option.split)
    qed
    moreover have "byID' = filter (\<lambda>e. response_for (Some resp # rs) (fst e) = None) byID"
      unfolding IH(2) alist_del_def filter_filter using i(1) by (intro filter_cong) auto
    moreover have "b' ! k = b ! k" if "k \<notin> snd ` set byID" for k
    proof -
      have "k \<notin> snd ` set ?m" "k \<noteq> index" using that mem by force+
      with IH(4) show ?thesis by simp
    qed
    ultimately show ?thesis using IH(1) by auto
  qed
qed

lemma fold_missing:
  assumes "distinct (map snd es)" and "snd ` set es \<subseteq> {..<length b}" and "k < length b"
  shows "fold (\<lambda>(i, index) b. b[index := missing_response (b ! index)]) es b ! k =
    (if k \<in> snd ` set es then missing_response (b ! k) else b ! k)"
  using assms
proof (induction es arbitrary: b)
  case (Cons e es)
  obtain i index where e: "e = (i, index)" by (cases e)
  from Cons.IH [of "b[index := missing_response (b ! index)]"] Cons.prems e show ?case
    by (cases "k = index") auto
qed simp

lemma fold_put_fresh:
  assumes "distinct (map fst es)" and "fst ` set es \<inter> fst ` set m = {}"
  shows "fold (\<lambda>(i, index) m. alist_put i index m) es m = m @ es"
  using assms
proof (induction es arbitrary: m)
  case (Cons e es)
  obtain i k where e: "e = (i, k)" by (cases e)
  have "alist_put i k m = m @ [(i, k)]" using Cons.prems(2) e
    by (induction i k m rule: alist_put.induct) auto
  with Cons.IH [of "m @ [(i, k)]"] Cons.prems e show ?case by auto
qed simp

lemma BatchCallContext_end_nth:
  assumes "distinct ids" and "length ids = length b" and "k < length b"
  shows "BatchCallContext_end ids rs b ! k =
    (case response_for rs (ids ! k) of None \<Rightarrow> missing_response (b ! k) | Some r \<Rightarrow> elem_assign r (b ! k))"
proof -
  let ?m = "zip ids [0..<length ids]"
  have m: "fold (\<lambda>(i, index) m. alist_put i index m) ?m [] = ?m"
    using fold_put_fresh [of ?m "[]"] assms(1) by simp
  obtain m' b' where a: "assign_responses rs ?m b = (m', b')" by force
  have in_m: "(ids ! k, k) \<in> set ?m" using assms(2,3) by (auto simp: set_zip)
  have sub: "snd ` set ?m \<subseteq> {..<length b}" using assms(2) by (auto simp: set_zip)
  from assign_responses_spec [OF _ _ sub a] assms(1) have s:
    "length b' = length b" "m' = filter (\<lambda>e. response_for rs (fst e) = None) ?m"
    "b' ! k = (case response_for rs (ids ! k) of None \<Rightarrow> b ! k | Some r \<Rightarrow> elem_assign r (b ! k))"
    using in_m by auto
  have "k \<in> snd ` set m' \<longleftrightarrow> response_for rs (ids ! k) = None"
  proof -
    have "(i, k) \<in> set ?m \<longleftrightarrow> i = ids ! k" for i using assms(2,3) by (auto simp: set_zip)
    then have "k \<in> snd ` set m' \<longleftrightarrow> (ids ! k, k) \<in> set m'" unfolding s(2) by (force simp del: set_zip)
    then show ?thesis using in_m unfolding s(2) by simp
  qed
  moreover have "distinct (map snd m')" "snd ` set m' \<subseteq> {..<length b'}"
    unfolding s(1,2) using sub by (auto simp: distinct_map_filter)
  ultimately show ?thesis
    using fold_missing [of m' b' k] assms(3) s(1,3) by (simp add: BatchCallContext_end_def m a split: option.split)
qed

lemma assign_responses_length: "assign_responses rs m b = (m', b') \<Longrightarrow> length b' = length b"
  by (induction rs m b rule: assign_responses.induct) (auto split: option.splits)

lemma BatchCallContext_end_length: "length (BatchCallContext_end ids rs b) = length b"
proof -
  have f: "length (fold (\<lambda>(i, index) b. b[index := missing_response (b ! index)]) m b') = length b'" for m and b' :: "'a BatchElem list"
    by (induction m arbitrary: b') auto
  obtain m' b' where a: "assign_responses rs (fold (\<lambda>(i, index) m. alist_put i index m) (zip ids [0..<length ids]) []) b = (m', b')"
    by force
  show ?thesis by (simp only: BatchCallContext_end_def Let_def a prod.case f assign_responses_length [OF a])
qed

end
