(* ===== verification/Rpc_Batch.thy ===== *)
theory Rpc_Batch
  imports Rpc_Handler
begin

text \<open>
  \<^verbatim>\<open>src/rpc/handler.go\<close>, batches under a timeout: \<^verbatim>\<open>batchCallBuffer\<close> is shared by the
  goroutine that runs the calls and the timer that cancels them. Its methods hold the mutex
  for their whole body and are functions here; \<open>batch_step\<close> interleaves the two goroutines
  (and the end of the connection) at every point between those methods.

  Shown here: whatever the interleaving, at most one batch is written, and it answers a prefix
  of the calls, one answer per call that wants one and in order: all of them unless the context
  was cancelled. The last clause cannot be dropped: when the timer has cancelled the context
  but not yet answered, the processing goroutine writes what it has, and the calls left
  unanswered stay so.
\<close>

record batchCallBuffer =
  bb_calls :: "jsonrpcMessage list"
  bb_resp :: "jsonrpcMessage list"
  bb_wrote :: bool

type_synonym batch_conn = "(jsonrpcMessage list \<times> bool) list"

definition nextCall :: "batchCallBuffer \<Rightarrow> jsonrpcMessage option" where
  "nextCall b = (case bb_calls b of [] \<Rightarrow> None | msg # _ \<Rightarrow> Some msg)"

definition pushResponse :: "jsonrpcMessage option \<Rightarrow> batchCallBuffer \<Rightarrow> batchCallBuffer" where
  "pushResponse answer b =
     b\<lparr>bb_resp := (case answer of None \<Rightarrow> bb_resp b | Some r \<Rightarrow> bb_resp b @ [r]), bb_calls := tl (bb_calls b)\<rparr>"

definition doWrite :: "bool \<Rightarrow> batchCallBuffer \<times> batch_conn \<Rightarrow> batchCallBuffer \<times> batch_conn" where
  "doWrite isErrorResponse s =
     (let (b, out) = s
      in if bb_wrote b then s
         else (b\<lparr>bb_wrote := True\<rparr>,
               if bb_resp b \<noteq> [] then out @ [(bb_resp b, isErrorResponse)] else out))"

definition buffer_write :: "batchCallBuffer \<times> batch_conn \<Rightarrow> batchCallBuffer \<times> batch_conn" where
  "buffer_write s = doWrite False s"

definition respondWithError ::
  "rpc_error \<Rightarrow> batchCallBuffer \<times> batch_conn \<Rightarrow> batchCallBuffer \<times> batch_conn" where
  "respondWithError err s =
     (let (b, out) = s
      in doWrite True
           (b\<lparr>bb_resp := bb_resp b @ map (\<lambda>msg. errorResponse msg err) (filter (\<lambda>msg. \<not> isNotification msg) (bb_calls b))\<rparr>,
            out))"

section \<open>The two goroutines\<close>

datatype timer_state = NoTimer | TimerSet | TimerFiring | TimerDone

datatype proc_state = Looping | Running jsonrpcMessage | TooLarge | Stopping | Writing | Finished

record batch_state =
  bs_buf :: batchCallBuffer
  bs_out :: batch_conn
  bs_cancelled :: bool
  bs_timer :: timer_state
  bs_proc :: proc_state
  bs_bytes :: int

definition batch_start :: "jsonrpcMessage list \<Rightarrow> bool \<Rightarrow> batch_state" where
  "batch_start calls timeout =
     \<lparr>bs_buf = \<lparr>bb_calls = calls, bb_resp = [], bb_wrote = False\<rparr>, bs_out = [], bs_cancelled = False,
      bs_timer = (if timeout then TimerSet else NoTimer), bs_proc = Looping, bs_bytes = 0\<rparr>"

definition on_buf ::
  "(batchCallBuffer \<times> batch_conn \<Rightarrow> batchCallBuffer \<times> batch_conn) \<Rightarrow> batch_state \<Rightarrow> batch_state" where
  "on_buf f s = (let (b, out) = f (bs_buf s, bs_out s) in s\<lparr>bs_buf := b, bs_out := out\<rparr>)"

definition errTimeout :: rpc_error where
  "errTimeout = internalServerError errcodeTimeout ''request timed out''"

definition errTooLarge :: rpc_error where
  "errTooLarge = internalServerError errcodeResponseTooLarge ''response too large''"

definition answer_bytes :: "(json \<Rightarrow> int) \<Rightarrow> jsonrpcMessage option \<Rightarrow> int" where
  "answer_bytes len a =
     (case a of None \<Rightarrow> 0 | Some r \<Rightarrow> (case jm_Result r of None \<Rightarrow> 0 | Some j \<Rightarrow> len j))"

text \<open>
  \<open>calls\<close> relates a message to what \<^verbatim>\<open>handleCallMsg\<close> may answer; \<open>maxSize\<close> is the limit on
  the size of the results, zero for none.
\<close>

inductive batch_step ::
  "(jsonrpcMessage \<Rightarrow> jsonrpcMessage option \<Rightarrow> bool) \<Rightarrow> (json \<Rightarrow> int) \<Rightarrow> int \<Rightarrow> batch_state \<Rightarrow> batch_state \<Rightarrow> bool"
  for calls len maxSize where
  next_call: "bs_proc s = Looping \<Longrightarrow> \<not> bs_cancelled s \<Longrightarrow> nextCall (bs_buf s) = Some msg \<Longrightarrow>
    batch_step calls len maxSize s (s\<lparr>bs_proc := Running msg\<rparr>)"
| no_call: "bs_proc s = Looping \<Longrightarrow> \<not> bs_cancelled s \<Longrightarrow> nextCall (bs_buf s) = None \<Longrightarrow>
    batch_step calls len maxSize s (s\<lparr>bs_proc := Stopping\<rparr>)"
| see_cancelled: "bs_proc s = Looping \<Longrightarrow> bs_cancelled s \<Longrightarrow>
    batch_step calls len maxSize s (s\<lparr>bs_proc := Stopping\<rparr>)"
| call_done: "bs_proc s = Running msg \<Longrightarrow> calls msg a \<Longrightarrow> n = bs_bytes s + answer_bytes len a \<Longrightarrow>
    batch_step calls len maxSize s
      (s\<lparr>bs_buf := pushResponse a (bs_buf s), bs_bytes := n,
         bs_proc := (if a \<noteq> None \<and> maxSize \<noteq> 0 \<and> n > maxSize then TooLarge else Looping)\<rparr>)"
| too_large: "bs_proc s = TooLarge \<Longrightarrow>
    batch_step calls len maxSize s (on_buf (respondWithError errTooLarge) (s\<lparr>bs_proc := Stopping\<rparr>))"
| stop_timer: "bs_proc s = Stopping \<Longrightarrow>
    batch_step calls len maxSize s
      (s\<lparr>bs_timer := (if bs_timer s = TimerSet then NoTimer else bs_timer s), bs_proc := Writing\<rparr>)"
| write_out: "bs_proc s = Writing \<Longrightarrow>
    batch_step calls len maxSize s (on_buf buffer_write (s\<lparr>bs_proc := Finished\<rparr>))"
| fire: "bs_timer s = TimerSet \<Longrightarrow>
    batch_step calls len maxSize s (s\<lparr>bs_timer := TimerFiring, bs_cancelled := True\<rparr>)"
| timeout: "bs_timer s = TimerFiring \<Longrightarrow>
    batch_step calls len maxSize s (on_buf (respondWithError errTimeout) (s\<lparr>bs_timer := TimerDone\<rparr>))"
| conn_cancel: "batch_step calls len maxSize s (s\<lparr>bs_cancelled := True\<rparr>)"

inductive batch_reachable ::
  "(jsonrpcMessage \<Rightarrow> jsonrpcMessage option \<Rightarrow> bool) \<Rightarrow> (json \<Rightarrow> int) \<Rightarrow> int \<Rightarrow> jsonrpcMessage list \<Rightarrow> batch_state \<Rightarrow> bool"
  for calls len maxSize msgs where
  start: "batch_reachable calls len maxSize msgs (batch_start msgs t)"
| step: "batch_reachable calls len maxSize msgs s \<Longrightarrow> batch_step calls len maxSize s s' \<Longrightarrow>
    batch_reachable calls len maxSize msgs s'"

section \<open>What is written\<close>

text \<open>One answer for every message that is no notification, in order.\<close>

definition answered :: "jsonrpcMessage list \<Rightarrow> jsonrpcMessage list \<Rightarrow> bool" where
  "answered msgs rs \<longleftrightarrow>
     list_all2 (\<lambda>m r. reply_to m r \<or> answers m r) (filter (\<lambda>m. \<not> isNotification m) msgs) rs"

lemma answered_Nil [simp]: "answered [] rs \<longleftrightarrow> rs = []"
  by (simp add: answered_def)

lemma answered_append: "answered xs rs \<Longrightarrow> answered ys ss \<Longrightarrow> answered (xs @ ys) (rs @ ss)"
  by (simp add: answered_def list_all2_appendI)

lemma answered_errors:
  "answered msgs (map (\<lambda>msg. errorResponse msg err) (filter (\<lambda>msg. \<not> isNotification msg) msgs))"
  by (simp add: answered_def list.rel_map list_all2_same)

definition written_ok :: "jsonrpcMessage list \<Rightarrow> bool \<Rightarrow> batch_conn \<Rightarrow> bool" where
  "written_ok msgs cancelled out \<longleftrightarrow>
     out = [] \<or> (\<exists>rs e. out = [(rs, e)] \<and> rs \<noteq> [] \<and>
       (answered msgs rs \<or> cancelled \<and> (\<exists>xs ys. msgs = xs @ ys \<and> answered xs rs)))"

definition batch_inv :: "jsonrpcMessage list \<Rightarrow> batch_state \<Rightarrow> bool" where
  "batch_inv msgs s \<longleftrightarrow>
     written_ok msgs (bs_cancelled s) (bs_out s) \<and>
     (\<exists>done. msgs = done @ bb_calls (bs_buf s) \<and>
        (\<not> bb_wrote (bs_buf s) \<longrightarrow> bs_out s = [] \<and> answered done (bb_resp (bs_buf s)))) \<and>
     (\<forall>msg. bs_proc s = Running msg \<longrightarrow> nextCall (bs_buf s) = Some msg) \<and>
     (bs_proc s = Stopping \<or> bs_proc s = Writing \<longrightarrow>
        bb_wrote (bs_buf s) \<or> bb_calls (bs_buf s) = [] \<or> bs_cancelled s)"

lemma written_ok_cancel: "written_ok msgs c out \<Longrightarrow> written_ok msgs True out"
  by (auto simp: written_ok_def)

text \<open>Both writers: the invariant's clause about the connection survives, the flag is set.\<close>

lemma respondWithError_spec:
  assumes "\<not> bb_wrote b \<Longrightarrow> out = [] \<and> answered done (bb_resp b)" and "msgs = done @ bb_calls b"
    and "written_ok msgs c out" and "respondWithError err (b, out) = (b', out')"
  shows "written_ok msgs c out' \<and> bb_wrote b' \<and> bb_calls b' = bb_calls b"
  using assms answered_append [of "done" "bb_resp b" "bb_calls b", OF _ answered_errors]
  by (auto simp: respondWithError_def doWrite_def written_ok_def Let_def split: if_splits)

lemma buffer_write_spec:
  assumes "\<not> bb_wrote b \<Longrightarrow> out = [] \<and> answered done (bb_resp b)" and "msgs = done @ bb_calls b"
    and "written_ok msgs c out" and "bb_wrote b \<or> bb_calls b = [] \<or> c" and "buffer_write (b, out) = (b', out')"
  shows "written_ok msgs c out' \<and> bb_wrote b' \<and> bb_calls b' = bb_calls b"
  using assms by (auto simp: buffer_write_def doWrite_def written_ok_def split: if_splits)

text \<open>The contract of whoever answers the calls: nothing for a notification, an answer otherwise.\<close>

locale call_server =
  fixes calls :: "jsonrpcMessage \<Rightarrow> jsonrpcMessage option \<Rightarrow> bool"
  assumes call_none: "calls msg None \<Longrightarrow> isNotification msg"
    and call_some: "calls msg (Some r) \<Longrightarrow> \<not> isNotification msg \<and> answers msg r"
begin

lemma answered_push:
  assumes "answered done rs" and "calls msg a"
  shows "answered (done @ [msg]) (case a of None \<Rightarrow> rs | Some r \<Rightarrow> rs @ [r])"
proof -
  have "answered [msg] (case a of None \<Rightarrow> [] | Some r \<Rightarrow> [r])"
    using call_none call_some assms(2) by (auto simp: answered_def split: option.split)
  from answered_append [OF assms(1) this] show ?thesis by (cases a) simp_all
qed

lemma batch_inv_step:
  assumes "batch_step calls len maxSize s s'" and "batch_inv msgs s"
  shows "batch_inv msgs s'"
  using assms
proof (induction rule: batch_step.induct)
  case (next_call s msg)
  then show ?case by (auto simp: batch_inv_def)
next
  case (no_call s)
  then show ?case by (auto simp: batch_inv_def nextCall_def split: list.splits)
next
  case (see_cancelled s)
  then show ?case by (auto simp: batch_inv_def)
next
  case (call_done s msg a n)
  then obtain "done" rest where m: "msgs = done @ msg # rest" "bb_calls (bs_buf s) = msg # rest"
    and d: "\<not> bb_wrote (bs_buf s) \<Longrightarrow> bs_out s = [] \<and> answered done (bb_resp (bs_buf s))"
    by (auto simp: batch_inv_def nextCall_def split: list.splits)
  then have "msgs = (done @ [msg]) @ bb_calls (pushResponse a (bs_buf s)) \<and>
      (\<not> bb_wrote (pushResponse a (bs_buf s)) \<longrightarrow>
         bs_out s = [] \<and> answered (done @ [msg]) (bb_resp (pushResponse a (bs_buf s))))"
    using answered_push [OF _ call_done(2)] by (simp add: pushResponse_def)
  with call_done show ?case unfolding batch_inv_def by (auto simp del: append_assoc)
next
  case (too_large s)
  then obtain "done" where d: "msgs = done @ bb_calls (bs_buf s)"
    "\<not> bb_wrote (bs_buf s) \<Longrightarrow> bs_out s = [] \<and> answered done (bb_resp (bs_buf s))"
    "written_ok msgs (bs_cancelled s) (bs_out s)"
    by (auto simp: batch_inv_def)
  obtain b out where w: "respondWithError errTooLarge (bs_buf s, bs_out s) = (b, out)" by force
  from respondWithError_spec [OF d(2) d(1,3) w] w d(1) show ?case
    by (auto simp: batch_inv_def on_buf_def)
next
  case (stop_timer s)
  then show ?case by (auto simp: batch_inv_def)
next
  case (write_out s)
  then obtain "done" where d: "msgs = done @ bb_calls (bs_buf s)"
    "\<not> bb_wrote (bs_buf s) \<Longrightarrow> bs_out s = [] \<and> answered done (bb_resp (bs_buf s))"
    "written_ok msgs (bs_cancelled s) (bs_out s)"
    "bb_wrote (bs_buf s) \<or> bb_calls (bs_buf s) = [] \<or> bs_cancelled s"
    by (auto simp: batch_inv_def)
  obtain b out where w: "buffer_write (bs_buf s, bs_out s) = (b, out)" by force
  from buffer_write_spec [OF d(2) d(1,3,4) w] w d(1) show ?case
    by (auto simp: batch_inv_def on_buf_def)
next
  case (fire s)
  then show ?case by (auto simp: batch_inv_def dest: written_ok_cancel)
next
  case (timeout s)
  then obtain "done" where d: "msgs = done @ bb_calls (bs_buf s)"
    "\<not> bb_wrote (bs_buf s) \<Longrightarrow> bs_out s = [] \<and> answered done (bb_resp (bs_buf s))"
    "written_ok msgs (bs_cancelled s) (bs_out s)"
    by (auto simp: batch_inv_def)
  obtain b out where w: "respondWithError errTimeout (bs_buf s, bs_out s) = (b, out)" by force
  from respondWithError_spec [OF d(2) d(1,3) w] w d(1) timeout show ?case
    by (auto simp: batch_inv_def on_buf_def nextCall_def)
next
  case (conn_cancel s)
  then show ?case by (auto simp: batch_inv_def dest: written_ok_cancel)
qed

lemma batch_inv_reachable: "batch_reachable calls len maxSize msgs s \<Longrightarrow> batch_inv msgs s"
proof (induction rule: batch_reachable.induct)
  case (start t)
  show ?case by (simp add: batch_inv_def batch_start_def written_ok_def)
next
  case (step s s')
  then show ?case by (blast intro: batch_inv_step)
qed

end

text \<open>The handler's own calls keep the contract, in whatever state they run.\<close>

definition handler_calls :: "('v, 's) hconf \<Rightarrow> jsonrpcMessage \<Rightarrow> jsonrpcMessage option \<Rightarrow> bool" where
  "handler_calls H msg a \<longleftrightarrow> (\<exists>h h'. handleCallMsg H msg h = (Ret a, h'))"

interpretation handler_batch: call_server "handler_calls H"
  by unfold_locales (auto simp: handler_calls_def dest!: handleCallMsg_answers)

end
