(* ===== verification/Rpc_Http.thy ===== *)
theory Rpc_Http
  imports Rpc_Dispatch Rpc_Batch
begin

text \<open>
  \<^verbatim>\<open>src/rpc/server.go\<close> and \<^verbatim>\<open>src/rpc/http.go\<close>: the RPC server with its registry and the
  connections it tracks, one request over HTTP, and the client's side of HTTP. What Go's HTTP
  library does to a request or a response before the code sees it (parsing headers and bodies)
  is part of the request's and the response's record.

  Shown here: a request is rejected for its method, size or content type before its body is
  read; every other request gets what the handler answers; stopping the server closes every
  tracked connection and later ones are refused; a call over HTTP always returns; a
  notification over HTTP never succeeds.
\<close>

section \<open>The server\<close>

record ('v, 's) rpc_server =
  rs_services :: "('v, 's) serviceRegistry"
  rs_codecs :: "nat list"
  rs_run :: bool
  rs_batchItemLimit :: int
  rs_batchResponseLimit :: int

definition MetadataApi :: string where
  "MetadataApi = ''rpc''"

definition EngineApi :: string where
  "EngineApi = ''engine''"

definition RegisterName ::
  "string \<Rightarrow> ('v, 's) go_method list \<Rightarrow> ('v, 's) rpc_server \<Rightarrow> string option \<times> ('v, 's) rpc_server" where
  "RegisterName name rcvr s =
     (case registerName name rcvr (rs_services s) of
        Inl e \<Rightarrow> (Some e, s)
      | Inr r \<Rightarrow> (None, s\<lparr>rs_services := r\<rparr>))"

text \<open>\<open>rpcService\<close>: the methods of \<^verbatim>\<open>RPCService\<close>. The error of its registration is dropped.\<close>

definition rpc_NewServer :: "('v, 's) go_method list \<Rightarrow> ('v, 's) rpc_server" where
  "rpc_NewServer rpcService =
     snd (RegisterName MetadataApi rpcService
            \<lparr>rs_services = Map.empty, rs_codecs = [], rs_run = True, rs_batchItemLimit = 0, rs_batchResponseLimit = 0\<rparr>)"

definition SetBatchLimits :: "int \<Rightarrow> int \<Rightarrow> ('v, 's) rpc_server \<Rightarrow> ('v, 's) rpc_server" where
  "SetBatchLimits itemLimit maxResponseSize s =
     s\<lparr>rs_batchItemLimit := itemLimit, rs_batchResponseLimit := maxResponseSize\<rparr>"

definition trackCodec :: "nat \<Rightarrow> ('v, 's) rpc_server \<Rightarrow> bool \<times> ('v, 's) rpc_server" where
  "trackCodec codec s =
     (if \<not> rs_run s then (False, s)
      else (True, s\<lparr>rs_codecs := (if codec \<in> set (rs_codecs s) then rs_codecs s else rs_codecs s @ [codec])\<rparr>))"

definition untrackCodec :: "nat \<Rightarrow> ('v, 's) rpc_server \<Rightarrow> ('v, 's) rpc_server" where
  "untrackCodec codec s = s\<lparr>rs_codecs := filter (\<lambda>c. c \<noteq> codec) (rs_codecs s)\<rparr>"

text \<open>Stopping gives the connections it closes.\<close>

definition rpc_Stop :: "('v, 's) rpc_server \<Rightarrow> nat list \<times> ('v, 's) rpc_server" where
  "rpc_Stop s = (if rs_run s then (rs_codecs s, s\<lparr>rs_run := False\<rparr>) else ([], s))"

text \<open>
  The life of the connections of a server: \<open>closed\<close> are the closed ones. A connection that is
  refused is closed at once; one that ends is closed before it is untracked.
\<close>

inductive codecs_reachable :: "('v, 's) rpc_server \<Rightarrow> nat list \<Rightarrow> bool" where
  new: "codecs_reachable (SetBatchLimits i m (rpc_NewServer svc)) []"
| serve: "codecs_reachable s closed \<Longrightarrow> trackCodec c s = (True, s') \<Longrightarrow> c \<notin> set closed \<Longrightarrow> codecs_reachable s' closed"
| refuse: "codecs_reachable s closed \<Longrightarrow> trackCodec c s = (False, s') \<Longrightarrow> codecs_reachable s' (c # closed)"
| peer_close: "codecs_reachable s closed \<Longrightarrow> c \<in> set (rs_codecs s) \<Longrightarrow> codecs_reachable s (c # closed)"
| untrack: "codecs_reachable s closed \<Longrightarrow> c \<in> set closed \<Longrightarrow> codecs_reachable (untrackCodec c s) closed"
| stop: "codecs_reachable s closed \<Longrightarrow> rpc_Stop s = (cs, s') \<Longrightarrow> codecs_reachable s' (cs @ closed)"

inductive_cases codecs_reachableE: "codecs_reachable s closed"

lemma rpc_NewServer_fields [simp]:
  "rs_run (rpc_NewServer svc) = True" "rs_codecs (rpc_NewServer svc) = []"
  by (simp_all add: rpc_NewServer_def RegisterName_def split: sum.split)

lemma stopped_all_closed:
  "codecs_reachable s closed \<Longrightarrow> \<not> rs_run s \<Longrightarrow> set (rs_codecs s) \<subseteq> set closed"
proof (induction rule: codecs_reachable.induct)
  case (stop s closed cs s')
  then show ?case by (auto simp: rpc_Stop_def split: if_splits)
qed (auto simp: trackCodec_def untrackCodec_def SetBatchLimits_def split: if_splits)

section \<open>One request\<close>

datatype body = BodyEOF | BodyBad | BodyJson json

definition request_conf :: "('v, 's) rpc_server \<Rightarrow> ('v, 's) hconf \<Rightarrow> ('v, 's) hconf" where
  "request_conf s H =
     H\<lparr>hc_reg := rs_services s, hc_allowSubscribe := False, hc_batchRequestLimit := rs_batchItemLimit s,
       hc_batchResponseMaxSize := rs_batchResponseLimit s\<rparr>"

definition serveSingleRequest ::
  "('v, 's) rpc_server \<Rightarrow> ('v, 's) hconf \<Rightarrow> body \<Rightarrow> ('s hstate, written) gom" where
  "serveSingleRequest s H b =
     (if \<not> rs_run s then gret WriteNothing
      else case b of
        BodyEOF \<Rightarrow> gret WriteNothing
      | BodyBad \<Rightarrow> gret (WriteOne (errorMessage (invalidMessageError ''parse error'')) True)
      | BodyJson raw \<Rightarrow>
          (case readBatch raw of
             (msgs, True) \<Rightarrow> handleBatch (request_conf s H) msgs
           | (msgs, False) \<Rightarrow>
               (case msgs of
                  [] \<Rightarrow> glift (Panic IndexOutOfRange)
                | msg # _ \<Rightarrow> handleMsg (request_conf s H) msg)))"

text \<open>\<open>hr_mediaType\<close> is what \<^verbatim>\<open>mime.ParseMediaType\<close> makes of the content type, if anything.\<close>

record http_req =
  hr_Method :: string
  hr_ContentLength :: int
  hr_RawQuery :: string
  hr_mediaType :: "string option"
  hr_body :: body
  hr_Path :: string
  hr_Host :: string
  hr_Upgrade :: string
  hr_Connection :: string
  hr_AcceptEncoding :: string

definition maxRequestContentLength :: int where
  "maxRequestContentLength = 1024 * 1024 * 32"

definition contentType :: string where
  "contentType = ''application/json''"

definition acceptedContentTypes :: "string list" where
  "acceptedContentTypes = [contentType, ''application/json-rpc'', ''application/jsonrequest'']"

definition validateRequest :: "http_req \<Rightarrow> nat \<times> string option" where
  "validateRequest r =
     (if hr_Method r = ''PUT'' \<or> hr_Method r = ''DELETE'' then (405, Some ''method not allowed'')
      else if hr_ContentLength r > maxRequestContentLength then
        (413, Some (''content length too large ('' @ FormatInt (hr_ContentLength r) @ ''>'' @
                    FormatInt maxRequestContentLength @ '')''))
      else if hr_Method r = ''OPTIONS'' then (0, None)
      else case hr_mediaType r of
        Some mt \<Rightarrow> if mt \<in> set acceptedContentTypes then (0, None)
                   else (415, Some (''invalid content type, only '' @ contentType @ '' is supported''))
      | None \<Rightarrow> (415, Some (''invalid content type, only '' @ contentType @ '' is supported'')))"

datatype http_response = Status nat | HttpError nat string | Answer written

definition rpc_ServeHTTP :: "('v, 's) rpc_server \<Rightarrow> ('v, 's) hconf \<Rightarrow> http_req \<Rightarrow> ('s hstate, http_response) gom" where
  "rpc_ServeHTTP s H r =
     (if hr_Method r = ''GET'' \<and> hr_ContentLength r = 0 \<and> hr_RawQuery r = [] then gret (Status 200)
      else case validateRequest r of
        (code, Some err) \<Rightarrow> gret (HttpError code err)
      | (code, None) \<Rightarrow> gbind (serveSingleRequest s H (hr_body r)) (\<lambda>w. gret (Answer w)))"

text \<open>
  The timeout of a request, in nanoseconds: \<open>untilDeadline\<close> is the time left to the context's
  deadline, \<open>writeTimeout\<close> that of the HTTP server.
\<close>

definition tighten :: "int \<Rightarrow> int \<times> bool \<Rightarrow> int \<times> bool" where
  "tighten d st = (let (timeout, hasTimeout) = st in if d < timeout then (d, True) else (timeout, hasTimeout))"

definition ContextRequestTimeout :: "int option \<Rightarrow> int option \<Rightarrow> int \<times> bool" where
  "ContextRequestTimeout untilDeadline writeTimeout =
     (let st0 = (max_i64, False);
          st1 = (case untilDeadline of None \<Rightarrow> st0 | Some d \<Rightarrow> tighten d st0)
      in case writeTimeout of
           None \<Rightarrow> st1
         | Some wt \<Rightarrow> if wt > 0 then tighten (i64 (wt - 100000000)) st1 else st1)"

section \<open>The client over HTTP\<close>

text \<open>
  A response as the library hands it over: its status, its body as text and what the JSON
  decoder says of the body. \<open>doing\<close> is the round trip to the server.
\<close>

record http_resp =
  ha_StatusCode :: int
  ha_Status :: string
  ha_Body :: string
  ha_json :: "string + json"

definition doRequest ::
  "string option \<Rightarrow> (json \<Rightarrow> string + http_resp) \<Rightarrow> string + json \<Rightarrow> client_error + http_resp" where
  "doRequest authErr doing msg =
     (case msg of
        Inl e \<Rightarrow> Inl (OtherError e)
      | Inr body \<Rightarrow>
          (case authErr of
             Some e \<Rightarrow> Inl (OtherError e)
           | None \<Rightarrow>
               (case doing body of
                  Inl e \<Rightarrow> Inl (OtherError e)
                | Inr resp \<Rightarrow>
                    if ha_StatusCode resp < 200 \<or> ha_StatusCode resp \<ge> 300
                    then Inl (OtherError (HTTPError_string (ha_Status resp) (ha_Body resp)))
                    else Inr resp)))"

text \<open>The channel of the request after sending, and the error if there is one.\<close>

definition sendHTTP ::
  "client_error + http_resp \<Rightarrow> jsonrpcMessage list chan option \<Rightarrow>
     (jsonrpcMessage list chan option \<times> client_error option) outcome" where
  "sendHTTP answer resp =
     (case answer of
        Inl e \<Rightarrow> Ret (resp, Some e)
      | Inr a \<Rightarrow>
          (case ha_json a of
             Inl e \<Rightarrow> Ret (resp, Some (OtherError e))
           | Inr j \<Rightarrow>
               (let (msg, bad) = dec_struct jsonrpcMessage_fields j zeroMessage
                in if bad then Ret (resp, Some (OtherError ''json: cannot unmarshal''))
                   else obind (chan_send [msg] resp) (\<lambda>c. Ret (c, None)))))"

definition CallContext_http ::
  "(json \<Rightarrow> string + 'r) option \<Rightarrow> client_error + http_resp \<Rightarrow> (client_error + 'r option) outcome" where
  "CallContext_http unmarshal answer =
     obind (sendHTTP answer (Some (make_chan 1))) (\<lambda>(c, err).
     case err of
       Some e \<Rightarrow> Ret (Inl e)
     | None \<Rightarrow>
         (case c of
            Some ch \<Rightarrow> (case ch_buf ch of r # _ \<Rightarrow> CallContext_end unmarshal r None | [] \<Rightarrow> Hang)
          | None \<Rightarrow> Hang))"

text \<open>A notification's request is a zero value: it has no channel.\<close>

definition Notify_http :: "client_error + http_resp \<Rightarrow> client_error option outcome" where
  "Notify_http answer = obind (sendHTTP answer None) (\<lambda>(c, err). Ret err)"

section \<open>Facts\<close>

lemma CallContext_http_returns: "\<exists>r. CallContext_http unmarshal answer = Ret r"
  by (auto simp: CallContext_http_def sendHTTP_def make_chan_def CallContext_end_def
      split: sum.split prod.split option.split)

lemma CallContext_http_result:
  assumes "ha_json a = Inr (message_json resp)" and "jm_Error resp = None" and "jm_Result resp = Some j"
    and "dec_struct jsonrpcMessage_fields (message_json resp) zeroMessage = (resp, False)"
  shows "CallContext_http (Some f) (Inr a) = Ret (case f j of Inl m \<Rightarrow> Inl (OtherError m) | Inr v \<Rightarrow> Inr (Some v))"
  using assms by (simp add: CallContext_http_def sendHTTP_def make_chan_def CallContext_end_def)

lemma Notify_http_never_ok: "Notify_http answer \<noteq> Ret None"
  by (auto simp: Notify_http_def sendHTTP_def split: sum.split prod.split)

lemma Notify_http_hangs:
  assumes "ha_json a = Inr j" and "dec_struct jsonrpcMessage_fields j zeroMessage = (msg, False)"
  shows "Notify_http (Inr a) = Hang"
  using assms by (simp add: Notify_http_def sendHTTP_def)

lemma ContextRequestTimeout_write:
  assumes "1000000000 \<le> wt" and "is_i64 wt"
  shows "ContextRequestTimeout untilDeadline (Some wt) =
    (case untilDeadline of None \<Rightarrow> (wt - 100000000, True) | Some d \<Rightarrow> (min d (wt - 100000000), True))"
proof -
  have "i64 (wt - 100000000) = wt - 100000000" using assms by (intro i64_id) (auto simp: is_i64_def)
  moreover have "wt - 100000000 < max_i64" using assms(2) by (auto simp: is_i64_def max_i64_def)
  ultimately show ?thesis
    using assms by (auto simp: ContextRequestTimeout_def tighten_def Let_def split: option.split)
qed

section \<open>A request is answered\<close>

text \<open>Computations that return or never end, but do not panic.\<close>

definition no_panic :: "('s, 'a) gom \<Rightarrow> bool" where
  "no_panic m \<longleftrightarrow> (\<forall>s p. fst (m s) \<noteq> Panic p)"

lemma no_panic_intros [intro]:
  "no_panic (gret a)" "no_panic (gread f)" "no_panic (gmodify g)"
  "no_panic m \<Longrightarrow> (\<And>a. no_panic (k a)) \<Longrightarrow> no_panic (gbind m k)"
  by (auto simp: no_panic_def gret_run gbind_def split: prod.split outcome.split) (metis fst_conv)

lemma no_panic_gfold: "(\<And>x acc. no_panic (f x acc)) \<Longrightarrow> no_panic (gfold f xs acc)"
  by (induction xs arbitrary: acc) auto

lemma no_panic_addSubscriptions: "no_panic (addSubscriptions H nn)"
  unfolding addSubscriptions_def
  by (intro no_panic_gfold no_panic_intros) (auto split: option.split)

lemma no_panic_handleCallMsg: "no_panic (handleCallMsg H msg)"
  by (simp add: no_panic_def handleCallMsg_no_panic)

lemma no_panic_batch_loop: "no_panic (batch_loop H calls resp n)"
  by (induction H calls resp n rule: batch_loop.induct)
    (auto simp: Let_def intro!: no_panic_intros no_panic_handleCallMsg split: option.split)

lemma no_panic_handleMsg: "no_panic (handleMsg H msg)"
  by (auto simp: handleMsg_def intro!: no_panic_intros no_panic_handleCallMsg no_panic_addSubscriptions)

lemma no_panic_handleBatch: "no_panic (handleBatch H msgs)"
  by (auto simp: handleBatch_def Let_def intro!: no_panic_intros no_panic_batch_loop no_panic_addSubscriptions)

lemma readBatch_single: "readBatch raw = (msgs, False) \<Longrightarrow> msgs \<noteq> []"
  by (cases raw) (auto simp: readBatch_def parseMessage_def)

lemma no_panic_serveSingleRequest: "no_panic (serveSingleRequest s H b)"
proof (cases b)
  case (BodyJson raw)
  obtain msgs batch where r: "readBatch raw = (msgs, batch)" by force
  show ?thesis
    using BodyJson r readBatch_single [of raw msgs]
    by (cases batch; cases msgs)
      (auto simp: serveSingleRequest_def intro!: no_panic_handleMsg no_panic_handleBatch)
qed (auto simp: serveSingleRequest_def)

lemma no_panic_rpc_ServeHTTP: "no_panic (rpc_ServeHTTP s H r)"
  by (auto simp: rpc_ServeHTTP_def intro!: no_panic_intros no_panic_serveSingleRequest split: prod.split option.split)

lemma handleMsg_call:
  assumes "isCall msg" and "handleMsg H msg h = (Ret w, h')"
  shows "\<exists>r. w = WriteOne r False \<and> answers msg r"
proof -
  have "\<not> isResult msg"
    using assms(1) message_kinds [of msg] by (auto simp: isResult_def)
  with assms(2) obtain a h1 where a: "handleCallMsg H msg (h\<lparr>hs_notifiers := 0\<rparr>) = (Ret a, h1)"
    and w: "w = (case a of None \<Rightarrow> WriteNothing | Some r \<Rightarrow> WriteOne r False)"
    by (auto simp: handleMsg_def gret_run elim!: gbind_RetE)
  from handleCallMsg_answers [OF a] assms(1) message_kinds(1) [of msg] w show ?thesis
    by (auto split: option.splits)
qed

end
