(* ===== verification/Rpc_Stack.thy ===== *)
theory Rpc_Stack
  imports Rpc_Http
begin

text \<open>
  \<^verbatim>\<open>src/server/rpcstack.go\<close>: the HTTP server that carries the RPC handlers (its life cycle,
  the routing of requests, the host check, compression) and the registration of the APIs.
  Listening and shutting down belong to Go's network library: whether listening succeeds is an
  argument, and the RPC servers that are stopped come out as results. Logging is left out. The
  mutex is held by every operation that changes the server, so each is one step.

  Shown here: after the registration exactly the APIs of the allowed modules can be called; the
  server listens or not as its fields say, through every sequence of operations, and stopping
  it leaves it free for a new configuration; a request reaches exactly one handler.
\<close>

section \<open>Configuration\<close>

record rpcEndpointConfig =
  ec_jwtSecret :: string
  ec_batchItemLimit :: int
  ec_batchResponseSizeLimit :: int

record httpConfig =
  hc_Modules :: "string list"
  hc_CorsAllowedOrigins :: "string list"
  hc_Vhosts :: "string list"
  hc_prefix :: string
  hc_endpoint :: rpcEndpointConfig

record wsConfig =
  wc_Origins :: "string list"
  wc_Modules :: "string list"
  wc_prefix :: string
  wc_endpoint :: rpcEndpointConfig

text \<open>Durations in nanoseconds.\<close>

record HTTPTimeouts =
  to_Read :: int
  to_ReadHeader :: int
  to_Write :: int
  to_Idle :: int

definition DefaultHTTPTimeouts :: HTTPTimeouts where
  "DefaultHTTPTimeouts =
     \<lparr>to_Read = 600000000000, to_ReadHeader = 600000000000, to_Write = 600000000000, to_Idle = 600000000000\<rparr>"

definition at_least_second :: "int \<Rightarrow> int \<Rightarrow> int" where
  "at_least_second d dflt = (if d < 1000000000 then dflt else d)"

definition CheckTimeouts :: "HTTPTimeouts \<Rightarrow> HTTPTimeouts" where
  "CheckTimeouts t =
     \<lparr>to_Read = at_least_second (to_Read t) (to_Read DefaultHTTPTimeouts),
      to_ReadHeader = at_least_second (to_ReadHeader t) (to_ReadHeader DefaultHTTPTimeouts),
      to_Write = at_least_second (to_Write t) (to_Write DefaultHTTPTimeouts),
      to_Idle = at_least_second (to_Idle t) (to_Idle DefaultHTTPTimeouts)\<rparr>"

section \<open>Registering the APIs\<close>

type_synonym ('v, 's) api = "string \<times> ('v, 's) go_method list"

definition available_modules :: "('v, 's) api list \<Rightarrow> string list" where
  "available_modules apis =
     fold (\<lambda>api available. if fst api \<in> set available then available else available @ [fst api]) apis []"

definition checkModuleAvailability :: "string list \<Rightarrow> ('v, 's) api list \<Rightarrow> string list \<times> string list" where
  "checkModuleAvailability modules apis =
     (let available = available_modules apis
      in (filter (\<lambda>name. name \<notin> set available \<and> name \<noteq> MetadataApi \<and> name \<noteq> EngineApi) modules, available))"

fun register_allowed ::
  "string list \<Rightarrow> ('v, 's) api list \<Rightarrow> ('v, 's) rpc_server \<Rightarrow> string option \<times> ('v, 's) rpc_server" where
  "register_allowed allowList [] srv = (None, srv)"
| "register_allowed allowList (api # apis) srv =
     (if fst api \<in> set allowList \<or> allowList = [] then
        (case RegisterName (fst api) (snd api) srv of
           (Some e, srv') \<Rightarrow> (Some e, srv')
         | (None, srv') \<Rightarrow> register_allowed allowList apis srv')
      else register_allowed allowList apis srv)"

definition RegisterApis ::
  "('v, 's) api list \<Rightarrow> string list \<Rightarrow> ('v, 's) rpc_server \<Rightarrow> string option \<times> ('v, 's) rpc_server" where
  "RegisterApis apis modules srv = register_allowed modules apis srv"

section \<open>The HTTP server\<close>

text \<open>
  The handler of an endpoint is its RPC server with the configuration it was made from. The
  listener is the address it is bound to; the server is the timeouts it was started with.
\<close>

record ('v, 's) httpServer =
  ht_timeouts :: HTTPTimeouts
  ht_server :: "HTTPTimeouts option"
  ht_listener :: "string option"
  ht_httpConfig :: "httpConfig option"
  ht_httpHandler :: "('v, 's) rpc_server option"
  ht_wsConfig :: "wsConfig option"
  ht_wsHandler :: "('v, 's) rpc_server option"
  ht_endpoint :: string
  ht_host :: string
  ht_port :: int

definition newHTTPServer :: "HTTPTimeouts \<Rightarrow> ('v, 's) httpServer" where
  "newHTTPServer timeouts =
     \<lparr>ht_timeouts = timeouts, ht_server = None, ht_listener = None, ht_httpConfig = None, ht_httpHandler = None,
      ht_wsConfig = None, ht_wsHandler = None, ht_endpoint = [], ht_host = [], ht_port = 0\<rparr>"

text \<open>\<^verbatim>\<open>net.JoinHostPort\<close>: a host with a colon or a percent sign is put in brackets.\<close>

definition JoinHostPort :: "string \<Rightarrow> string \<Rightarrow> string" where
  "JoinHostPort host port =
     (if CHR '':'' \<in> set host \<or> CHR ''%'' \<in> set host then ''['' @ host @ '']:'' @ port else host @ '':'' @ port)"

definition setListenAddr ::
  "string \<Rightarrow> int \<Rightarrow> ('v, 's) httpServer \<Rightarrow> string option \<times> ('v, 's) httpServer" where
  "setListenAddr host port h =
     (if ht_listener h \<noteq> None \<and> (host \<noteq> ht_host h \<or> port \<noteq> ht_port h)
      then (Some (''HTTP server already running on '' @ ht_endpoint h), h)
      else (None, h\<lparr>ht_host := host, ht_port := port, ht_endpoint := JoinHostPort host (FormatInt port)\<rparr>))"

definition listenAddr :: "('v, 's) httpServer \<Rightarrow> string" where
  "listenAddr h = (case ht_listener h of Some addr \<Rightarrow> addr | None \<Rightarrow> ht_endpoint h)"

definition rpcAllowed :: "('v, 's) httpServer \<Rightarrow> bool" where
  "rpcAllowed h = (ht_httpHandler h \<noteq> None)"

definition wsAllowed :: "('v, 's) httpServer \<Rightarrow> bool" where
  "wsAllowed h = (ht_wsHandler h \<noteq> None)"

text \<open>The operations below give the RPC servers they stop.\<close>

definition disableRPC :: "('v, 's) httpServer \<Rightarrow> ('v, 's) rpc_server list \<times> bool \<times> ('v, 's) httpServer" where
  "disableRPC h =
     (case ht_httpHandler h of
        None \<Rightarrow> ([], False, h)
      | Some srv \<Rightarrow> ([srv], True, h\<lparr>ht_httpHandler := None\<rparr>))"

definition disableWS :: "('v, 's) httpServer \<Rightarrow> ('v, 's) rpc_server list \<times> bool \<times> ('v, 's) httpServer" where
  "disableWS h =
     (case ht_wsHandler h of
        None \<Rightarrow> ([], False, h)
      | Some srv \<Rightarrow> ([srv], True, h\<lparr>ht_wsHandler := None\<rparr>))"

definition zeroTimeouts :: HTTPTimeouts where
  "zeroTimeouts = \<lparr>to_Read = 0, to_ReadHeader = 0, to_Write = 0, to_Idle = 0\<rparr>"

text \<open>\<open>listen\<close>: what \<^verbatim>\<open>net.Listen\<close> says of the endpoint, an error or the bound address.\<close>

definition http_start ::
  "(string \<Rightarrow> string + string) \<Rightarrow> ('v, 's) httpServer \<Rightarrow>
     string option \<times> ('v, 's) rpc_server list \<times> ('v, 's) httpServer" where
  "http_start listen h =
     (if ht_endpoint h = [] \<or> ht_listener h \<noteq> None then (None, [], h)
      else
        (let h1 = h\<lparr>ht_server := Some (if ht_timeouts h \<noteq> zeroTimeouts then ht_timeouts h else zeroTimeouts)\<rparr>
         in case listen (ht_endpoint h) of
              Inl e \<Rightarrow>
                (let (s1, _, h2) = disableRPC h1; (s2, _, h3) = disableWS h2 in (Some e, s1 @ s2, h3))
            | Inr addr \<Rightarrow> (None, [], h1\<lparr>ht_listener := Some addr\<rparr>)))"

definition doStop :: "('v, 's) httpServer \<Rightarrow> ('v, 's) rpc_server list \<times> ('v, 's) httpServer" where
  "doStop h =
     (if ht_listener h = None then ([], h)
      else (let (s1, _, h1) = disableRPC h; (s2, _, h2) = disableWS h1
            in (s1 @ s2, h2\<lparr>ht_host := [], ht_port := 0, ht_endpoint := [], ht_server := None, ht_listener := None\<rparr>)))"

definition enableRPC ::
  "('v, 's) go_method list \<Rightarrow> ('v, 's) api list \<Rightarrow> httpConfig \<Rightarrow> ('v, 's) httpServer \<Rightarrow>
     string option \<times> ('v, 's) httpServer" where
  "enableRPC rpcService apis config h =
     (if rpcAllowed h then (Some ''JSON-RPC over HTTP is already enabled'', h)
      else
        (let srv = SetBatchLimits (ec_batchItemLimit (hc_endpoint config)) (ec_batchResponseSizeLimit (hc_endpoint config))
                     (rpc_NewServer rpcService)
         in case RegisterApis apis (hc_Modules config) srv of
              (Some e, _) \<Rightarrow> (Some e, h)
            | (None, srv') \<Rightarrow> (None, h\<lparr>ht_httpConfig := Some config, ht_httpHandler := Some srv'\<rparr>)))"

definition enableWS ::
  "('v, 's) go_method list \<Rightarrow> ('v, 's) api list \<Rightarrow> wsConfig \<Rightarrow> ('v, 's) httpServer \<Rightarrow>
     string option \<times> ('v, 's) httpServer" where
  "enableWS rpcService apis config h =
     (if wsAllowed h then (Some ''JSON-RPC over WebSocket is already enabled'', h)
      else
        (let srv = SetBatchLimits (ec_batchItemLimit (wc_endpoint config)) (ec_batchResponseSizeLimit (wc_endpoint config))
                     (rpc_NewServer rpcService)
         in case RegisterApis apis (wc_Modules config) srv of
              (Some e, _) \<Rightarrow> (Some e, h)
            | (None, srv') \<Rightarrow> (None, h\<lparr>ht_wsConfig := Some config, ht_wsHandler := Some srv'\<rparr>)))"

definition stopWS :: "('v, 's) httpServer \<Rightarrow> ('v, 's) rpc_server list \<times> ('v, 's) httpServer" where
  "stopWS h =
     (let (s1, had, h1) = disableWS h
      in if had \<and> \<not> rpcAllowed h1 then (let (s2, h2) = doStop h1 in (s1 @ s2, h2)) else (s1, h1))"

section \<open>Requests\<close>

definition ContainsAny :: "string \<Rightarrow> string \<Rightarrow> bool" where
  "ContainsAny s chars \<longleftrightarrow> list_ex (\<lambda>c. c \<in> set chars) s"

fun Contains :: "string \<Rightarrow> string \<Rightarrow> bool" where
  "Contains [] sub = (sub = [])"
| "Contains (c # cs) sub = (HasPrefix (c # cs) sub \<or> Contains cs sub)"

definition checkPath :: "http_req \<Rightarrow> string \<Rightarrow> bool" where
  "checkPath r path =
     (if path = [] then hr_Path r = ''/''
      else length (hr_Path r) \<ge> length path \<and> take (length path) (hr_Path r) = path)"

definition validatePrefix :: "string \<Rightarrow> string \<Rightarrow> string option" where
  "validatePrefix what path =
     (if path = [] then None
      else if path ! 0 \<noteq> CHR ''/'' then
        Some (what @ '' RPC path prefix '' @ Quote path @ '' does not contain leading '' @ Quote ''/'')
      else if ContainsAny path ''?#'' then
        Some (what @ '' RPC path prefix '' @ Quote path @ '' contains URL meta-characters'')
      else None)"

definition isWebsocket :: "http_req \<Rightarrow> bool" where
  "isWebsocket r =
     (EqualFold (hr_Upgrade r) ''websocket'' \<and> Contains (ToLower (hr_Connection r)) ''upgrade'')"

text \<open>Where \<^verbatim>\<open>ServeHTTP\<close> sends a request. \<open>mux\<close>: whether the mux has a handler for it.\<close>

datatype route = ToWebsocket | ToMux | ToRpc | NotFoundRoute | NoReply

definition http_route :: "(http_req \<Rightarrow> bool) \<Rightarrow> ('v, 's) httpServer \<Rightarrow> http_req \<Rightarrow> route" where
  "http_route mux h r =
     (if ht_wsHandler h \<noteq> None \<and> isWebsocket r then
        (if checkPath r (case ht_wsConfig h of None \<Rightarrow> [] | Some c \<Rightarrow> wc_prefix c) then ToWebsocket else NoReply)
      else if ht_httpHandler h \<noteq> None then
        (if mux r then ToMux
         else if checkPath r (case ht_httpConfig h of None \<Rightarrow> [] | Some c \<Rightarrow> hc_prefix c) then ToRpc
         else NotFoundRoute)
      else NotFoundRoute)"

text \<open>
  The host check. \<open>splitHostPort\<close> and \<open>isIP\<close> are those of Go's \<^verbatim>\<open>net\<close> library.
\<close>

definition newVHostHandler :: "string list \<Rightarrow> string list" where
  "newVHostHandler vhosts = map ToLower vhosts"

definition vhost_allows :: "(string \<Rightarrow> string option) \<Rightarrow> (string \<Rightarrow> bool) \<Rightarrow> string list \<Rightarrow> http_req \<Rightarrow> bool" where
  "vhost_allows splitHostPort isIP vhosts r =
     (if hr_Host r = [] then True
      else
        (let host = (case splitHostPort (hr_Host r) of None \<Rightarrow> hr_Host r | Some h \<Rightarrow> h)
         in isIP host \<or> ''*'' \<in> set vhosts \<or> host \<in> set vhosts))"

text \<open>
  The handlers around the RPC server: the host check, then the CORS library, which answers some
  requests itself (\<open>cors\<close>) and is absent when no origin is configured, then the server. The
  compression around them changes the encoding of what is written only; it is below.
\<close>

definition newCorsHandler ::
  "(string list \<Rightarrow> http_req \<Rightarrow> http_response option) \<Rightarrow> string list \<Rightarrow> (http_req \<Rightarrow> ('s hstate, http_response) gom) \<Rightarrow>
     http_req \<Rightarrow> ('s hstate, http_response) gom" where
  "newCorsHandler cors allowedOrigins srv r =
     (if allowedOrigins = [] then srv r
      else case cors allowedOrigins r of Some a \<Rightarrow> gret a | None \<Rightarrow> srv r)"

record net_lib =
  nl_splitHostPort :: "string \<Rightarrow> string option"
  nl_isIP :: "string \<Rightarrow> bool"
  nl_cors :: "string list \<Rightarrow> http_req \<Rightarrow> http_response option"

definition NewHTTPHandlerStack ::
  "net_lib \<Rightarrow> (http_req \<Rightarrow> ('s hstate, http_response) gom) \<Rightarrow> string list \<Rightarrow> string list \<Rightarrow>
     http_req \<Rightarrow> ('s hstate, http_response) gom" where
  "NewHTTPHandlerStack N srv cors vhosts r =
     (if vhost_allows (nl_splitHostPort N) (nl_isIP N) (newVHostHandler vhosts) r
      then newCorsHandler (nl_cors N) cors srv r
      else gret (HttpError 403 ''invalid host specified''))"

text \<open>
  \<^verbatim>\<open>ServeHTTP\<close>: \<open>mux\<close> and \<open>ws\<close> serve what is routed to the mux and to the websocket handler.
  Where the code writes nothing, Go's library answers with status 200.
\<close>

definition httpServer_ServeHTTP ::
  "net_lib \<Rightarrow> (http_req \<Rightarrow> ('s hstate, http_response) gom option) \<Rightarrow> (http_req \<Rightarrow> ('s hstate, http_response) gom) \<Rightarrow>
     ('v, 's) hconf \<Rightarrow> ('v, 's) httpServer \<Rightarrow> http_req \<Rightarrow> ('s hstate, http_response) gom" where
  "httpServer_ServeHTTP N mux ws H h r =
     (case http_route (\<lambda>r. mux r \<noteq> None) h r of
        ToWebsocket \<Rightarrow> ws r
      | ToMux \<Rightarrow> the (mux r)
      | ToRpc \<Rightarrow>
          (case (ht_httpHandler h, ht_httpConfig h) of
             (Some srv, Some c) \<Rightarrow> NewHTTPHandlerStack N (rpc_ServeHTTP srv H) (hc_CorsAllowedOrigins c) (hc_Vhosts c) r
           | _ \<Rightarrow> glift (Panic NilDereference))
      | NotFoundRoute \<Rightarrow> gret (Status 404)
      | NoReply \<Rightarrow> gret (Status 200))"

subsection \<open>Compression\<close>

text \<open>
  The response writer that compresses: \<open>gz_plain\<close> and \<open>gz_packed\<close> are the bytes that went
  to the writer below as they are and through the compressor, whose stream is open, closed or
  absent.
\<close>

datatype gz_state = GzNone | GzOpen | GzClosed

record gzipResponseWriter =
  gz_headers :: "(string \<times> string) list"
  gz_gz :: gz_state
  gz_contentLength :: u64
  gz_written :: u64
  gz_hasLength :: bool
  gz_inited :: bool
  gz_plain :: string
  gz_packed :: string

definition new_gzip_writer :: "(string \<times> string) list \<Rightarrow> gzipResponseWriter" where
  "new_gzip_writer hdr =
     \<lparr>gz_headers = hdr, gz_gz = GzNone, gz_contentLength = 0, gz_written = 0, gz_hasLength = False,
      gz_inited = False, gz_plain = [], gz_packed = []\<rparr>"

definition header_get :: "string \<Rightarrow> (string \<times> string) list \<Rightarrow> string" where
  "header_get k hdr = (case map_of hdr k of None \<Rightarrow> [] | Some v \<Rightarrow> v)"

definition gzip_init :: "gzipResponseWriter \<Rightarrow> gzipResponseWriter" where
  "gzip_init w =
     (if gz_inited w then w
      else
        (let hdr = gz_headers w;
             len = header_get ''content-length'' hdr;
             w1 = w\<lparr>gz_inited := True\<rparr>;
             w2 = (if len \<noteq> [] then
                     (case ParseUint len of
                        (n, Some err) \<Rightarrow> w1\<lparr>gz_hasLength := True, gz_contentLength := of_nat n\<rparr>
                      | (n, None) \<Rightarrow> w1)
                   else w1)
         in if header_get ''transfer-encoding'' hdr = ''identity'' then w2
            else w2\<lparr>gz_gz := GzOpen,
                    gz_headers := alist_put ''content-encoding'' ''gzip'' (alist_del ''content-length'' hdr)\<rparr>))"

text \<open>Writing to a closed compressor is refused by the library.\<close>

definition gzip_Write :: "string \<Rightarrow> gzipResponseWriter \<Rightarrow> bool \<times> gzipResponseWriter" where
  "gzip_Write b w =
     (let w1 = gzip_init w
      in case gz_gz w1 of
           GzNone \<Rightarrow> (True, w1\<lparr>gz_plain := gz_plain w1 @ b\<rparr>)
         | GzClosed \<Rightarrow> (False, w1)
         | GzOpen \<Rightarrow>
             (let w2 = w1\<lparr>gz_packed := gz_packed w1 @ b, gz_written := gz_written w1 + of_nat (length b)\<rparr>
              in (True, if gz_hasLength w2 \<and> gz_written w2 \<ge> gz_contentLength w2 then w2\<lparr>gz_gz := GzClosed\<rparr> else w2)))"

definition gzip_close :: "gzipResponseWriter \<Rightarrow> gzipResponseWriter" where
  "gzip_close w = (if gz_gz w = GzNone then w else w\<lparr>gz_gz := GzNone\<rparr>)"

section \<open>Facts\<close>

subsection \<open>Registration\<close>

lemma register_allowed_all:
  "register_allowed allowList apis srv = (None, srv') \<Longrightarrow>
   registry.register_all (filter (\<lambda>api. fst api \<in> set allowList \<or> allowList = []) apis) (rs_services srv) =
     Inr (rs_services srv')"
proof (induction allowList apis srv rule: register_allowed.induct)
  case (2 allowList api apis srv)
  obtain ns ms where api: "api = (ns, ms)" by (cases api)
  show ?case
  proof (cases "ns \<in> set allowList \<or> allowList = []")
    case True
    with "2.prems" api obtain r where r: "registerName ns ms (rs_services srv) = Inr r"
      "register_allowed allowList apis (srv\<lparr>rs_services := r\<rparr>) = (None, srv')"
      by (auto simp: RegisterName_def split: sum.splits)
    with "2.IH"(1) [of None "srv\<lparr>rs_services := r\<rparr>"] True api show ?thesis by (simp add: RegisterName_def)
  next
    case False
    with "2" api show ?thesis by simp
  qed
qed simp

lemma RegisterApis_found:
  assumes "RegisterApis apis modules srv = (None, srv')" and "distinct (map fst apis)" and "(ns, ms) \<in> set apis"
    and "ns \<in> set modules \<or> modules = []" and "last_callback ms m = Some cb" and "\<not> cb_isSubscribe cb"
    and "CHR ''_'' \<notin> set ns"
  shows "registry_callback (rs_services srv') (ns @ CHR ''_'' # m) = Some cb"
proof (rule registry.register_all_found)
  show "registry.register_all (filter (\<lambda>api. fst api \<in> set modules \<or> modules = []) apis) (rs_services srv) = Inr (rs_services srv')"
    using assms(1) by (intro register_allowed_all) (simp add: RegisterApis_def)
  show "distinct (map fst (filter (\<lambda>api. fst api \<in> set modules \<or> modules = []) apis))"
    using assms(2) by (simp add: distinct_map_filter)
qed (use assms in auto)

lemma RegisterApis_hidden:
  assumes "RegisterApis apis modules srv = (None, srv')" and "ns \<notin> set modules" and "modules \<noteq> []" and "CHR ''_'' \<notin> set ns"
  shows "registry_callback (rs_services srv') (ns @ CHR ''_'' # m) = registry_callback (rs_services srv) (ns @ CHR ''_'' # m)"
proof (rule registry.register_all_others)
  show "registry.register_all (filter (\<lambda>api. fst api \<in> set modules \<or> modules = []) apis) (rs_services srv) = Inr (rs_services srv')"
    using assms(1) by (intro register_allowed_all) (simp add: RegisterApis_def)
qed (use assms in auto)

lemma set_available_modules: "set (available_modules apis) = fst ` set apis"
proof -
  have "set (fold (\<lambda>api available. if fst api \<in> set available then available else available @ [fst api]) apis acc) =
      set acc \<union> fst ` set apis" for acc
    by (induction apis arbitrary: acc) auto
  from this [of "[]"] show ?thesis by (simp add: available_modules_def)
qed

subsection \<open>The life of the server\<close>

text \<open>
  All sequences of operations, with the RPC servers that were enabled and those that were
  stopped so far.
\<close>

inductive stack_reachable ::
  "('v, 's) httpServer \<Rightarrow> ('v, 's) rpc_server list \<Rightarrow> ('v, 's) rpc_server list \<Rightarrow> bool" where
  new: "stack_reachable (newHTTPServer t) [] []"
| addr: "stack_reachable h en st \<Longrightarrow> setListenAddr host port h = (err, h') \<Longrightarrow> stack_reachable h' en st"
| rpc_on: "stack_reachable h en st \<Longrightarrow> enableRPC svc apis c h = (None, h') \<Longrightarrow>
    stack_reachable h' (the (ht_httpHandler h') # en) st"
| ws_on: "stack_reachable h en st \<Longrightarrow> enableWS svc apis c h = (None, h') \<Longrightarrow>
    stack_reachable h' (the (ht_wsHandler h') # en) st"
| start: "stack_reachable h en st \<Longrightarrow> http_start listen h = (err, ss, h') \<Longrightarrow> stack_reachable h' en (ss @ st)"
| stop: "stack_reachable h en st \<Longrightarrow> doStop h = (ss, h') \<Longrightarrow> stack_reachable h' en (ss @ st)"
| ws_off: "stack_reachable h en st \<Longrightarrow> stopWS h = (ss, h') \<Longrightarrow> stack_reachable h' en (ss @ st)"

definition current_servers :: "('v, 's) httpServer \<Rightarrow> ('v, 's) rpc_server multiset" where
  "current_servers h = mset (case ht_httpHandler h of None \<Rightarrow> [] | Some s \<Rightarrow> [s]) +
     mset (case ht_wsHandler h of None \<Rightarrow> [] | Some s \<Rightarrow> [s])"

definition stack_inv :: "('v, 's) httpServer \<Rightarrow> ('v, 's) rpc_server list \<Rightarrow> ('v, 's) rpc_server list \<Rightarrow> bool" where
  "stack_inv h en st \<longleftrightarrow>
     mset en = current_servers h + mset st \<and>
     (ht_listener h \<noteq> None \<longrightarrow> ht_server h \<noteq> None \<and> ht_endpoint h \<noteq> []) \<and>
     (ht_endpoint h \<noteq> [] \<longrightarrow> ht_endpoint h = JoinHostPort (ht_host h) (FormatInt (ht_port h))) \<and>
     (ht_httpHandler h \<noteq> None \<longrightarrow> ht_httpConfig h \<noteq> None) \<and> (ht_wsHandler h \<noteq> None \<longrightarrow> ht_wsConfig h \<noteq> None)"

lemma JoinHostPort_not_Nil [simp]: "JoinHostPort host port \<noteq> []"
  by (simp add: JoinHostPort_def)

lemma stack_inv_stop:
  assumes "stack_inv h en st" and "doStop h = (ss, h')"
  shows "stack_inv h' en (ss @ st)"
  using assms
  by (auto simp: stack_inv_def doStop_def disableRPC_def disableWS_def current_servers_def Let_def split: if_splits option.splits)

lemma stack_inv_reachable: "stack_reachable h en st \<Longrightarrow> stack_inv h en st"
proof (induction rule: stack_reachable.induct)
  case (new t)
  show ?case by (simp add: stack_inv_def newHTTPServer_def current_servers_def)
next
  case (addr h en st host port err h')
  then show ?case by (auto simp: stack_inv_def setListenAddr_def current_servers_def split: if_splits)
next
  case (rpc_on h en st svc apis c h')
  then show ?case
    by (auto simp: stack_inv_def enableRPC_def current_servers_def rpcAllowed_def Let_def split: if_splits prod.splits option.splits)
next
  case (ws_on h en st svc apis c h')
  then show ?case
    by (auto simp: stack_inv_def enableWS_def current_servers_def wsAllowed_def Let_def split: if_splits prod.splits option.splits)
next
  case (start h en st listen err ss h')
  then show ?case
    by (auto simp: stack_inv_def http_start_def disableRPC_def disableWS_def current_servers_def Let_def
        split: if_splits sum.splits option.splits)
next
  case (stop h en st ss h')
  then show ?case by (blast intro: stack_inv_stop)
next
  case (ws_off h en st ss h')
  obtain s1 had h1 where d: "disableWS h = (s1, had, h1)" by (metis prod_cases3)
  with ws_off.IH have i1: "stack_inv h1 en (s1 @ st)"
    by (auto simp: stack_inv_def disableWS_def current_servers_def split: option.splits)
  show ?case
  proof (cases "had \<and> \<not> rpcAllowed h1")
    case True
    obtain s2 h2 where "doStop h1 = (s2, h2)" by force
    with stack_inv_stop [OF i1 this] d True ws_off.hyps(2) show ?thesis
      by (auto simp: stopWS_def stack_inv_def ac_simps)
  next
    case False
    with i1 d ws_off.hyps(2) show ?thesis by (auto simp: stopWS_def)
  qed
qed

lemma doStop_stopped:
  assumes "ht_listener h \<noteq> None" and "doStop h = (ss, h')"
  shows "ht_listener h' = None \<and> \<not> rpcAllowed h' \<and> \<not> wsAllowed h' \<and> ht_endpoint h' = [] \<and> mset ss = current_servers h"
  using assms
  by (auto simp: doStop_def disableRPC_def disableWS_def rpcAllowed_def wsAllowed_def current_servers_def Let_def split: option.splits)

subsection \<open>Requests\<close>

lemma checkPath_prefix: "path \<noteq> [] \<Longrightarrow> checkPath r path \<longleftrightarrow> HasPrefix (hr_Path r) path"
proof -
  have "take (length path) (hr_Path r) = path \<Longrightarrow> length path \<le> length (hr_Path r)"
    by (metis length_take min.cobounded1)
  moreover assume "path \<noteq> []"
  ultimately show ?thesis by (auto simp: checkPath_def HasPrefix_def)
qed

lemma lower_char_idem [simp]: "lower_char (lower_char c) = lower_char c"
proof -
  have "of_char (char_of (of_char c + 32 :: nat)) = (of_char c + 32 :: nat)" if "of_char c \<le> (90 :: nat)"
    using that by (simp add: of_char_of)
  then show ?thesis by (auto simp: lower_char_def Let_def)
qed

lemma ToLower_idem [simp]: "ToLower (ToLower s) = ToLower s"
  by (simp add: ToLower_def)

lemma vhost_upper_rejected:
  assumes "hr_Host r = host" and "host \<noteq> []" and "splitHostPort host = None" and "\<not> isIP host" and "ToLower host \<noteq> host"
    and "''*'' \<notin> set (newVHostHandler vhosts)"
  shows "\<not> vhost_allows splitHostPort isIP (newVHostHandler vhosts) r"
  using assms by (auto simp: vhost_allows_def newVHostHandler_def Let_def)

lemma gzip_init_valid_length:
  assumes "ParseUint (header_get ''content-length'' hdr) = (n, None)"
  shows "\<not> gz_hasLength (gzip_init (new_gzip_writer hdr))"
  using assms by (simp add: gzip_init_def new_gzip_writer_def Let_def)

fun gzip_writes :: "string list \<Rightarrow> gzipResponseWriter \<Rightarrow> gzipResponseWriter" where
  "gzip_writes [] w = w"
| "gzip_writes (b # bs) w = gzip_writes bs (snd (gzip_Write b w))"

lemma gzip_init_inited [simp]: "gz_inited (gzip_init w)" "gzip_init (gzip_init w) = gzip_init w"
  by (auto simp: gzip_init_def Let_def split: prod.split option.split)

lemma gzip_writes_open:
  assumes "gz_inited w" and "gz_gz w = GzOpen" and "\<not> gz_hasLength w"
  shows "gz_gz (gzip_writes bs w) = GzOpen \<and> gz_packed (gzip_writes bs w) = gz_packed w @ concat bs"
  using assms
proof (induction bs arbitrary: w)
  case (Cons b bs)
  let ?w = "w\<lparr>gz_packed := gz_packed w @ b, gz_written := gz_written w + of_nat (length b)\<rparr>"
  have "snd (gzip_Write b w) = ?w" using Cons.prems by (simp add: gzip_Write_def gzip_init_def Let_def)
  with Cons.IH [of ?w] Cons.prems show ?case by simp
qed simp

lemma gzip_writes_plain:
  assumes "gz_inited w" and "gz_gz w = GzNone"
  shows "gz_plain (gzip_writes bs w) = gz_plain w @ concat bs"
  using assms
proof (induction bs arbitrary: w)
  case (Cons b bs)
  let ?w = "w\<lparr>gz_plain := gz_plain w @ b\<rparr>"
  have "snd (gzip_Write b w) = ?w" using Cons.prems by (simp add: gzip_Write_def gzip_init_def Let_def)
  with Cons.IH [of ?w] Cons.prems show ?case by simp
qed simp

lemma CheckTimeouts_bounds:
  "1000000000 \<le> to_Read (CheckTimeouts t)" "1000000000 \<le> to_ReadHeader (CheckTimeouts t)"
  "1000000000 \<le> to_Write (CheckTimeouts t)" "1000000000 \<le> to_Idle (CheckTimeouts t)"
  "CheckTimeouts (CheckTimeouts t) = CheckTimeouts t"
  by (simp_all add: CheckTimeouts_def at_least_second_def DefaultHTTPTimeouts_def)

end
