(* ===== verification/Attacker_Rpc.thy ===== *)
theory Attacker_Rpc
  imports Attacker_Server Rpc_Stack
begin

text \<open>
  The service behind its RPC endpoint: \<^verbatim>\<open>src/config/Config.go\<close>, starting and stopping in
  \<^verbatim>\<open>src/server/server.go\<close>, the methods that reflection finds on the three APIs of
  \<^verbatim>\<open>src/server/apis\<close>, and the typed client of \<^verbatim>\<open>src/attackclient\<close>.

  \<open>wire\<close> holds what depends on the syntax of JSON: the settings travel as byte slices with
  JSON text inside. \<open>api_request\<close> lists the requests the service is meant to answer, as method
  name and parameters, with the operation each of them names.

  Shown here: once the endpoint has been started, every such request posted to it runs exactly
  that operation and brings back its result under the request's id, and the typed client
  returns the response the operation gave.
\<close>

section \<open>Configuration\<close>

record Config =
  cfg_HttpPort :: int
  cfg_HttpHost :: string
  cfg_ExecuteRpc :: string
  cfg_BeaconRpc :: string
  cfg_MetricsPort :: int
  cfg_Strategy :: string
  cfg_RewardFile :: string

text \<open>\<open>readFile\<close> and \<open>toml\<close>: an error or the contents, an error or the decoded file.\<close>

definition ParseConfig ::
  "(string \<Rightarrow> string + string) \<Rightarrow> (string \<Rightarrow> string + Config) \<Rightarrow> string \<Rightarrow> Config outcome" where
  "ParseConfig readFile toml path =
     (case readFile path of
        Inl e \<Rightarrow> Panic (Explicit e)
      | Inr data \<Rightarrow> (case toml data of Inl e \<Rightarrow> Panic (Explicit e) | Inr cfg \<Rightarrow> Ret cfg))"

definition DefaultCors :: "string list" where
  "DefaultCors = [''localhost'']"

definition DefaultVhosts :: "string list" where
  "DefaultVhosts = [''localhost'']"

definition DefaultPrefix :: string where
  "DefaultPrefix = []"

definition DefaultModules :: "string list" where
  "DefaultModules = []"

definition APIBatchItemLimit :: int where
  "APIBatchItemLimit = 2000"

definition APIBatchResponseSizeLimit :: int where
  "APIBatchResponseSizeLimit = 250 * 1000 * 1000"

section \<open>Starting and stopping\<close>

definition default_httpConfig :: httpConfig where
  "default_httpConfig =
     \<lparr>hc_Modules = DefaultModules, hc_CorsAllowedOrigins = DefaultCors, hc_Vhosts = DefaultVhosts,
      hc_prefix = DefaultPrefix,
      hc_endpoint = \<lparr>ec_jwtSecret = [], ec_batchItemLimit = APIBatchItemLimit,
                     ec_batchResponseSizeLimit = APIBatchResponseSizeLimit\<rparr>\<rparr>"

text \<open>The results of starting: an error, the RPC servers stopped on the way, the HTTP server.\<close>

definition startRPC ::
  "(string \<Rightarrow> string + string) \<Rightarrow> ('v, 's) go_method list \<Rightarrow> ('v, 's) api list \<Rightarrow> Config \<Rightarrow> ('v, 's) httpServer \<Rightarrow>
     string option \<times> ('v, 's) rpc_server list \<times> ('v, 's) httpServer" where
  "startRPC listen rpcService rpcAPIs cfg http =
     (case setListenAddr (cfg_HttpHost cfg) (cfg_HttpPort cfg) http of
        (Some e, h1) \<Rightarrow> (Some e, [], h1)
      | (None, h1) \<Rightarrow>
          (case enableRPC rpcService rpcAPIs default_httpConfig h1 of
             (Some e, h2) \<Rightarrow> (Some e, [], h2)
           | (None, h2) \<Rightarrow> http_start listen h2))"

definition Server_Start ::
  "(string \<Rightarrow> string + string) \<Rightarrow> ('v, 's) go_method list \<Rightarrow> ('v, 's) api list \<Rightarrow> Config \<Rightarrow> ('v, 's) httpServer \<Rightarrow>
     ('v, 's) rpc_server list \<times> ('v, 's) httpServer" where
  "Server_Start listen rpcService rpcAPIs cfg http =
     (case startRPC listen rpcService rpcAPIs cfg http of
        (Some e, ss, h) \<Rightarrow> (let (ss', h') = doStop h in (ss @ ss', h'))
      | (None, ss, h) \<Rightarrow> (ss, h))"

section \<open>Arguments and results\<close>

record wire =
  w_parse :: "string \<Rightarrow> json option"
  w_print :: "json \<Rightarrow> string"
  w_error :: string

datatype arg = AInt int | AU64 u64 | AStr string | ABytes string

definition bad_value :: string where
  "bad_value = ''json: cannot unmarshal''"

fun int_value :: "json \<Rightarrow> string + arg" where
  "int_value j = (case dec_int j 0 of (n, bad) \<Rightarrow> if bad then Inl bad_value else Inr (AInt n))"

fun u64_value :: "json \<Rightarrow> string + arg" where
  "u64_value (JNum l) = (case ParseUint l of (n, None) \<Rightarrow> Inr (AU64 (of_nat n)) | (_, Some _) \<Rightarrow> Inl bad_value)"
| "u64_value JNull = Inr (AU64 0)"
| "u64_value _ = Inl bad_value"

fun str_value :: "json \<Rightarrow> string + arg" where
  "str_value j = (case dec_string j [] of (s, bad) \<Rightarrow> if bad then Inl bad_value else Inr (AStr s))"

text \<open>A byte of an array of numbers: out of range is an error, like any other value.\<close>

fun byte_value :: "json \<Rightarrow> char option" where
  "byte_value (JNum l) = (case ParseUint l of (n, None) \<Rightarrow> if n < 256 then Some (char_of n) else None | _ \<Rightarrow> None)"
| "byte_value JNull = Some (char_of (0 :: nat))"
| "byte_value _ = None"

fun bytes_value :: "json \<Rightarrow> string + arg" where
  "bytes_value (JStr s) = (case DecodeString s of None \<Rightarrow> Inl ''illegal base64 data'' | Some b \<Rightarrow> Inr (ABytes b))"
| "bytes_value JNull = Inr (ABytes [])"
| "bytes_value (JArr js) =
     (if list_all (\<lambda>j. byte_value j \<noteq> None) js then Inr (ABytes (map (the \<circ> byte_value) js)) else Inl bad_value)"
| "bytes_value _ = Inl bad_value"

definition value_param :: "(json \<Rightarrow> string + arg) \<Rightarrow> arg \<Rightarrow> arg param_type" where
  "value_param dec zero = \<lparr>pt_isPtr = False, pt_decode = dec, pt_zero = zero\<rparr>"

abbreviation "int_param \<equiv> value_param int_value (AInt 0)"
abbreviation "u64_param \<equiv> value_param u64_value (AU64 0)"
abbreviation "str_param \<equiv> value_param str_value (AStr [])"
abbreviation "bytes_param \<equiv> value_param bytes_value (ABytes [])"

definition AttackerResponse_json :: "AttackerResponse \<Rightarrow> json" where
  "AttackerResponse_json r =
     JObj [(''cmd'', JNum (FormatInt (cmd_number (Cmd r)))), (''result'', JStr (Result r))]"

text \<open>What reflection gets back from a method: an error result counts as such when it is not nil.\<close>

fun result_values :: "wire \<Rightarrow> call_result \<Rightarrow> fn_result" where
  "result_values W NoResult = ([], None)"
| "result_values W (Response r) = ([Inr (AttackerResponse_json r)], None)"
| "result_values W (Bytes j) = ([Inr (JStr (EncodeToString (w_print W j)))], None)"
| "result_values W (Failed b) = ([], if b then Some (PlainError (w_error W)) else None)"

section \<open>The APIs\<close>

definition api_method ::
  "string \<Rightarrow> arg param_type list \<Rightarrow> arg go_type list \<Rightarrow> (arg list \<Rightarrow> ('s, fn_result) gom) \<Rightarrow> (arg, 's) go_method" where
  "api_method name ps outs f =
     \<lparr>gm_Name = name, gm_exported = True,
      gm_In = TPtr False (TOther False str_param) str_param # map (TOther False) ps,
      gm_Out = outs, gm_Func = f\<rparr>"

abbreviation "plain_out \<equiv> [TOther False str_param]"

definition wrong_args :: "('s, fn_result) gom" where
  "wrong_args = glift (Panic (Explicit ''reflect: Call with wrong argument types''))"

definition slot_method :: "string \<Rightarrow> (u64 \<Rightarrow> ('s, fn_result) gom) \<Rightarrow> (arg, 's) go_method" where
  "slot_method name f = api_method name [u64_param] plain_out (\<lambda>as. case as of [AU64 n] \<Rightarrow> f n | _ \<Rightarrow> wrong_args)"

definition data_method :: "string \<Rightarrow> (u64 \<Rightarrow> string \<Rightarrow> string \<Rightarrow> ('s, fn_result) gom) \<Rightarrow> (arg, 's) go_method" where
  "data_method name f =
     api_method name [u64_param, str_param, str_param] plain_out
       (\<lambda>as. case as of [AU64 n, AStr p, AStr d] \<Rightarrow> f n p d | _ \<Rightarrow> wrong_args)"

definition update_method :: "(string \<Rightarrow> ('s, fn_result) gom) \<Rightarrow> (arg, 's) go_method" where
  "update_method f =
     api_method ''UpdateStrategy'' [bytes_param] [TError] (\<lambda>as. case as of [ABytes b] \<Rightarrow> f b | _ \<Rightarrow> wrong_args)"

text \<open>\<open>S\<close> runs an operation of the service. Methods come in alphabetical order, as reflection lists them.\<close>

definition admin_methods :: "(attacker_call \<Rightarrow> ('s, fn_result) gom) \<Rightarrow> (arg, 's) go_method list" where
  "admin_methods S =
     [api_method ''SetRoleAttacker'' [int_param] [] (\<lambda>as. case as of [AInt i] \<Rightarrow> S (CallSetRoleAttacker i) | _ \<Rightarrow> wrong_args),
      api_method ''SetRoleNormal'' [int_param] [] (\<lambda>as. case as of [AInt i] \<Rightarrow> S (CallSetRoleNormal i) | _ \<Rightarrow> wrong_args)]"

definition block_methods :: "wire \<Rightarrow> (attacker_call \<Rightarrow> ('s, fn_result) gom) \<Rightarrow> (arg, 's) go_method list" where
  "block_methods W S =
     [slot_method ''AfterBroadCast'' (\<lambda>n. S (CallBlockAfterBroadCast n)),
      data_method ''AfterPropose'' (\<lambda>n p d. S (CallBlockAfterPropose n p d)),
      data_method ''AfterSign'' (\<lambda>n p d. S (CallBlockAfterSign n p d)),
      slot_method ''BeforeBroadCast'' (\<lambda>n. S (CallBlockBeforeBroadCast n)),
      api_method ''BeforeMakeBlock'' [u64_param, str_param] plain_out
        (\<lambda>as. case as of [AU64 n, AStr p] \<Rightarrow> S (CallBeforeMakeBlock n p) | _ \<Rightarrow> wrong_args),
      data_method ''BeforePropose'' (\<lambda>n p d. S (CallBlockBeforePropose n p d)),
      data_method ''BeforeSign'' (\<lambda>n p d. S (CallBlockBeforeSign n p d)),
      api_method ''BroadCastDelay'' [] plain_out (\<lambda>as. if as = [] then S CallBroadCastDelay else wrong_args),
      slot_method ''DelayForReceiveBlock'' (\<lambda>n. S (CallDelayForReceiveBlock n)),
      api_method ''GetStrategy'' [str_param] plain_out
        (\<lambda>as. case as of [AStr c] \<Rightarrow> S (CallBlockGetStrategy c) | _ \<Rightarrow> wrong_args),
      update_method (\<lambda>b. S (CallBlockUpdateStrategy (w_parse W b)))]"

definition attest_methods :: "wire \<Rightarrow> (attacker_call \<Rightarrow> ('s, fn_result) gom) \<Rightarrow> (arg, 's) go_method list" where
  "attest_methods W S =
     [slot_method ''AfterBroadCast'' (\<lambda>n. S (CallAttestAfterBroadCast n)),
      data_method ''AfterPropose'' (\<lambda>n p d. S (CallAttestAfterPropose n p d)),
      data_method ''AfterSign'' (\<lambda>n p d. S (CallAttestAfterSign n p d)),
      slot_method ''BeforeBroadCast'' (\<lambda>n. S (CallAttestBeforeBroadCast n)),
      data_method ''BeforePropose'' (\<lambda>n p d. S (CallAttestBeforePropose n p d)),
      data_method ''BeforeSign'' (\<lambda>n p d. S (CallAttestBeforeSign n p d)),
      api_method ''GetStrategy'' [] plain_out (\<lambda>as. if as = [] then S CallAttestGetStrategy else wrong_args),
      update_method (\<lambda>b. S (CallAttestUpdateStrategy (w_parse W b)))]"

definition GetAPIs :: "wire \<Rightarrow> (attacker_call \<Rightarrow> ('s, fn_result) gom) \<Rightarrow> (arg, 's) api list" where
  "GetAPIs W S = [(''admin'', admin_methods S), (''block'', block_methods W S), (''attest'', attest_methods W S)]"

section \<open>Requests and their meaning\<close>

definition u64_json :: "u64 \<Rightarrow> json" where
  "u64_json n = JNum (format_nat (unat n))"

definition bytes_json :: "string \<Rightarrow> json" where
  "bytes_json b = JStr (EncodeToString b)"

inductive api_request :: "wire \<Rightarrow> string \<Rightarrow> string \<Rightarrow> json list \<Rightarrow> attacker_call \<Rightarrow> bool" for W where
  "is_i64 i \<Longrightarrow> api_request W ''admin'' ''setRoleAttacker'' [JNum (FormatInt i)] (CallSetRoleAttacker i)"
| "is_i64 i \<Longrightarrow> api_request W ''admin'' ''setRoleNormal'' [JNum (FormatInt i)] (CallSetRoleNormal i)"
| "api_request W ''block'' ''getStrategy'' [JStr c] (CallBlockGetStrategy c)"
| "api_request W ''block'' ''updateStrategy'' [bytes_json b] (CallBlockUpdateStrategy (w_parse W b))"
| "api_request W ''block'' ''broadCastDelay'' [] CallBroadCastDelay"
| "api_request W ''block'' ''delayForReceiveBlock'' [u64_json n] (CallDelayForReceiveBlock n)"
| "api_request W ''block'' ''beforeBroadCast'' [u64_json n] (CallBlockBeforeBroadCast n)"
| "api_request W ''block'' ''afterBroadCast'' [u64_json n] (CallBlockAfterBroadCast n)"
| "api_request W ''block'' ''beforeMakeBlock'' [u64_json n, JStr p] (CallBeforeMakeBlock n p)"
| "api_request W ''block'' ''beforeSign'' [u64_json n, JStr p, JStr d] (CallBlockBeforeSign n p d)"
| "api_request W ''block'' ''afterSign'' [u64_json n, JStr p, JStr d] (CallBlockAfterSign n p d)"
| "api_request W ''block'' ''beforePropose'' [u64_json n, JStr p, JStr d] (CallBlockBeforePropose n p d)"
| "api_request W ''block'' ''afterPropose'' [u64_json n, JStr p, JStr d] (CallBlockAfterPropose n p d)"
| "api_request W ''attest'' ''getStrategy'' [] CallAttestGetStrategy"
| "api_request W ''attest'' ''updateStrategy'' [bytes_json b] (CallAttestUpdateStrategy (w_parse W b))"
| "api_request W ''attest'' ''beforeBroadCast'' [u64_json n] (CallAttestBeforeBroadCast n)"
| "api_request W ''attest'' ''afterBroadCast'' [u64_json n] (CallAttestAfterBroadCast n)"
| "api_request W ''attest'' ''beforeSign'' [u64_json n, JStr p, JStr d] (CallAttestBeforeSign n p d)"
| "api_request W ''attest'' ''afterSign'' [u64_json n, JStr p, JStr d] (CallAttestAfterSign n p d)"
| "api_request W ''attest'' ''beforePropose'' [u64_json n, JStr p, JStr d] (CallAttestBeforePropose n p d)"
| "api_request W ''attest'' ''afterPropose'' [u64_json n, JStr p, JStr d] (CallAttestAfterPropose n p d)"

text \<open>Go encodes an empty argument list as no parameters at all.\<close>

definition call_message :: "json \<Rightarrow> string \<Rightarrow> json list \<Rightarrow> jsonrpcMessage" where
  "call_message i method args =
     zeroMessage\<lparr>jm_Version := vsn, jm_ID := Some i, jm_Method := method,
       jm_Params := (if args = [] then None else Some (JArr args))\<rparr>"

section \<open>Lookup and arguments\<close>

lemma method_callback_api [simp]:
  assumes "length outs \<le> 1"
  shows "method_callback (api_method name ps outs f) =
    Some \<lparr>cb_fn = f, cb_argTypes = map (TOther False) ps, cb_hasCtx = False,
          cb_errPos = (if outs \<noteq> [] \<and> isErrorType (hd outs) then 0 else -1), cb_isSubscribe = False\<rparr>"
  using assms
  by (cases ps; cases outs)
    (auto simp: method_callback_def api_method_def newCallback_def makeArgTypes_def isPubSub_def)

lemma gm_Name_api [simp]: "gm_Name (api_method name ps outs f) = name"
  by (simp add: api_method_def)

lemma find_append_None: "find P xs = None \<Longrightarrow> find P (xs @ ys) = find P ys"
  by (induction xs) (auto split: if_splits)

lemma last_callback_in:
  assumes "distinct (map (formatName \<circ> gm_Name) ms)" and "m \<in> set ms" and "method_callback m = Some cb"
  shows "last_callback ms (formatName (gm_Name m)) = Some cb"
proof -
  from assms(2) obtain xs ys where ms: "ms = xs @ m # ys" by (meson split_list)
  with assms(1) have "formatName (gm_Name m) \<notin> (formatName \<circ> gm_Name) ` set ys" by simp
  then have "formatName (gm_Name y) \<noteq> formatName (gm_Name m)" if "y \<in> set ys" for y
    using that by (metis comp_apply image_eqI)
  then have "find (\<lambda>m'. formatName (gm_Name m') = formatName (gm_Name m) \<and> method_callback m' \<noteq> None) (rev ys) = None"
    by (auto simp: find_None_iff)
  then have "find (\<lambda>m'. formatName (gm_Name m') = formatName (gm_Name m) \<and> method_callback m' \<noteq> None) (rev ms) = Some m"
    using assms(3) by (simp add: ms find_append_None)
  with assms(3) show ?thesis by (simp add: last_callback_def)
qed

definition is_update :: "attacker_call \<Rightarrow> bool" where
  "is_update c \<longleftrightarrow> (\<exists>d. c = CallBlockUpdateStrategy d \<or> c = CallAttestUpdateStrategy d)"

text \<open>A method of an API answers a request: it is found, its arguments decode, and it runs \<open>c\<close>.\<close>

definition method_serves ::
  "(attacker_call \<Rightarrow> ('s, fn_result) gom) \<Rightarrow> (arg, 's) go_method \<Rightarrow> string \<Rightarrow> json list \<Rightarrow> attacker_call \<Rightarrow> bool" where
  "method_serves S m name args c \<longleftrightarrow>
     formatName (gm_Name m) = name \<and>
     (\<exists>cb vs. method_callback m = Some cb \<and> \<not> cb_isSubscribe cb \<and> cb_errPos cb = (if is_update c then 0 else -1) \<and>
        parsePositionalArguments (if args = [] then None else Some (JArr args)) (map (param_of (AInt 0)) (cb_argTypes cb)) = Inr vs \<and>
        cb_fn cb vs = S c)"

lemma param_of_map [simp]: "param_of z \<circ> TOther b = (\<lambda>p. p)"
  by (simp add: fun_eq_iff)

lemma u64_value_json [simp]: "u64_value (u64_json n) = Inr (AU64 n)"
proof -
  have "unat n < 2 ^ 64" using unsigned_less [of n] by simp
  then show ?thesis by (simp add: u64_json_def ParseUint_format_nat)
qed

lemma bytes_value_json [simp]: "bytes_value (bytes_json b) = Inr (ABytes b)"
  by (simp add: bytes_json_def)

lemmas api_method_defs = slot_method_def data_method_def update_method_def

lemma lower_initials [simp]:
  "lower_char CHR ''A'' = CHR ''a''" "lower_char CHR ''B'' = CHR ''b''" "lower_char CHR ''D'' = CHR ''d''"
  "lower_char CHR ''G'' = CHR ''g''" "lower_char CHR ''S'' = CHR ''s''" "lower_char CHR ''U'' = CHR ''u''"
  by code_simp+

lemma api_request_served:
  "api_request W ns name args c \<Longrightarrow>
   \<exists>ms. (ns, ms) \<in> set (GetAPIs W S) \<and> (\<exists>m \<in> set ms. method_serves S m name args c)"
  by (induction rule: api_request.induct)
    (simp_all add: GetAPIs_def admin_methods_def block_methods_def attest_methods_def api_method_defs
      method_serves_def formatName_def ParseInt_FormatInt is_update_def parsePositionalArguments_def value_param_def comp_def)

lemma GetAPIs_names:
  assumes "(ns, ms) \<in> set (GetAPIs W S)"
  shows "distinct (map (formatName \<circ> gm_Name) ms) \<and> CHR ''_'' \<notin> set ns"
  using assms
  by (auto simp: GetAPIs_def admin_methods_def block_methods_def attest_methods_def api_method_defs formatName_def)

lemma api_callback:
  assumes "RegisterApis (GetAPIs W S) [] srv = (None, srv')" and "api_request W ns name args c"
  shows "\<exists>cb vs. registry_callback (rs_services srv') (ns @ CHR ''_'' # name) = Some cb \<and>
    cb_errPos cb = (if is_update c then 0 else -1) \<and>
    parsePositionalArguments (if args = [] then None else Some (JArr args)) (map (param_of (AInt 0)) (cb_argTypes cb)) = Inr vs \<and>
    cb_fn cb vs = S c"
proof -
  from api_request_served [OF assms(2)] obtain ms m
    where ms: "(ns, ms) \<in> set (GetAPIs W S)" and m: "m \<in> set ms" "method_serves S m name args c" by blast
  then obtain cb vs where cb: "method_callback m = Some cb" "\<not> cb_isSubscribe cb"
    and r: "cb_errPos cb = (if is_update c then 0 else -1)" "cb_fn cb vs = S c"
      "parsePositionalArguments (if args = [] then None else Some (JArr args)) (map (param_of (AInt 0)) (cb_argTypes cb)) = Inr vs"
      "formatName (gm_Name m) = name"
    unfolding method_serves_def by blast
  have "last_callback ms name = Some cb"
    using last_callback_in [OF _ m(1) cb(1)] GetAPIs_names [OF ms] r(4) by simp
  moreover have "distinct (map fst (GetAPIs W S))" by (simp add: GetAPIs_def)
  ultimately have "registry_callback (rs_services srv') (ns @ CHR ''_'' # name) = Some cb"
    using RegisterApis_found [OF assms(1) _ ms] cb(2) GetAPIs_names [OF ms] by simp
  with r show ?thesis by blast
qed

lemma RegisterApis_GetAPIs: "\<exists>srv'. RegisterApis (GetAPIs W S) [] srv = (None, srv')"
proof -
  have ne: "suitableCallbacks ms \<noteq> []" if "m \<in> set ms" "method_callback m \<noteq> None" for m and ms :: "(arg, 's) go_method list"
    using that
  proof (induction ms rule: rev_induct)
    case (snoc m' ms)
    then show ?case by (auto simp: suitableCallbacks_snoc split: option.split)
  qed simp
  have "suitableCallbacks (admin_methods S) \<noteq> []"
    by (rule ne [of "hd (admin_methods S)"]) (simp_all add: admin_methods_def)
  moreover have "suitableCallbacks (block_methods W S) \<noteq> []"
    by (rule ne [of "hd (block_methods W S)"]) (simp_all add: block_methods_def slot_method_def)
  moreover have "suitableCallbacks (attest_methods W S) \<noteq> []"
    by (rule ne [of "hd (attest_methods W S)"]) (simp_all add: attest_methods_def slot_method_def)
  ultimately show ?thesis
    by (simp add: RegisterApis_def GetAPIs_def RegisterName_def registerName_def Let_def)
qed

section \<open>One request\<close>

definition run_call ::
  "wire \<Rightarrow> env \<Rightarrow> ('att, 'data, 'root, 'bits, 'b64, 'keys, 'gsb, 'cap, 'gb, 'ucap, 'c) api_lib \<Rightarrow> (string \<Rightarrow> 'att option) \<Rightarrow>
     attacker_call \<Rightarrow> (('att, 'gsb, 'c) world, fn_result) gom" where
  "run_call W E L U c = giving (result_values W) (serve E L U c)"

text \<open>The message that a result of an operation becomes.\<close>

fun reply_message :: "wire \<Rightarrow> jsonrpcMessage \<Rightarrow> call_result outcome \<Rightarrow> jsonrpcMessage outcome" where
  "reply_message W msg (Ret x) =
     Ret (case result_values W x of
            (vals, Some e) \<Rightarrow> errorResponse msg e
          | (vals, None) \<Rightarrow> msg_response msg (case vals of [] \<Rightarrow> Inr JNull | v # _ \<Rightarrow> v))"
| "reply_message W msg (Panic p) =
     Ret (errorResponse msg (internalServerError errcodePanic ''method handler crashed''))"
| "reply_message W msg Hang = Hang"

lemma giving_run:
  "giving f m s = (case m s of (Ret x, t) \<Rightarrow> (Ret (f x), t) | (Panic p, t) \<Rightarrow> (Panic p, t) | (Hang, t) \<Rightarrow> (Hang, t))"
  by (simp add: giving_def gbind_def gret_run split: prod.split outcome.split)

lemma serve_error:
  assumes "serve E L U c w = (Ret x, w')" and "\<not> is_update c"
  shows "snd (result_values W x) = None"
  using assms by (cases c) (auto simp: giving_run is_update_def split: prod.splits outcome.splits)

lemma api_request_plain:
  assumes "api_request W ns name args c"
  shows "\<not> isSubscribe (call_message i (ns @ CHR ''_'' # name) args)"
    and "\<not> isUnsubscribe (call_message i (ns @ CHR ''_'' # name) args)"
  using assms
  by (induction rule: api_request.induct)
    (simp_all add: isSubscribe_def isUnsubscribe_def call_message_def HasSuffix_def
      subscribeMethodSuffix_def unsubscribeMethodSuffix_def)

lemma call_message_simps [simp]:
  "jm_Version (call_message i m args) = vsn" "jm_ID (call_message i m args) = Some i" "jm_Method (call_message i m args) = m"
  "jm_Params (call_message i m args) = (if args = [] then None else Some (JArr args))"
  "jm_Error (call_message i m args) = None"
  by (simp_all add: call_message_def zeroMessage_def)

lemma handleMsg_api:
  assumes "RegisterApis (GetAPIs W (run_call W E L U)) [] srv = (None, srv')" and "api_request W ns name args c"
    and "valid_id (Some i)" and "hc_reg H = rs_services srv'" and "hc_zero H = AInt 0"
    and msg: "msg = call_message i (ns @ CHR ''_'' # name) args"
  shows "handleMsg H msg h =
    (let (r, w') = serve E L U c (hs_app h)
     in (obind (reply_message W msg r) (\<lambda>m. Ret (WriteOne m False)), h\<lparr>hs_notifiers := 0, hs_app := w'\<rparr>))"
proof -
  from api_callback [OF assms(1,2)] obtain cb vs
    where cb: "registry_callback (hc_reg H) (jm_Method msg) = Some cb" "cb_errPos cb = (if is_update c then 0 else -1)"
      "parsePositionalArguments (jm_Params msg) (map (param_of (hc_zero H)) (cb_argTypes cb)) = Inr vs"
      "cb_fn cb vs = run_call W E L U c"
    using assms(4,5) msg by auto
  have k: "isCall msg" "\<not> isNotification msg" "\<not> isResult msg"
    using assms(3) msg by (auto simp: isCall_def hasValidVersion_def hasValidID_def isNotification_def isResult_def isResponse_def)
  have "handleCallMsg H msg = gbind (runMethod msg cb vs) (\<lambda>resp. gret (Some resp))"
    using k cb(1,3) api_request_plain [OF assms(2), of i] msg by (simp add: handleCallMsg_def handleCall_def)
  then show ?thesis
    using k cb(2,4) serve_error [of E L U c]
    by (auto simp: handleMsg_def runMethod_def gbind_def on_app_def callback_call_def run_call_def giving_run
        call_results_def gret_run addSubscriptions_def Let_def split: prod.split outcome.split option.split)
      (metis option.distinct(1) snd_conv)
qed

lemma readBatch_message:
  assumes "jm_Error m = None"
  shows "readBatch (message_json m) = ([m], False)"
proof -
  have "parse_one (message_json m) = Some m" using assms by (intro message_decode) simp
  moreover have "parseMessage (message_json m) = ([parse_one (message_json m)], False)"
    by (simp add: message_json_def parseMessage_def)
  ultimately show ?thesis by (simp add: readBatch_def)
qed

text \<open>A request that carries a message to the root path, as the RPC client posts it.\<close>

definition posts :: "http_req \<Rightarrow> jsonrpcMessage \<Rightarrow> bool" where
  "posts r msg \<longleftrightarrow>
     hr_Method r = ''POST'' \<and> hr_Path r = ''/'' \<and> hr_mediaType r = Some contentType \<and>
     hr_ContentLength r \<le> maxRequestContentLength \<and> hr_body r = BodyJson (message_json msg)"

lemma rpc_ServeHTTP_posts:
  assumes "posts r msg" and "jm_Error msg = None" and "rs_run s"
  shows "rpc_ServeHTTP s H r = gbind (handleMsg (request_conf s H) msg) (\<lambda>w. gret (Answer w))"
  using assms
  by (simp add: posts_def rpc_ServeHTTP_def validateRequest_def serveSingleRequest_def readBatch_message
      acceptedContentTypes_def contentType_def)

lemma RegisterName_run: "RegisterName name ms s = (e, s') \<Longrightarrow> rs_run s' = rs_run s"
  by (auto simp: RegisterName_def split: sum.splits)

lemma register_allowed_run: "register_allowed al apis s = (e, s') \<Longrightarrow> rs_run s' = rs_run s"
proof (induction al apis s rule: register_allowed.induct)
  case (2 al api apis srv)
  then show ?case by (auto dest: RegisterName_run split: if_splits prod.splits option.splits)
qed simp

lemma startRPC_started:
  assumes "startRPC listen svc (GetAPIs W S) cfg (newHTTPServer t) = (err, ss, h)" and "err = None"
  shows "\<exists>srv srv'. RegisterApis (GetAPIs W S) [] srv = (None, srv') \<and> rs_run srv' \<and>
    ht_httpHandler h = Some srv' \<and> ht_httpConfig h = Some default_httpConfig \<and> ht_wsHandler h = None \<and> ht_listener h \<noteq> None"
proof -
  let ?srv = "SetBatchLimits APIBatchItemLimit APIBatchResponseSizeLimit (rpc_NewServer svc)"
  obtain srv' where r: "RegisterApis (GetAPIs W S) [] ?srv = (None, srv')"
    using RegisterApis_GetAPIs by blast
  moreover have "rs_run ?srv" by (simp add: SetBatchLimits_def)
  ultimately have "rs_run srv'" using register_allowed_run by (fastforce simp: RegisterApis_def)
  with assms r show ?thesis
    by (intro exI [of _ ?srv] exI [of _ srv'])
      (auto simp: startRPC_def setListenAddr_def newHTTPServer_def enableRPC_def rpcAllowed_def default_httpConfig_def
        DefaultModules_def http_start_def disableRPC_def disableWS_def Let_def split: if_splits sum.splits)
qed

lemma endpoint_run:
  assumes "startRPC listen svc (GetAPIs W (run_call W E L U)) cfg (newHTTPServer t) = (None, ss, h)"
    and "api_request W ns name args c" and "valid_id (Some i)" and "hc_zero H = AInt 0"
    and msg: "msg = call_message i (ns @ CHR ''_'' # name) args"
    and "posts r msg" and "mux r = None" and "nl_cors N DefaultCors r = None"
    and "vhost_allows (nl_splitHostPort N) (nl_isIP N) (newVHostHandler DefaultVhosts) r"
  shows "httpServer_ServeHTTP N mux ws H h r st =
    (let (x, w') = serve E L U c (hs_app st)
     in (obind (reply_message W msg x) (\<lambda>m. Ret (Answer (WriteOne m False))), st\<lparr>hs_notifiers := 0, hs_app := w'\<rparr>))"
proof -
  from startRPC_started [OF assms(1)] obtain srv srv'
    where srv: "RegisterApis (GetAPIs W (run_call W E L U)) [] srv = (None, srv')" "rs_run srv'"
      and h: "ht_httpHandler h = Some srv'" "ht_httpConfig h = Some default_httpConfig" "ht_wsHandler h = None" by auto
  have "http_route (\<lambda>r. mux r \<noteq> None) h r = ToRpc"
    using h assms(6,7) by (simp add: http_route_def checkPath_def posts_def default_httpConfig_def DefaultPrefix_def)
  then have "httpServer_ServeHTTP N mux ws H h r = rpc_ServeHTTP srv' H r"
    using h assms(8,9) by (simp add: httpServer_ServeHTTP_def NewHTTPHandlerStack_def newCorsHandler_def default_httpConfig_def)
  also have "\<dots> = gbind (handleMsg (request_conf srv' H) msg) (\<lambda>w. gret (Answer w))"
    using rpc_ServeHTTP_posts [OF assms(6) _ srv(2)] msg by simp
  finally have e: "httpServer_ServeHTTP N mux ws H h r = \<dots>" .
  obtain x w' where x: "serve E L U c (hs_app st) = (x, w')" by force
  have "handleMsg (request_conf srv' H) msg st =
      (obind (reply_message W msg x) (\<lambda>m. Ret (WriteOne m False)), st\<lparr>hs_notifiers := 0, hs_app := w'\<rparr>)"
    using handleMsg_api [OF srv(1) assms(2,3) _ _ msg, of "request_conf srv' H" st] assms(4) x
    by (simp add: request_conf_def)
  with e x show ?thesis by (cases "reply_message W msg x") (simp_all add: gbind_def gret_run)
qed

section \<open>The typed client\<close>

definition attestModule :: string where
  "attestModule = ''attest''"

definition blockModule :: string where
  "blockModule = ''block''"

definition AttestBeforeBroadCast :: "u64 \<Rightarrow> string \<times> json list" where
  "AttestBeforeBroadCast slot = (attestModule @ ''_beforeBroadCast'', [u64_json slot])"

definition AttestAfterBroadCast :: "u64 \<Rightarrow> string \<times> json list" where
  "AttestAfterBroadCast slot = (attestModule @ ''_afterBroadCast'', [u64_json slot])"

definition AttestBeforeSign :: "u64 \<Rightarrow> string \<Rightarrow> string \<Rightarrow> string \<times> json list" where
  "AttestBeforeSign slot pubkey d = (attestModule @ ''_beforeSign'', [u64_json slot, JStr pubkey, JStr d])"

definition AttestAfterSign :: "u64 \<Rightarrow> string \<Rightarrow> string \<Rightarrow> string \<times> json list" where
  "AttestAfterSign slot pubkey d = (attestModule @ ''_afterSign'', [u64_json slot, JStr pubkey, JStr d])"

definition AttestBeforePropose :: "u64 \<Rightarrow> string \<Rightarrow> string \<Rightarrow> string \<times> json list" where
  "AttestBeforePropose slot pubkey d = (attestModule @ ''_beforePropose'', [u64_json slot, JStr pubkey, JStr d])"

definition AttestAfterPropose :: "u64 \<Rightarrow> string \<Rightarrow> string \<Rightarrow> string \<times> json list" where
  "AttestAfterPropose slot pubkey d = (attestModule @ ''_afterPropose'', [u64_json slot, JStr pubkey, JStr d])"

definition Client_DelayForReceiveBlock :: "u64 \<Rightarrow> string \<times> json list" where
  "Client_DelayForReceiveBlock slot = (blockModule @ ''_delayForReceiveBlock'', [u64_json slot])"

definition BlockBeforeBroadCast :: "u64 \<Rightarrow> string \<times> json list" where
  "BlockBeforeBroadCast slot = (blockModule @ ''_beforeBroadCast'', [u64_json slot])"

definition BlockAfterBroadCast :: "u64 \<Rightarrow> string \<times> json list" where
  "BlockAfterBroadCast slot = (blockModule @ ''_afterBroadCast'', [u64_json slot])"

definition BlockBeforeSign :: "u64 \<Rightarrow> string \<Rightarrow> string \<Rightarrow> string \<times> json list" where
  "BlockBeforeSign slot pubkey d = (blockModule @ ''_beforeSign'', [u64_json slot, JStr pubkey, JStr d])"

definition BlockAfterSign :: "u64 \<Rightarrow> string \<Rightarrow> string \<Rightarrow> string \<times> json list" where
  "BlockAfterSign slot pubkey d = (blockModule @ ''_afterSign'', [u64_json slot, JStr pubkey, JStr d])"

definition BlockBeforePropose :: "u64 \<Rightarrow> string \<Rightarrow> string \<Rightarrow> string \<times> json list" where
  "BlockBeforePropose slot pubkey d = (blockModule @ ''_beforePropose'', [u64_json slot, JStr pubkey, JStr d])"

definition BlockAfterPropose :: "u64 \<Rightarrow> string \<Rightarrow> string \<Rightarrow> string \<times> json list" where
  "BlockAfterPropose slot pubkey d = (blockModule @ ''_afterPropose'', [u64_json slot, JStr pubkey, JStr d])"

text \<open>The client's methods with the operation each is meant to run.\<close>

definition client_methods :: "u64 \<Rightarrow> string \<Rightarrow> string \<Rightarrow> ((string \<times> json list) \<times> attacker_call) list" where
  "client_methods n p d =
     [(AttestBeforeBroadCast n, CallAttestBeforeBroadCast n), (AttestAfterBroadCast n, CallAttestAfterBroadCast n),
      (AttestBeforeSign n p d, CallAttestBeforeSign n p d), (AttestAfterSign n p d, CallAttestAfterSign n p d),
      (AttestBeforePropose n p d, CallAttestBeforePropose n p d), (AttestAfterPropose n p d, CallAttestAfterPropose n p d),
      (Client_DelayForReceiveBlock n, CallDelayForReceiveBlock n),
      (BlockBeforeBroadCast n, CallBlockBeforeBroadCast n), (BlockAfterBroadCast n, CallBlockAfterBroadCast n),
      (BlockBeforeSign n p d, CallBlockBeforeSign n p d), (BlockAfterSign n p d, CallBlockAfterSign n p d),
      (BlockBeforePropose n p d, CallBlockBeforePropose n p d), (BlockAfterPropose n p d, CallBlockAfterPropose n p d)]"

text \<open>The response is decoded into the number of the command and the text.\<close>

definition AttackerResponse_fields :: "(string \<times> (int \<times> string) dec) list" where
  "AttackerResponse_fields = [(''cmd'', dec_on fst apfst dec_int), (''result'', dec_on snd apsnd dec_string)]"

definition response_value :: "json \<Rightarrow> string + int \<times> string" where
  "response_value j =
     (case dec_struct AttackerResponse_fields j (0, []) of (r, bad) \<Rightarrow> if bad then Inl bad_value else Inr r)"

definition typed_call ::
  "(jsonrpcMessage \<Rightarrow> ('s, client_error + http_resp) gom) \<Rightarrow> 'v client \<Rightarrow> string \<times> json list \<Rightarrow>
     ('s, client_error + (int \<times> string) option) gom" where
  "typed_call post cl req =
     (case newMessage (fst req) (if snd req = [] then None else Some (Inr (JArr (snd req)))) cl of
        (Inl e, _) \<Rightarrow> gret (Inl (OtherError e))
      | (Inr msg, _) \<Rightarrow> gbind (post msg) (\<lambda>answer. glift (CallContext_http (Some response_value) answer)))"

text \<open>A network that loses nothing: the response as the client's HTTP library hands it over.\<close>

fun delivered :: "http_response \<Rightarrow> http_resp" where
  "delivered (Answer (WriteOne m e)) = \<lparr>ha_StatusCode = 200, ha_Status = ''200 OK'', ha_Body = [], ha_json = Inr (message_json m)\<rparr>"
| "delivered (Answer (WriteBatch ms e)) =
     \<lparr>ha_StatusCode = 200, ha_Status = ''200 OK'', ha_Body = [], ha_json = Inr (JArr (map message_json ms))\<rparr>"
| "delivered (Answer WriteNothing) = \<lparr>ha_StatusCode = 200, ha_Status = ''200 OK'', ha_Body = [], ha_json = Inl ''EOF''\<rparr>"
| "delivered (Status n) = \<lparr>ha_StatusCode = int n, ha_Status = format_nat n, ha_Body = [], ha_json = Inl ''EOF''\<rparr>"
| "delivered (HttpError n e) = \<lparr>ha_StatusCode = int n, ha_Status = format_nat n, ha_Body = e, ha_json = Inl ''invalid character''\<rparr>"

definition direct_post ::
  "(http_req \<Rightarrow> ('s, http_response) gom) \<Rightarrow> (jsonrpcMessage \<Rightarrow> http_req) \<Rightarrow> jsonrpcMessage \<Rightarrow> ('s, client_error + http_resp) gom" where
  "direct_post server mk msg =
     gbind (server (mk msg)) (\<lambda>resp. gret (doRequest None (\<lambda>body. Inr (delivered resp)) (Inr (message_json msg))))"

text \<open>What the client makes of the endpoint's answers.\<close>

lemma response_value_json [simp]: "response_value (AttackerResponse_json r) = Inr (cmd_number (Cmd r), Result r)"
proof -
  have "is_i64 (cmd_number (Cmd r))" by (cases "Cmd r") (simp_all add: is_i64_def)
  then show ?thesis
    by (simp add: response_value_def AttackerResponse_json_def AttackerResponse_fields_def find_field_def dec_on_def ParseInt_FormatInt)
qed

lemma CallContext_http_answer:
  assumes "case jm_Error m of None \<Rightarrow> True | Some e \<Rightarrow> is_i64 (je_Code e) \<and> je_Data e \<noteq> Some JNull"
  shows "CallContext_http f (doRequest None (\<lambda>body. Inr (delivered (Answer (WriteOne m b)))) (Inr j)) = CallContext_end f [m] None"
proof -
  have "dec_struct jsonrpcMessage_fields (message_json m) zeroMessage = (m, False)"
    using assms by (intro message_struct) (simp split: option.splits)
  then show ?thesis by (simp add: CallContext_http_def sendHTTP_def doRequest_def make_chan_def)
qed

lemma client_methods_requests:
  assumes "(req, c) \<in> set (client_methods n p d)"
  shows "\<exists>ns name. fst req = ns @ CHR ''_'' # name \<and> api_request W ns name (snd req) c"
  using assms
  by (intro exI [of _ "SplitN2 CHR ''_'' (fst req) ! 0"] exI [of _ "SplitN2 CHR ''_'' (fst req) ! 1"])
    (auto simp: client_methods_def SplitN2_def attestModule_def blockModule_def AttestBeforeBroadCast_def AttestAfterBroadCast_def
      AttestBeforeSign_def AttestAfterSign_def AttestBeforePropose_def AttestAfterPropose_def
      Client_DelayForReceiveBlock_def BlockBeforeBroadCast_def BlockAfterBroadCast_def BlockBeforeSign_def
      BlockAfterSign_def BlockBeforePropose_def BlockAfterPropose_def intro: api_request.intros)

lemma client_methods_respond:
  assumes "(req, c) \<in> set (client_methods n p d)" and "serve E L U c w = (Ret x, w')"
  shows "\<exists>r. x = Response r"
  using assms by (auto simp: client_methods_def giving_run split: prod.splits outcome.splits)

lemma newMessage_call:
  "newMessage m (if args = [] then None else Some (Inr (JArr args))) cl =
     (Inr (call_message (id_json (cl_idCounter cl + 1)) m args), snd (nextID cl))"
  by (simp add: newMessage_def nextID_def call_message_def zeroMessage_def Let_def)

text \<open>An endpoint that can be reached: requests get past the mux, the host check and the CORS library.\<close>

definition reachable_by ::
  "net_lib \<Rightarrow> (http_req \<Rightarrow> ('s hstate, http_response) gom option) \<Rightarrow> (jsonrpcMessage \<Rightarrow> http_req) \<Rightarrow> bool" where
  "reachable_by N mux mk \<longleftrightarrow>
     (\<forall>msg. posts (mk msg) msg \<and> mux (mk msg) = None \<and> nl_cors N DefaultCors (mk msg) = None \<and>
        vhost_allows (nl_splitHostPort N) (nl_isIP N) (newVHostHandler DefaultVhosts) (mk msg))"

lemma typed_call_run:
  assumes "startRPC listen svc (GetAPIs W (run_call W E L U)) cfg (newHTTPServer t) = (None, ss, h)"
    and "(req, c) \<in> set (client_methods n p d)" and "hc_zero H = AInt 0" and "reachable_by N mux mk"
  shows "typed_call (direct_post (httpServer_ServeHTTP N mux ws H h) mk) cl req st =
    (let (x, w') = serve E L U c (hs_app st)
     in (case x of
           Ret y \<Rightarrow> Ret (case y of Response r \<Rightarrow> Inr (Some (cmd_number (Cmd r), Result r)) | _ \<Rightarrow> Inl ErrNoResult)
         | Panic _ \<Rightarrow> Ret (Inl (ServerError \<lparr>je_Code = errcodePanic, je_Message = ''method handler crashed'', je_Data = None\<rparr>))
         | Hang \<Rightarrow> Hang, st\<lparr>hs_notifiers := 0, hs_app := w'\<rparr>))"
proof -
  from client_methods_requests [OF assms(2)] obtain ns name
    where r: "fst req = ns @ CHR ''_'' # name" "api_request W ns name (snd req) c" by blast
  let ?i = "id_json (cl_idCounter cl + 1)"
  let ?m = "call_message ?i (fst req) (snd req)"
  obtain x w' where x: "serve E L U c (hs_app st) = (x, w')" by force
  have "valid_id (Some ?i)" by (simp add: id_json_def)
  then have "httpServer_ServeHTTP N mux ws H h (mk ?m) st =
      (obind (reply_message W ?m x) (\<lambda>m. Ret (Answer (WriteOne m False))), st\<lparr>hs_notifiers := 0, hs_app := w'\<rparr>)"
    using endpoint_run [OF assms(1) r(2), of ?i H ?m "mk ?m"] assms(3,4) r(1) x by (simp add: reachable_by_def)
  moreover have "is_i64 errcodePanic" by (simp add: errcodePanic_def is_i64_def)
  ultimately show ?thesis
    using client_methods_respond [OF assms(2), of E L U "hs_app st"] x
    by (cases x) (auto simp: typed_call_def newMessage_call direct_post_def gbind_def gret_run glift_run CallContext_http_answer
        CallContext_end_def msg_response_def errorResponse_def errorMessage_def simp del: delivered.simps)
qed

end
