(* ===== verification/Reward.thy ===== *)
theory Reward
  imports Beacon_Client
begin

text \<open>
  \<^verbatim>\<open>src/reward/reward.go\<close>: the table of attestation rewards, written to a backup file
  that replaces the output at the end. The state is the beacon client's and the files; a file
  is the list of its rows. Whether a file can be created or renamed is decided by the file
  system, an argument. The CSV writer is buffered and flushed when the function returns.

  Shown here: the output is replaced by the complete table or not touched at all, and the table
  has the rows of every epoch up to two before the latest, in order.
\<close>

record reward_world = gw +
  rw_files :: "string \<Rightarrow> string list list option"

datatype reward_error = CreateFailed | ConfigFailed num_error | BeaconFailed beacon_error

definition bakfile :: "string \<Rightarrow> string" where
  "bakfile output = output @ ''.bak''"

definition reward_header :: "string list" where
  "reward_header = [''Epoch'', ''Validator Index'', ''Head'', ''Target'', ''Source'', ''Inclusion Delay'', ''Inactivity'']"

definition reward_row :: "int \<Rightarrow> TotalReward \<Rightarrow> string list" where
  "reward_row epochNumber r =
     [FormatInt epochNumber, rew_ValidatorIndex r, rew_Head r, rew_Target r, rew_Source r, rew_InclusionDelay r,
      rew_Inactivity r]"

function reward_loop ::
  "env \<Rightarrow> int \<Rightarrow> int \<Rightarrow> string list list \<Rightarrow> ('z gw_scheme, string list list \<times> reward_error option) gom" where
  "reward_loop E lastEpoch epochNumber rows =
     (if epochNumber \<le> lastEpoch then
        gbind (GetAllValReward E epochNumber) (\<lambda>r.
        case r of
          Inl e \<Rightarrow> gret (rows, Some (BeaconFailed e))
        | Inr totalRewards \<Rightarrow>
            reward_loop E lastEpoch (epochNumber + 1) (rows @ map (reward_row epochNumber) totalRewards))
      else gret (rows, None))"
  by pat_completeness auto

termination
  by (relation "measure (\<lambda>(E, lastEpoch, epochNumber, rows). nat (lastEpoch + 1 - epochNumber))") auto

declare reward_loop.simps [simp del]

definition put_file :: "string \<Rightarrow> string list list \<Rightarrow> (reward_world, unit) gom" where
  "put_file path rows = gmodify (rw_files_update (\<lambda>fs. fs(path \<mapsto> rows)))"

definition rename_file :: "bool \<Rightarrow> string \<Rightarrow> string \<Rightarrow> (reward_world, unit) gom" where
  "rename_file ok old new =
     gmodify (rw_files_update (\<lambda>fs. if ok then fs(new := fs old, old := None) else fs))"

text \<open>From the creation of the backup file to the flush of the rows.\<close>

definition collect_rewards :: "env \<Rightarrow> string \<Rightarrow> string \<Rightarrow> (reward_world, reward_error option) gom" where
  "collect_rewards E gwEndpoint output =
     gbind (put_file (bakfile output) []) (\<lambda>_.
     gbind (gmodify (\<lambda>w. w\<lparr>gw_endpoint := gwEndpoint, gw_config := []\<rparr>)) (\<lambda>_.
     gbind (GetIntConfig E SLOTS_PER_EPOCH) (\<lambda>(slots_per_epoch, err).
     case err of
       Some e \<Rightarrow> gret (Some (ConfigFailed e))
     | None \<Rightarrow>
         gbind (GetLatestBeaconHeader E) (\<lambda>r.
         case r of
           Inl e \<Rightarrow> gret (Some (BeaconFailed e))
         | Inr latestHeader \<Rightarrow>
             (let latestSlot = fst (ParseInt (msg_Slot (hdr_Message (hdi_Header latestHeader)))) in
              gbind (glift (int_quot latestSlot slots_per_epoch)) (\<lambda>latestEpoch.
              gbind (reward_loop E (i64 (latestEpoch - 2)) 0 [reward_header]) (\<lambda>(rows, err).
              gbind (put_file (bakfile output) rows) (\<lambda>_. gret err))))))))"

definition GetRewards :: "env \<Rightarrow> bool \<Rightarrow> bool \<Rightarrow> string \<Rightarrow> string \<Rightarrow> (reward_world, reward_error option) gom" where
  "GetRewards E createOk renameOk gwEndpoint output =
     (if \<not> createOk then gret (Some CreateFailed)
      else
        gbind (collect_rewards E gwEndpoint output) (\<lambda>err.
        case err of
          Some e \<Rightarrow> gret (Some e)
        | None \<Rightarrow> gbind (rename_file renameOk (bakfile output) output) (\<lambda>_. gret None)))"

section \<open>Facts\<close>

lemma bakfile_neq [simp]: "bakfile output \<noteq> output" "output \<noteq> bakfile output"
  by (simp_all add: bakfile_def)

lemma beacon_frame_rw_files [simp]: "beacon_frame rw_files" "beacon_frame (\<lambda>w. rw_files w path)"
  by (simp_all add: beacon_frame_def)

lemma keeps_reward_loop [go_frame]: "beacon_frame g \<Longrightarrow> keeps g (reward_loop E l e rows)"
proof (induction E l e rows rule: reward_loop.induct)
  case (1 E l e rows)
  then show ?case
    by (subst reward_loop.simps) (auto intro!: keeps_if keeps_gbind keeps_case_sum keeps_GetAllValReward)
qed

lemma keeps_put_file: "path \<noteq> path' \<Longrightarrow> keeps (\<lambda>w. rw_files w path') (put_file path rows)"
  unfolding put_file_def by (rule keeps_gmodify) simp

lemma keeps_collect_rewards: "keeps (\<lambda>w. rw_files w output) (collect_rewards E ep output)"
  unfolding collect_rewards_def Let_def
  by (intro keeps_gbind keeps_case_prod keeps_case_option keeps_case_sum keeps_gret keeps_glift keeps_put_file
      keeps_GetIntConfig keeps_GetLatestBeaconHeader keeps_reward_loop keeps_gmodify)
    simp_all

lemma GetRewards_atomic:
  assumes "GetRewards E createOk renameOk ep output w = (r, w')" and "r \<noteq> Ret None"
  shows "rw_files w' output = rw_files w output"
proof (cases createOk)
  case True
  obtain r1 w1 where c: "collect_rewards E ep output w = (r1, w1)" by force
  with keeps_run [OF keeps_collect_rewards] have k: "rw_files w1 output = rw_files w output" by fastforce
  from assms c True k show ?thesis
    by (auto simp: GetRewards_def gbind_def gret_run rename_file_def split: outcome.splits option.splits if_splits)
qed (use assms in \<open>simp add: GetRewards_def gret_run\<close>)

text \<open>The rewards the node reports for an epoch in its \<open>n\<close>-th answer.\<close>

definition epoch_rewards :: "env \<Rightarrow> string \<Rightarrow> nat \<Rightarrow> int \<Rightarrow> beacon_error + TotalReward list" where
  "epoch_rewards E ep n epoch =
     map_sum id rew_TotalRewards
       (unmarshal_or_fail (dec_struct RewardInfo_fields)
         (br_Data (fst (decode_response (env_net E n
            (HttpPost (''http://'' @ ep @ ''/eth/v1/beacon/rewards/attestations/'' @ FormatInt epoch) (JArr []))))))
         \<lparr>rew_TotalRewards = []\<rparr>)"

lemma GetAllValReward_run:
  "GetAllValReward E epoch s =
     (Ret (epoch_rewards E (gw_endpoint s) (gw_clock s) epoch), s\<lparr>gw_clock := Suc (gw_clock s)\<rparr>)"
  by (simp add: GetAllValReward_def doPost_def exchange_run epoch_rewards_def gbind_def gret_run gw_url_def
      split: prod.split)

definition epoch_rows :: "env \<Rightarrow> string \<Rightarrow> nat \<Rightarrow> int \<Rightarrow> string list list" where
  "epoch_rows E ep n epoch =
     (case epoch_rewards E ep n epoch of Inl _ \<Rightarrow> [] | Inr rs \<Rightarrow> map (reward_row epoch) rs)"

lemma reward_loop_rows:
  assumes "reward_loop E l e rows s = (Ret (rows', None), s')"
  shows "rows' = rows @ concat (map (\<lambda>k. epoch_rows E (gw_endpoint s) (gw_clock s + k) (e + int k)) [0..<nat (l + 1 - e)]) \<and>
    (\<forall>k < nat (l + 1 - e). \<exists>rs. epoch_rewards E (gw_endpoint s) (gw_clock s + k) (e + int k) = Inr rs)"
  using assms
proof (induction E l e rows arbitrary: s rule: reward_loop.induct)
  case (1 E l e rows)
  show ?case
  proof (cases "e \<le> l")
    case True
    let ?s = "s\<lparr>gw_clock := Suc (gw_clock s)\<rparr>"
    from "1.prems" True obtain rs where rs: "epoch_rewards E (gw_endpoint s) (gw_clock s) e = Inr rs"
      "reward_loop E l (e + 1) (rows @ map (reward_row e) rs) ?s = (Ret (rows', None), s')"
      by (subst (asm) reward_loop.simps)
        (auto simp: gbind_def GetAllValReward_run gret_run split: sum.splits)
    let ?n = "nat (l - e)"
    have n: "nat (l + 1 - e) = Suc ?n" "nat (l + 1 - (e + 1)) = ?n" using True by simp_all
    from "1.IH" [OF True rs(2)] rs(1) have
      "rows' = rows @ map (reward_row e) rs @
         concat (map (\<lambda>k. epoch_rows E (gw_endpoint s) (gw_clock s + Suc k) (e + int (Suc k))) [0..<?n])"
      "\<forall>k < ?n. \<exists>rs. epoch_rewards E (gw_endpoint s) (gw_clock s + Suc k) (e + int (Suc k)) = Inr rs"
      unfolding n by (simp_all add: add.assoc)
    moreover have "[0..<Suc ?n] = 0 # map Suc [0..<?n]" by (simp add: upt_conv_Cons map_Suc_upt del: upt_Suc)
    moreover have "map (reward_row e) rs = epoch_rows E (gw_endpoint s) (gw_clock s) e"
      using rs(1) by (simp add: epoch_rows_def)
    ultimately show ?thesis
      using rs(1) unfolding n by (auto simp: o_def less_Suc_eq_0_disj simp del: upt_Suc)
  next
    case False
    with "1.prems" show ?thesis by (simp add: reward_loop.simps gret_run)
  qed
qed

text \<open>The state when the backup file is there and the client is new.\<close>

definition reward_start :: "string \<Rightarrow> string \<Rightarrow> reward_world \<Rightarrow> reward_world" where
  "reward_start ep output w =
     (rw_files_update (\<lambda>fs. fs(bakfile output \<mapsto> [])) w)\<lparr>gw_endpoint := ep, gw_config := []\<rparr>"

text \<open>
  A run that succeeds writes the complete table: the rows the node reports for the epochs from
  0 to two before the epoch of its latest header.
\<close>

lemma GetRewards_complete:
  assumes "GetRewards E True True ep output w = (Ret None, w')"
  shows "\<exists>spe w2 hdr w3 latestEpoch.
    GetIntConfig E SLOTS_PER_EPOCH (reward_start ep output w) = (Ret (spe, None), w2) \<and>
    GetLatestBeaconHeader E w2 = (Ret (Inr hdr), w3) \<and>
    int_quot (fst (ParseInt (msg_Slot (hdr_Message (hdi_Header hdr))))) spe = Ret latestEpoch \<and>
    rw_files w' output =
      Some (reward_header #
        concat (map (\<lambda>k. epoch_rows E ep (gw_clock w3 + k) (int k)) [0..<nat (i64 (latestEpoch - 2) + 1)])) \<and>
    (\<forall>k < nat (i64 (latestEpoch - 2) + 1). \<exists>rs. epoch_rewards E ep (gw_clock w3 + k) (int k) = Inr rs)"
proof -
  from assms obtain w1 where c: "collect_rewards E ep output w = (Ret None, w1)"
    and f: "rw_files w' output = rw_files w1 (bakfile output)"
    by (auto simp: GetRewards_def rename_file_def gret_run elim!: gbind_RetE split: option.splits)
  from c obtain spe w2 hdr w3 latestEpoch rows w4 where
    cfg: "GetIntConfig E SLOTS_PER_EPOCH (reward_start ep output w) = (Ret (spe, None), w2)" and
    hd: "GetLatestBeaconHeader E w2 = (Ret (Inr hdr), w3)" and
    q: "int_quot (fst (ParseInt (msg_Slot (hdr_Message (hdi_Header hdr))))) spe = Ret latestEpoch" and
    lp: "reward_loop E (i64 (latestEpoch - 2)) 0 [reward_header] w3 = (Ret (rows, None), w4)" and
    w1: "rw_files w1 (bakfile output) = Some rows"
    by (auto simp: collect_rewards_def put_file_def gret_run glift_run Let_def reward_start_def
        elim!: gbind_RetE split: option.splits sum.splits prod.splits)
  have fr: "beacon_frame gw_endpoint" by (simp add: beacon_frame_def)
  have "gw_endpoint w3 = ep"
    using keeps_run [OF keeps_GetIntConfig [OF fr] cfg] keeps_run [OF keeps_GetLatestBeaconHeader [OF fr] hd]
    by (simp add: reward_start_def)
  with reward_loop_rows [OF lp] f w1 cfg hd q show ?thesis
    by (intro exI [of _ spe] exI [of _ w2] exI [of _ hdr] exI [of _ w3] exI [of _ latestEpoch]) simp
qed

end
