(* ===== verification/Endpoint_Scenario.thy ===== *)
theory Endpoint_Scenario
  imports Scenario Attacker_Rpc Reward
begin

text \<open>
  The concrete world of the previous theory behind a running endpoint, and a directory for the
  reward report: the inputs on which the properties of the endpoint and the report are applied.
\<close>

definition e_wire :: wire where
  "e_wire = \<lparr>w_parse = \<lambda>b. None, w_print = \<lambda>j. ''{}'', w_error = ''unexpected end of JSON input''\<rparr>"

definition e_net :: net_lib where
  "e_net = \<lparr>nl_splitHostPort = \<lambda>h. None, nl_isIP = \<lambda>h. False, nl_cors = \<lambda>os r. None\<rparr>"

definition e_request :: "jsonrpcMessage \<Rightarrow> http_req" where
  "e_request msg =
     \<lparr>hr_Method = ''POST'', hr_ContentLength = 100, hr_RawQuery = [], hr_mediaType = Some contentType,
      hr_body = BodyJson (message_json msg), hr_Path = ''/'', hr_Host = ''localhost'', hr_Upgrade = [],
      hr_Connection = [], hr_AcceptEncoding = []\<rparr>"

type_synonym e_world = "(s_att, s_block, (string \<times> int) list) world"

definition e_conf :: "(arg, e_world) hconf" where
  "e_conf =
     \<lparr>hc_reg = Map.empty, hc_allowSubscribe = False, hc_batchRequestLimit = 0, hc_batchResponseMaxSize = 0,
      hc_idType = str_param, hc_idOf = \<lambda>a. [], hc_stringType = str_param, hc_subOf = \<lambda>s n. None,
      hc_resultLen = \<lambda>j. 0, hc_zero = AInt 0\<rparr>"

definition e_state :: "e_world hstate" where
  "e_state = \<lparr>hs_app = s_world, hs_serverSubs = [], hs_notifiers = 0\<rparr>"

definition e_cfg :: Config where
  "e_cfg =
     \<lparr>cfg_HttpPort = 10000, cfg_HttpHost = ''0.0.0.0'', cfg_ExecuteRpc = ''http://exec'', cfg_BeaconRpc = ''node'',
      cfg_MetricsPort = 8080, cfg_Strategy = ''strategy.json'', cfg_RewardFile = ''reward.csv''\<rparr>"

definition e_start :: "string option \<times> (arg, e_world) rpc_server list \<times> (arg, e_world) httpServer" where
  "e_start = startRPC Inr [] (GetAPIs e_wire (run_call e_wire s_env s_lib s_one)) e_cfg (newHTTPServer DefaultHTTPTimeouts)"

definition e_http :: "(arg, e_world) httpServer" where
  "e_http = snd (snd e_start)"

definition e_files :: reward_world where
  "e_files = \<lparr>gw_endpoint = [], gw_config = [], gw_clock = 0, rw_files = \<lambda>path. None\<rparr>"

lemma e_started:
  "startRPC Inr [] (GetAPIs e_wire (run_call e_wire s_env s_lib s_one)) e_cfg (newHTTPServer DefaultHTTPTimeouts) = (None, [], e_http)"
proof -
  obtain srv' where "RegisterApis (GetAPIs e_wire (run_call e_wire s_env s_lib s_one)) []
      (SetBatchLimits APIBatchItemLimit APIBatchResponseSizeLimit (rpc_NewServer [])) = (None, srv')"
    using RegisterApis_GetAPIs by blast
  then have "fst e_start = None \<and> fst (snd e_start) = []"
    by (simp add: e_start_def startRPC_def setListenAddr_def newHTTPServer_def enableRPC_def rpcAllowed_def default_httpConfig_def
        DefaultModules_def http_start_def Let_def)
  then show ?thesis by (simp add: e_http_def prod_eq_iff flip: e_start_def)
qed

lemma e_posts: "posts (e_request msg) msg"
  by (simp add: posts_def e_request_def maxRequestContentLength_def)

lemma e_reachable: "reachable_by e_net (\<lambda>r. None) e_request"
proof -
  have "ToLower ''localhost'' = ''localhost''" by code_simp
  moreover have "hr_Host (e_request msg) = ''localhost''" for msg by (simp add: e_request_def)
  ultimately show ?thesis
    by (simp add: reachable_by_def e_posts e_net_def vhost_allows_def newVHostHandler_def DefaultVhosts_def)
qed

text \<open>The node's head is in epoch 1, so the report is its header alone.\<close>

lemma e_rewards: "fst (GetRewards s_env True True ''node'' ''out'' e_files) = Ret None"
proof -
  let ?s = "reward_start ''node'' ''out'' e_files"
  have a: "spec_answer s_env ?s = [(''SLOTS_PER_EPOCH'', JStr ''4''), (''SECONDS_PER_SLOT'', JStr ''2'')]"
  proof -
    have "gw_url ?s ''/eth/v1/config/spec'' = ''http://node/eth/v1/config/spec''" by (simp add: gw_url_def reward_start_def)
    moreover have "spec_entries (s_data (JObj [(''SLOTS_PER_EPOCH'', JStr ''4''), (''SECONDS_PER_SLOT'', JStr ''2'')])) =
        [(''SLOTS_PER_EPOCH'', JStr ''4''), (''SECONDS_PER_SLOT'', JStr ''2'')]" by code_simp
    ultimately show ?thesis by (simp add: spec_answer_def s_env_def s_net_def)
  qed
  have f: "fetched s_env ?s = [(''SLOTS_PER_EPOCH'', ''4''), (''SECONDS_PER_SLOT'', ''2'')]"
    unfolding fetched_def a by (simp add: s_env_def string_of_def)
  have "Atoi ''4'' = (4, None)" by (simp add: Atoi_def ParseInt_def ParseUint_def digit_val_def)
  moreover have "GetBeaconConfig s_env ?s =
      (Ret (fetched s_env ?s), ?s\<lparr>gw_clock := Suc (Suc (gw_clock ?s)), gw_config := fetched s_env ?s\<rparr>)"
    by (rule GetBeaconConfig_fetch [OF _ s_env_ok]) (simp_all add: a all_strings_def, simp add: reward_start_def)
  ultimately have c: "GetIntConfig s_env SLOTS_PER_EPOCH ?s =
      (Ret (4, None), ?s\<lparr>gw_clock := Suc (Suc (gw_clock ?s)), gw_config := fetched s_env ?s\<rparr>)"
    by (simp add: GetIntConfig_def gbind_def gret_run f SLOTS_PER_EPOCH_def)
  let ?t = "?s\<lparr>gw_clock := Suc (Suc (gw_clock ?s)), gw_config := fetched s_env ?s\<rparr>"
  obtain h where h: "GetLatestBeaconHeader s_env ?t = (Ret (Inr h), ?t\<lparr>gw_clock := Suc (gw_clock ?t)\<rparr>)"
    "msg_Slot (hdr_Message (hdi_Header h)) = ''6''"
    using s_header_any [of ?t] by (auto simp: reward_start_def)
  have "ParseInt ''6'' = (6, None)" by (simp add: ParseInt_def ParseUint_def digit_val_def)
  with c h show ?thesis
    by (simp add: GetRewards_def collect_rewards_def gbind_def gret_run glift_run put_file_def rename_file_def int_quot_pos
        reward_loop.simps i64_def f reward_start_def)
qed

end
