(* ===== verification/Rpc_Transport.thy ===== *)
theory Rpc_Transport
  imports Rpc_Stack Go_Base64
begin

text \<open>
  How connections are set up: \<^verbatim>\<open>src/rpc/client_opt.go\<close> (options of a client),
  \<^verbatim>\<open>context_headers.go\<close> (headers of one request), the choice of transport in
  \<^verbatim>\<open>client.go\<close>, and the handshake of \<^verbatim>\<open>websocket.go\<close>. Go's URL parser and the canonical
  form of a header key are arguments. A header is an association list without repeated keys,
  as the loops over it do not depend on its order.

  Shown here: which header a request carries; which origins a websocket accepts, and that a
  rule without a scheme is compared with its capital letters although the browser's origin
  has lost its own.
\<close>

section \<open>Headers\<close>

type_synonym header = "(string \<times> string list) list"

definition header_Set :: "(string \<Rightarrow> string) \<Rightarrow> string \<Rightarrow> string \<Rightarrow> header \<Rightarrow> header" where
  "header_Set canon key val h = alist_put (canon key) [val] h"

definition header_Get :: "(string \<Rightarrow> string) \<Rightarrow> string \<Rightarrow> header \<Rightarrow> string" where
  "header_Get canon key h = (case map_of h (canon key) of Some (v # _) \<Rightarrow> v | _ \<Rightarrow> [])"

definition setHeaders :: "(string \<Rightarrow> string) \<Rightarrow> header \<Rightarrow> header \<Rightarrow> header" where
  "setHeaders canon dst src = fold (\<lambda>(key, vals) h. alist_put (canon key) vals h) src dst"

text \<open>The headers of a context: absent, or those of \<^verbatim>\<open>NewContextWithHeaders\<close>.\<close>

definition NewContextWithHeaders :: "(string \<Rightarrow> string) \<Rightarrow> header option \<Rightarrow> header \<Rightarrow> header option" where
  "NewContextWithHeaders canon ctx h =
     (if h = [] then ctx
      else Some (case ctx of Some prev \<Rightarrow> setHeaders canon prev h | None \<Rightarrow> h))"

definition headersFromContext :: "header option \<Rightarrow> header" where
  "headersFromContext ctx = (case ctx of None \<Rightarrow> [] | Some h \<Rightarrow> h)"

section \<open>Options\<close>

record clientConfig =
  cc_httpClient :: "nat option"
  cc_httpHeaders :: "header option"
  cc_httpAuth :: "(header \<Rightarrow> string + header) option"
  cc_wsDialer :: "nat option"
  cc_wsMessageSizeLimit :: "int option"
  cc_idgen :: "nat option"
  cc_batchItemLimit :: int
  cc_batchResponseLimit :: int

definition new_config :: clientConfig where
  "new_config =
     \<lparr>cc_httpClient = None, cc_httpHeaders = None, cc_httpAuth = None, cc_wsDialer = None,
      cc_wsMessageSizeLimit = None, cc_idgen = None, cc_batchItemLimit = 0, cc_batchResponseLimit = 0\<rparr>"

definition initHeaders :: "clientConfig \<Rightarrow> clientConfig" where
  "initHeaders cfg = (if cc_httpHeaders cfg = None then cfg\<lparr>cc_httpHeaders := Some []\<rparr> else cfg)"

definition cfg_setHeader :: "(string \<Rightarrow> string) \<Rightarrow> string \<Rightarrow> string \<Rightarrow> clientConfig \<Rightarrow> clientConfig" where
  "cfg_setHeader canon key val cfg =
     (let c = initHeaders cfg in c\<lparr>cc_httpHeaders := map_option (header_Set canon key val) (cc_httpHeaders c)\<rparr>)"

datatype ClientOption =
    WithWebsocketDialer nat
  | WithWebsocketMessageSizeLimit int
  | WithHeader string string
  | WithHeaders header
  | WithHTTPClient nat
  | WithHTTPAuth "(header \<Rightarrow> string + header) option"
  | WithBatchItemLimit int
  | WithBatchResponseSizeLimit int

text \<open>A nil authentication panics when the option is made.\<close>

fun applyOption :: "(string \<Rightarrow> string) \<Rightarrow> ClientOption \<Rightarrow> clientConfig \<Rightarrow> clientConfig outcome" where
  "applyOption canon (WithWebsocketDialer d) cfg = Ret (cfg\<lparr>cc_wsDialer := Some d\<rparr>)"
| "applyOption canon (WithWebsocketMessageSizeLimit n) cfg = Ret (cfg\<lparr>cc_wsMessageSizeLimit := Some n\<rparr>)"
| "applyOption canon (WithHeader k v) cfg = Ret (cfg_setHeader canon k v cfg)"
| "applyOption canon (WithHeaders hs) cfg =
     Ret (let c = initHeaders cfg
          in c\<lparr>cc_httpHeaders := map_option (fold (\<lambda>(k, vs) h. alist_put k vs h) hs) (cc_httpHeaders c)\<rparr>)"
| "applyOption canon (WithHTTPClient n) cfg = Ret (cfg\<lparr>cc_httpClient := Some n\<rparr>)"
| "applyOption canon (WithHTTPAuth None) cfg = Panic (Explicit ''nil auth'')"
| "applyOption canon (WithHTTPAuth (Some a)) cfg = Ret (cfg\<lparr>cc_httpAuth := Some a\<rparr>)"
| "applyOption canon (WithBatchItemLimit n) cfg = Ret (cfg\<lparr>cc_batchItemLimit := n\<rparr>)"
| "applyOption canon (WithBatchResponseSizeLimit n) cfg = Ret (cfg\<lparr>cc_batchResponseLimit := n\<rparr>)"

section \<open>Transports\<close>

record parsed_url =
  u_Scheme :: string
  u_Hostname :: string
  u_Port :: string
  u_Opaque :: string
  u_User :: "string option"
  u_withoutUser :: string

definition newClientTransportHTTP :: "(string \<Rightarrow> string) \<Rightarrow> clientConfig \<Rightarrow> header" where
  "newClientTransportHTTP canon cfg =
     fold (\<lambda>(key, vals) h. alist_put key vals h) (headersFromContext (cc_httpHeaders cfg))
       (header_Set canon ''content-type'' contentType (header_Set canon ''accept'' contentType []))"

text \<open>The headers of an HTTP request: the client's, then the context's, then the authentication's.\<close>

definition request_headers :: "(string \<Rightarrow> string) \<Rightarrow> clientConfig \<Rightarrow> header option \<Rightarrow> string + header" where
  "request_headers canon cfg ctx =
     (let h = setHeaders canon (newClientTransportHTTP canon cfg) (headersFromContext ctx)
      in case cc_httpAuth cfg of None \<Rightarrow> Inr h | Some auth \<Rightarrow> auth h)"

text \<open>Basic authentication from the URL; the user is cut from the URL that is dialed.\<close>

definition wsClientHeaders ::
  "(string \<Rightarrow> string) \<Rightarrow> (string \<Rightarrow> parsed_url option) \<Rightarrow> string \<Rightarrow> string \<Rightarrow> (string \<times> header) option" where
  "wsClientHeaders canon urlParse endpoint origin =
     (case urlParse endpoint of
        None \<Rightarrow> None
      | Some u \<Rightarrow>
          (let h1 = (if origin \<noteq> [] then [(canon ''origin'', [origin])] else []);
               h2 = (case u_User u of
                       None \<Rightarrow> h1
                     | Some user \<Rightarrow>
                         alist_put (canon ''authorization'')
                           ((case map_of h1 (canon ''authorization'') of None \<Rightarrow> [] | Some vs \<Rightarrow> vs) @
                            [''Basic '' @ EncodeToString user]) h1)
           in Some (u_withoutUser u, h2)))"

definition wsDefaultReadLimit :: int where
  "wsDefaultReadLimit = 32 * 1024 * 1024"

definition ws_messageSizeLimit :: "clientConfig \<Rightarrow> int" where
  "ws_messageSizeLimit cfg =
     (case cc_wsMessageSizeLimit cfg of Some n \<Rightarrow> if n \<ge> 0 then n else wsDefaultReadLimit | None \<Rightarrow> wsDefaultReadLimit)"

datatype transport = TransportHTTP | TransportWS | TransportStdio | TransportIPC

definition dial_transport :: "(string \<Rightarrow> parsed_url option) \<Rightarrow> string \<Rightarrow> (string + transport)" where
  "dial_transport urlParse rawurl =
     (case urlParse rawurl of
        None \<Rightarrow> Inl ''parse error''
      | Some u \<Rightarrow>
          if u_Scheme u = ''http'' \<or> u_Scheme u = ''https'' then Inr TransportHTTP
          else if u_Scheme u = ''ws'' \<or> u_Scheme u = ''wss'' then Inr TransportWS
          else if u_Scheme u = ''stdio'' then Inr TransportStdio
          else if u_Scheme u = [] then Inr TransportIPC
          else Inl (''no known transport for URL scheme '' @ Quote (u_Scheme u)))"

section \<open>Origins of a websocket\<close>

definition parseOriginURL :: "(string \<Rightarrow> parsed_url option) \<Rightarrow> string \<Rightarrow> (string \<times> string \<times> string) option" where
  "parseOriginURL urlParse origin =
     (case urlParse (ToLower origin) of
        None \<Rightarrow> None
      | Some u \<Rightarrow>
          Some (if Contains origin ''://'' then (u_Scheme u, u_Hostname u, u_Port u)
                else ([], if u_Scheme u = [] then origin else u_Scheme u, u_Opaque u)))"

definition ruleAllowsOrigin :: "(string \<Rightarrow> parsed_url option) \<Rightarrow> string \<Rightarrow> string \<Rightarrow> bool" where
  "ruleAllowsOrigin urlParse allowedOrigin browserOrigin =
     (case parseOriginURL urlParse allowedOrigin of
        None \<Rightarrow> False
      | Some (aScheme, aHost, aPort) \<Rightarrow>
          (case parseOriginURL urlParse browserOrigin of
             None \<Rightarrow> False
           | Some (bScheme, bHost, bPort) \<Rightarrow>
               if aScheme \<noteq> [] \<and> aScheme \<noteq> bScheme then False
               else if aHost \<noteq> [] \<and> aHost \<noteq> bHost then False
               else if aPort \<noteq> [] \<and> aPort \<noteq> bPort then False
               else True))"

definition originIsAllowed :: "(string \<Rightarrow> parsed_url option) \<Rightarrow> string list \<Rightarrow> string \<Rightarrow> bool" where
  "originIsAllowed urlParse allowedOrigins browserOrigin \<longleftrightarrow>
     list_ex (\<lambda>origin. ruleAllowsOrigin urlParse origin browserOrigin) allowedOrigins"

text \<open>\<open>hostname\<close>: the machine's name, if known. \<open>origin\<close>: the request's header, if present.\<close>

definition ws_origins :: "string option \<Rightarrow> string list \<Rightarrow> string list" where
  "ws_origins hostname allowedOrigins =
     (let origins = filter (\<lambda>origin. origin \<noteq> []) allowedOrigins
      in if origins = [] then ''http://localhost'' # (case hostname of None \<Rightarrow> [] | Some h \<Rightarrow> [''http://'' @ h])
         else origins)"

definition wsHandshakeValidator ::
  "(string \<Rightarrow> parsed_url option) \<Rightarrow> string option \<Rightarrow> string list \<Rightarrow> string option \<Rightarrow> bool" where
  "wsHandshakeValidator urlParse hostname allowedOrigins origin =
     (case origin of
        None \<Rightarrow> True
      | Some orig \<Rightarrow>
          ''*'' \<in> set allowedOrigins \<or>
          originIsAllowed urlParse (ws_origins hostname allowedOrigins) (ToLower orig))"

section \<open>Facts\<close>

lemma map_of_setHeaders:
  "map_of (setHeaders canon dst src) k =
     (case find (\<lambda>e. canon (fst e) = k) (rev src) of Some e \<Rightarrow> Some (snd e) | None \<Rightarrow> map_of dst k)"
  unfolding setHeaders_def
proof (induction src rule: rev_induct)
  case (snoc e src)
  then show ?case by (cases e) auto
qed simp

text \<open>A rule without a scheme that is a bare host is compared as it was written.\<close>

lemma bare_rule_case_sensitive:
  assumes "\<not> Contains rule ''://''" and "urlParse (ToLower rule) = Some u" and "u_Scheme u = []"
    and "rule \<noteq> []" and "ToLower rule \<noteq> rule"
    and "\<And>b. urlParse browser = Some b \<Longrightarrow> ToLower (u_Hostname b) = u_Hostname b \<and> ToLower (u_Scheme b) = u_Scheme b"
    and "ToLower browser = browser"
  shows "\<not> ruleAllowsOrigin urlParse rule browser"
  using assms by (auto simp: ruleAllowsOrigin_def parseOriginURL_def split: option.splits if_splits)

lemma wsHandshakeValidator_default:
  assumes "list_all (\<lambda>origin. origin = []) allowed" and "orig \<noteq> None"
  shows "wsHandshakeValidator urlParse hostname allowed orig =
    list_ex (\<lambda>rule. ruleAllowsOrigin urlParse rule (ToLower (the orig)))
      (''http://localhost'' # (case hostname of None \<Rightarrow> [] | Some h \<Rightarrow> [''http://'' @ h]))"
proof -
  have "filter (\<lambda>origin. origin \<noteq> []) allowed = []" "''*'' \<notin> set allowed"
    using assms(1) by (auto simp: list_all_iff filter_empty_conv)
  with assms(2) show ?thesis by (auto simp: wsHandshakeValidator_def ws_origins_def originIsAllowed_def)
qed

end
