(* ===== verification/Turn_System.thy ===== *)
theory Turn_System
  imports Go_Prelude
begin

text \<open>
  Systems of goroutines that take turns: \<open>turn e s\<close> is \<open>None\<close> where the event \<open>e\<close> is not enabled
  in the state \<open>s\<close>, and otherwise the outcome of the step. The locale \<open>turn_system\<close> is the contract
  of an invariant: it holds at the start, and every enabled step returns and keeps it. Its lemmas
  say that no interleaving panics or blocks inside a step. The codec of a websocket, the
  connections of a server and the end of a subscription are interpretations.
\<close>

inductive turns_reach :: "('s \<Rightarrow> bool) \<Rightarrow> ('e \<Rightarrow> 's \<Rightarrow> 's outcome option) \<Rightarrow> 's \<Rightarrow> bool" for start turn where
  start: "start s \<Longrightarrow> turns_reach start turn s"
| step: "turns_reach start turn s \<Longrightarrow> turn e s = Some (Ret s') \<Longrightarrow> turns_reach start turn s'"

fun turns_run :: "('e \<Rightarrow> 's \<Rightarrow> 's outcome option) \<Rightarrow> 'e list \<Rightarrow> 's \<Rightarrow> 's outcome option" where
  "turns_run turn [] s = Some (Ret s)"
| "turns_run turn (e # es) s =
     (case turn e s of
        None \<Rightarrow> None
      | Some (Ret s') \<Rightarrow> turns_run turn es s'
      | Some (Panic p) \<Rightarrow> Some (Panic p)
      | Some Hang \<Rightarrow> Some Hang)"

lemma turns_run_Cons: "turn e s = Some (Ret s') \<Longrightarrow> turns_run turn (e # es) s = turns_run turn es s'"
  by simp

lemma turns_run_reach:
  "turns_run turn es s = Some (Ret s') \<Longrightarrow> turns_reach start turn s \<Longrightarrow> turns_reach start turn s'"
proof (induction es arbitrary: s)
  case (Cons e es)
  then obtain s1 where "turn e s = Some (Ret s1)" "turns_run turn es s1 = Some (Ret s')"
    by (auto split: option.splits outcome.splits)
  with Cons show ?case by (blast intro: turns_reach.step)
qed simp

locale turn_system =
  fixes start :: "'s \<Rightarrow> bool" and turn :: "'e \<Rightarrow> 's \<Rightarrow> 's outcome option" and inv :: "'s \<Rightarrow> bool"
  assumes start_inv: "start s \<Longrightarrow> inv s"
    and turn_inv: "inv s \<Longrightarrow> turn e s = Some r \<Longrightarrow> \<exists>s'. r = Ret s' \<and> inv s'"
begin

lemma reach_inv: "turns_reach start turn s \<Longrightarrow> inv s"
proof (induction rule: turns_reach.induct)
  case (step s e s')
  then show ?case using turn_inv by blast
qed (rule start_inv)

lemma turn_returns: "turns_reach start turn s \<Longrightarrow> turn e s = Some r \<Longrightarrow> \<exists>s'. r = Ret s'"
  using turn_inv [OF reach_inv] by blast

lemma run_inv: "turns_run turn es s = Some (Ret s') \<Longrightarrow> inv s \<Longrightarrow> inv s'"
proof (induction es arbitrary: s)
  case (Cons e es)
  then obtain s1 where "turn e s = Some (Ret s1)" "turns_run turn es s1 = Some (Ret s')"
    by (auto split: option.splits outcome.splits)
  with Cons turn_inv show ?case by blast
qed simp

lemma run_returns: "turns_run turn es s = Some r \<Longrightarrow> inv s \<Longrightarrow> \<exists>s'. r = Ret s'"
proof (induction es arbitrary: s)
  case (Cons e es)
  then obtain x where x: "turn e s = Some x" by (auto split: option.splits)
  with turn_inv [OF Cons.prems(2)] obtain s1 where "x = Ret s1" "inv s1" by blast
  with x Cons show ?case by simp
next
  case (Nil s)
  then show ?case by (intro exI [of _ s]) simp
qed

end

end
