(* ===== verification/Rpc_Codec.thy ===== *)
theory Rpc_Codec
  imports Rpc_Transport Turn_System
begin

text \<open>
  The connections below the RPC client and server: the JSON codec of \<^verbatim>\<open>src/rpc/json.go\<close>, the
  two ends of an HTTP connection in \<^verbatim>\<open>http.go\<close>, and the websocket codec of \<^verbatim>\<open>websocket.go\<close>
  with its keep-alive loop. The bytes of a connection belong to the libraries: what the
  encoder answers is an argument. Times are nanoseconds; \<open>wc_now\<close> is the clock, and
  \<open>wc_marks\<close> records what the loop did and when, newest first. Both are read by no operation
  except as the current time.

  Shown here: the keep-alive loop never blocks on its timer, no step panics, the connection is
  closed at most once, and the deadline for reading is set exactly while the last ping is
  unanswered, thirty seconds after it.
\<close>

section \<open>The peer\<close>

record PeerInfo =
  pi_Transport :: string
  pi_RemoteAddr :: string
  pi_HTTP_Version :: string
  pi_HTTP_UserAgent :: string
  pi_HTTP_Origin :: string
  pi_HTTP_Host :: string

definition zeroPeer :: PeerInfo where
  "zeroPeer = \<lparr>pi_Transport = [], pi_RemoteAddr = [], pi_HTTP_Version = [], pi_HTTP_UserAgent = [],
               pi_HTTP_Origin = [], pi_HTTP_Host = []\<rparr>"

text \<open>A context without the value gives the zero value.\<close>

definition PeerInfoFromContext :: "PeerInfo option \<Rightarrow> PeerInfo" where
  "PeerInfoFromContext ctx = (case ctx of None \<Rightarrow> zeroPeer | Some info \<Rightarrow> info)"

section \<open>The JSON codec\<close>

definition second :: int where
  "second = 1000000000"

definition defaultWriteTimeout :: int where
  "defaultWriteTimeout = 10 * second"

text \<open>
  \<open>jc_closer\<close>: the \<^verbatim>\<open>sync.Once\<close> has run. \<open>jc_connClosed\<close> counts the calls of the connection's
  \<^verbatim>\<open>Close\<close>, \<open>jc_sent\<close> is what the encoder accepted.
\<close>

record jsonCodec =
  jc_remote :: string
  jc_closer :: bool
  jc_closeCh :: "unit chan"
  jc_writeDeadline :: "int option"
  jc_connClosed :: nat
  jc_sent :: "(json \<times> bool) list"

text \<open>\<open>ra\<close>: the remote address, if the connection has one.\<close>

definition NewFuncCodec :: "string option \<Rightarrow> jsonCodec" where
  "NewFuncCodec ra =
     \<lparr>jc_remote = (case ra of None \<Rightarrow> [] | Some a \<Rightarrow> a), jc_closer = False, jc_closeCh = make_chan 0,
      jc_writeDeadline = None, jc_connClosed = 0, jc_sent = []\<rparr>"

definition codec_peerInfo :: "'a jsonCodec_scheme \<Rightarrow> PeerInfo" where
  "codec_peerInfo c = zeroPeer\<lparr>pi_Transport := ''ipc'', pi_RemoteAddr := jc_remote c\<rparr>"

definition codec_remoteAddr :: "'a jsonCodec_scheme \<Rightarrow> string" where
  "codec_remoteAddr c = jc_remote c"

definition codec_writeJSON ::
  "(json \<Rightarrow> bool \<Rightarrow> string option) \<Rightarrow> int \<Rightarrow> int option \<Rightarrow> json \<Rightarrow> bool \<Rightarrow> 'a jsonCodec_scheme \<Rightarrow>
     string option \<times> 'a jsonCodec_scheme" where
  "codec_writeJSON encode now ctxDeadline v isErrorResponse c =
     (let deadline = (case ctxDeadline of Some d \<Rightarrow> d | None \<Rightarrow> now + defaultWriteTimeout);
          c1 = c\<lparr>jc_writeDeadline := Some deadline\<rparr>
      in case encode v isErrorResponse of
           Some e \<Rightarrow> (Some e, c1)
         | None \<Rightarrow> (None, c1\<lparr>jc_sent := jc_sent c1 @ [(v, isErrorResponse)]\<rparr>))"

definition codec_close :: "'a jsonCodec_scheme \<Rightarrow> 'a jsonCodec_scheme outcome" where
  "codec_close c =
     (if jc_closer c then Ret c
      else obind (chan_close (Some (jc_closeCh c))) (\<lambda>ch.
             Ret (c\<lparr>jc_closer := True, jc_closeCh := the ch, jc_connClosed := Suc (jc_connClosed c)\<rparr>)))"

text \<open>Receiving from \<^verbatim>\<open>closed()\<close> is possible.\<close>

definition codec_closed :: "'a jsonCodec_scheme \<Rightarrow> bool" where
  "codec_closed c = ch_closed (jc_closeCh c)"

section \<open>HTTP connections\<close>

text \<open>The client's end: it is no stream, so two of the methods must not be called.\<close>

record httpConn =
  hn_url :: string
  hn_headers :: header
  hn_closeOnce :: bool
  hn_closeCh :: "unit chan"

definition httpConn_writeJSON :: "httpConn \<Rightarrow> string option outcome" where
  "httpConn_writeJSON hc = Panic (Explicit ''writeJSON called on httpConn'')"

definition httpConn_peerInfo :: "httpConn \<Rightarrow> PeerInfo outcome" where
  "httpConn_peerInfo hc = Panic (Explicit ''peerInfo called on httpConn'')"

definition httpConn_readBatch :: "httpConn \<Rightarrow> string outcome" where
  "httpConn_readBatch hc = (if ch_closed (hn_closeCh hc) then Ret ''EOF'' else Hang)"

definition httpConn_close :: "httpConn \<Rightarrow> httpConn outcome" where
  "httpConn_close hc =
     (if hn_closeOnce hc then Ret hc
      else obind (chan_close (Some (hn_closeCh hc))) (\<lambda>ch. Ret (hc\<lparr>hn_closeOnce := True, hn_closeCh := the ch\<rparr>)))"

definition SetHeader :: "(string \<Rightarrow> string) \<Rightarrow> bool \<Rightarrow> string \<Rightarrow> string \<Rightarrow> httpConn \<Rightarrow> httpConn" where
  "SetHeader canon isHTTP key val hc =
     (if \<not> isHTTP then hc else hc\<lparr>hn_headers := header_Set canon key val (hn_headers hc)\<rparr>)"

text \<open>
  The server's end writes to the response. An error response announces its length and disables
  chunks and compression, and is flushed. \<open>marshal\<close>: the text of a value, or an error.
\<close>

record response_writer =
  rw_header :: header
  rw_body :: string
  rw_flushed :: nat

definition http_encoder ::
  "(string \<Rightarrow> string) \<Rightarrow> (json \<Rightarrow> string + string) \<Rightarrow> json \<Rightarrow> bool \<Rightarrow> response_writer \<Rightarrow>
     string option \<times> response_writer" where
  "http_encoder canon marshal v isErrorResponse w =
     (case marshal v of
        Inl e \<Rightarrow> (Some e, w)
      | Inr encdata \<Rightarrow>
          if \<not> isErrorResponse then (None, w\<lparr>rw_body := rw_body w @ encdata @ [CHR 0x0A]\<rparr>)
          else
            (let w1 = w\<lparr>rw_header := header_Set canon ''content-length'' (FormatInt (int (length encdata))) (rw_header w)\<rparr>;
                 w2 = w1\<lparr>rw_header := header_Set canon ''transfer-encoding'' ''identity'' (rw_header w1)\<rparr>
             in (None, w2\<lparr>rw_body := rw_body w2 @ encdata, rw_flushed := Suc (rw_flushed w2)\<rparr>)))"

section \<open>The websocket codec\<close>

definition wsPingInterval :: int where
  "wsPingInterval = 30 * second"

definition wsPingWriteTimeout :: int where
  "wsPingWriteTimeout = 5 * second"

definition wsPongTimeout :: int where
  "wsPongTimeout = 30 * second"

text \<open>A timer of Go: running, expired with the value in its channel, or neither.\<close>

datatype go_timer = TimerArmed int | TimerExpired | TimerIdle

fun timer_Stop :: "go_timer \<Rightarrow> bool \<times> go_timer" where
  "timer_Stop (TimerArmed t) = (True, TimerIdle)"
| "timer_Stop TimerExpired = (False, TimerExpired)"
| "timer_Stop TimerIdle = (False, TimerIdle)"

text \<open>Receiving from its channel waits for a running timer, and for ever for an idle one.\<close>

fun timer_receive :: "go_timer \<Rightarrow> go_timer outcome" where
  "timer_receive (TimerArmed t) = Ret TimerIdle"
| "timer_receive TimerExpired = Ret TimerIdle"
| "timer_receive TimerIdle = Hang"

datatype ws_mark = Pinged int | Ponged int | Rearmed int

record websocketCodec = jsonCodec +
  wc_info :: PeerInfo
  wc_readLimit :: int
  wc_pingReset :: "unit chan"
  wc_pongWaiting :: bool
  wc_pingTimer :: go_timer
  wc_readDeadline :: "int option"
  wc_loopDone :: bool
  wc_now :: int
  wc_marks :: "ws_mark list"

definition newWebsocketCodec ::
  "(string \<Rightarrow> string) \<Rightarrow> string \<Rightarrow> int \<Rightarrow> string \<Rightarrow> header \<Rightarrow> int \<Rightarrow> websocketCodec" where
  "newWebsocketCodec canon remoteAddr now host req readLimit =
     jsonCodec.extend (NewFuncCodec (Some remoteAddr))
       (websocketCodec.fields
          (zeroPeer\<lparr>pi_Transport := ''ws'', pi_RemoteAddr := remoteAddr, pi_HTTP_Host := host,
                    pi_HTTP_Origin := header_Get canon ''Origin'' req,
                    pi_HTTP_UserAgent := header_Get canon ''User-Agent'' req\<rparr>)
          readLimit (make_chan 1) False (TimerArmed (now + wsPingInterval)) None False now [])"

definition ws_peerInfo :: "websocketCodec \<Rightarrow> PeerInfo" where
  "ws_peerInfo wc = wc_info wc"

text \<open>A send that does not wait: a full channel is left as it is.\<close>

definition try_send :: "'a \<Rightarrow> 'a chan \<Rightarrow> 'a chan" where
  "try_send v c = (case chan_send v (Some c) of Ret (Some c') \<Rightarrow> c' | _ \<Rightarrow> c)"

definition ws_writeJSON ::
  "(json \<Rightarrow> bool \<Rightarrow> string option) \<Rightarrow> int option \<Rightarrow> json \<Rightarrow> bool \<Rightarrow> websocketCodec \<Rightarrow>
     string option \<times> websocketCodec" where
  "ws_writeJSON encode ctxDeadline v isError wc =
     (case codec_writeJSON encode (wc_now wc) ctxDeadline v isError wc of
        (None, wc1) \<Rightarrow> (None, wc1\<lparr>wc_pingReset := try_send () (wc_pingReset wc1)\<rparr>)
      | (Some e, wc1) \<Rightarrow> (Some e, wc1))"

subsection \<open>The keep-alive loop\<close>

text \<open>The cases of the loop's \<^verbatim>\<open>select\<close>.\<close>

definition ping_on_closed :: "websocketCodec \<Rightarrow> websocketCodec" where
  "ping_on_closed wc = wc\<lparr>wc_pingTimer := snd (timer_Stop (wc_pingTimer wc)), wc_loopDone := True\<rparr>"

definition ping_on_reset :: "websocketCodec \<Rightarrow> websocketCodec outcome" where
  "ping_on_reset wc =
     (let (stopped, t) = timer_Stop (wc_pingTimer wc)
      in obind (if stopped then Ret t else timer_receive t) (\<lambda>_.
         Ret (wc\<lparr>wc_pingReset := (wc_pingReset wc)\<lparr>ch_buf := tl (ch_buf (wc_pingReset wc))\<rparr>,
                 wc_pingTimer := TimerArmed (wc_now wc + wsPingInterval),
                 wc_marks := Rearmed (wc_now wc) # wc_marks wc\<rparr>)))"

definition ping_on_timer :: "websocketCodec \<Rightarrow> websocketCodec" where
  "ping_on_timer wc =
     wc\<lparr>jc_writeDeadline := Some (wc_now wc + wsPingWriteTimeout),
        wc_readDeadline := Some (wc_now wc + wsPongTimeout),
        wc_pingTimer := TimerArmed (wc_now wc + wsPingInterval),
        wc_marks := Pinged (wc_now wc) # wc_marks wc\<rparr>"

definition ping_on_pong :: "websocketCodec \<Rightarrow> websocketCodec" where
  "ping_on_pong wc =
     wc\<lparr>wc_pongWaiting := False, wc_readDeadline := None, wc_marks := Ponged (wc_now wc) # wc_marks wc\<rparr>"

text \<open>
  One step of the codec: time passes, the timer expires, somebody writes, the reader meets a
  pong and waits in the pong handler until the loop takes it or the codec is closed, the loop
  takes one of its four cases, or the codec is closed. \<open>None\<close>: the step is not enabled.
\<close>

datatype ws_event =
    Tick int
  | TimerExpires
  | WriteJson "string option" "int option" json bool
  | PongArrives
  | PongGivesUp
  | LoopClosed
  | LoopReset
  | LoopTimer
  | LoopPong
  | CloseCodec

fun ws_turn :: "ws_event \<Rightarrow> websocketCodec \<Rightarrow> websocketCodec outcome option" where
  "ws_turn (Tick n) wc = (if n > 0 then Some (Ret (wc\<lparr>wc_now := wc_now wc + n\<rparr>)) else None)"
| "ws_turn TimerExpires wc =
     (case wc_pingTimer wc of
        TimerArmed t \<Rightarrow> if t \<le> wc_now wc then Some (Ret (wc\<lparr>wc_pingTimer := TimerExpired\<rparr>)) else None
      | _ \<Rightarrow> None)"
| "ws_turn (WriteJson err deadline v isError) wc =
     Some (Ret (snd (ws_writeJSON (\<lambda>_ _. err) deadline v isError wc)))"
| "ws_turn PongArrives wc = (if wc_pongWaiting wc then None else Some (Ret (wc\<lparr>wc_pongWaiting := True\<rparr>)))"
| "ws_turn PongGivesUp wc =
     (if wc_pongWaiting wc \<and> codec_closed wc then Some (Ret (wc\<lparr>wc_pongWaiting := False\<rparr>)) else None)"
| "ws_turn LoopClosed wc =
     (if \<not> wc_loopDone wc \<and> codec_closed wc then Some (Ret (ping_on_closed wc)) else None)"
| "ws_turn LoopReset wc =
     (if \<not> wc_loopDone wc \<and> ch_buf (wc_pingReset wc) \<noteq> [] then Some (ping_on_reset wc) else None)"
| "ws_turn LoopTimer wc =
     (if \<not> wc_loopDone wc \<and> wc_pingTimer wc = TimerExpired then Some (Ret (ping_on_timer wc)) else None)"
| "ws_turn LoopPong wc =
     (if \<not> wc_loopDone wc \<and> wc_pongWaiting wc then Some (Ret (ping_on_pong wc)) else None)"
| "ws_turn CloseCodec wc = Some (codec_close wc)"

text \<open>\<^verbatim>\<open>close\<close> closes the codec and then waits for the loop; this says when it returns.\<close>

definition ws_close_returns :: "websocketCodec \<Rightarrow> bool" where
  "ws_close_returns wc \<longleftrightarrow> codec_closed wc \<and> wc_loopDone wc"

inductive ws_start :: "websocketCodec \<Rightarrow> bool" where
  "ws_start (newWebsocketCodec canon remote now host req limit)"

abbreviation ws_reachable :: "websocketCodec \<Rightarrow> bool" where
  "ws_reachable \<equiv> turns_reach ws_start ws_turn"

section \<open>The invariant of the keep-alive loop\<close>

text \<open>The time of the last ping if no pong was handled since, and the time the timer was last set.\<close>

fun unanswered_ping :: "ws_mark list \<Rightarrow> int option" where
  "unanswered_ping [] = None"
| "unanswered_ping (Pinged t # ms) = Some t"
| "unanswered_ping (Ponged t # ms) = None"
| "unanswered_ping (Rearmed t # ms) = unanswered_ping ms"

definition ws_inv :: "websocketCodec \<Rightarrow> bool" where
  "ws_inv wc \<longleftrightarrow>
     wc_readDeadline wc = map_option (\<lambda>t. t + wsPongTimeout) (unanswered_ping (wc_marks wc)) \<and>
     (\<not> wc_loopDone wc \<longrightarrow> wc_pingTimer wc \<noteq> TimerIdle) \<and> (wc_loopDone wc \<longrightarrow> codec_closed wc) \<and>
     (\<forall>t. wc_pingTimer wc = TimerArmed t \<longrightarrow> t \<le> wc_now wc + wsPingInterval) \<and>
     codec_closed wc = jc_closer wc \<and> jc_connClosed wc = (if jc_closer wc then 1 else 0) \<and>
     ch_cap (wc_pingReset wc) = 1 \<and> \<not> ch_closed (wc_pingReset wc) \<and> length (ch_buf (wc_pingReset wc)) \<le> 1"

lemmas codec_defs = codec_close_def codec_closed_def codec_writeJSON_def ws_writeJSON_def
  ping_on_closed_def ping_on_reset_def ping_on_timer_def ping_on_pong_def

lemma timer_Stop_stops [simp]: "snd (timer_Stop t) \<noteq> TimerArmed t'"
  by (cases t) auto

lemma ws_inv_new: "ws_inv (newWebsocketCodec canon remote now host req limit)"
  by (simp add: ws_inv_def newWebsocketCodec_def NewFuncCodec_def codec_closed_def make_chan_def
      jsonCodec.defs websocketCodec.defs)

lemma try_send_keeps:
  assumes "ch_cap c = 1" and "\<not> ch_closed c" and "length (ch_buf c) \<le> 1"
  shows "ch_cap (try_send v c) = 1 \<and> \<not> ch_closed (try_send v c) \<and> length (ch_buf (try_send v c)) \<le> 1"
  using assms by (simp add: try_send_def)

lemma ws_inv_turn:
  assumes "ws_inv wc" and "ws_turn e wc = Some (Ret wc')"
  shows "ws_inv wc'"
proof (cases e)
  case (WriteJson err deadline v isError)
  with assms show ?thesis
    using try_send_keeps [of "wc_pingReset wc" "()"]
    by (auto simp: ws_inv_def codec_defs Let_def split: option.splits)
next
  case LoopReset
  with assms show ?thesis
    by (cases "wc_pingTimer wc") (auto simp: ws_inv_def codec_defs Let_def split: if_splits)
next
  case CloseCodec
  with assms show ?thesis by (auto simp: ws_inv_def codec_defs split: if_splits)
next
  case TimerExpires
  with assms show ?thesis by (auto simp: ws_inv_def codec_defs split: if_splits go_timer.splits)
qed (use assms in \<open>auto simp: ws_inv_def codec_defs wsPingInterval_def second_def split: if_splits\<close>)

text \<open>No step of a codec that keeps the invariant panics or blocks for ever.\<close>

lemma ws_turn_returns:
  assumes "ws_inv wc" and "ws_turn e wc = Some r"
  shows "\<exists>wc'. r = Ret wc'"
proof (cases e)
  case LoopReset
  with assms show ?thesis
    by (cases "wc_pingTimer wc") (auto simp: ws_inv_def codec_defs Let_def split: if_splits)
qed (use assms in \<open>auto simp: ws_inv_def codec_defs Let_def split: if_splits go_timer.splits\<close>)

interpretation wsl: turn_system ws_start ws_turn ws_inv
proof
  show "ws_inv wc" if "ws_start wc" for wc using that by cases (simp add: ws_inv_new)
  show "\<exists>wc'. r = Ret wc' \<and> ws_inv wc'" if "ws_inv wc" "ws_turn e wc = Some r" for wc e r
    using ws_turn_returns [OF that] ws_inv_turn that by blast
qed

text \<open>What waits on the loop can go on.\<close>

lemma ws_progress:
  assumes "ws_inv wc"
  shows "codec_closed wc \<Longrightarrow> ws_close_returns wc \<or>
      (\<exists>wc'. ws_turn LoopClosed wc = Some (Ret wc') \<and> ws_close_returns wc')"
    and "wc_pongWaiting wc \<Longrightarrow>
      (\<exists>wc'. (ws_turn LoopPong wc = Some (Ret wc') \<or> ws_turn PongGivesUp wc = Some (Ret wc')) \<and> \<not> wc_pongWaiting wc')"
  using assms by (auto simp: ws_inv_def ws_close_returns_def ping_on_closed_def ping_on_pong_def codec_closed_def)

end
