(* ===== verification/Rpc_Endpoints.thy ===== *)
theory Rpc_Endpoints
  imports Rpc_Codec
begin

text \<open>
  How connections begin and end: \<^verbatim>\<open>ServeCodec\<close> and \<^verbatim>\<open>Stop\<close> of \<^verbatim>\<open>src/rpc/server.go\<close> over any
  number of connections, the accept loop of \<^verbatim>\<open>ipc.go\<close>, \<^verbatim>\<open>endpoints.go\<close>, the IPC server and the
  plain HTTP endpoint of \<^verbatim>\<open>src/server/rpcstack.go\<close>, the websocket handler and the dialing
  functions. Sockets, pipes and the dialer are arguments.

  \<open>serve_turn\<close> is one step of the server with all its connections. Each connection is a
  goroutine in \<^verbatim>\<open>ServeCodec\<close>; the methods of the server hold its mutex and are single steps.

  Shown here: no step panics, exactly the connections being served are tracked, each is closed
  once, and a stopped server lets go of every connection.
\<close>

section \<open>Serving connections\<close>

datatype serve_phase = Accepted | Serving | Ended

record ('v, 's) serving =
  sv_server :: "('v, 's) rpc_server"
  sv_conns :: "jsonCodec list"
  sv_phases :: "serve_phase list"

definition set_conn :: "nat \<Rightarrow> jsonCodec \<Rightarrow> serve_phase \<Rightarrow> ('v, 's) serving \<Rightarrow> ('v, 's) serving" where
  "set_conn p c ph sv = sv\<lparr>sv_conns := (sv_conns sv)[p := c], sv_phases := (sv_phases sv)[p := ph]\<rparr>"

text \<open>
  The two halves of \<^verbatim>\<open>ServeCodec\<close>, before and after the wait for the end of the connection.
  Between them the connection has a client of its own (\<open>initClient\<close>) that answers requests.
\<close>

definition ServeCodec_begin :: "nat \<Rightarrow> ('v, 's) serving \<Rightarrow> ('v, 's) serving outcome" where
  "ServeCodec_begin p sv =
     (case trackCodec p (sv_server sv) of
        (False, s) \<Rightarrow>
          obind (codec_close (sv_conns sv ! p)) (\<lambda>c. Ret (set_conn p c Ended (sv\<lparr>sv_server := s\<rparr>)))
      | (True, s) \<Rightarrow> Ret (set_conn p (sv_conns sv ! p) Serving (sv\<lparr>sv_server := s\<rparr>)))"

definition ServeCodec_end :: "nat \<Rightarrow> ('v, 's) serving \<Rightarrow> ('v, 's) serving outcome" where
  "ServeCodec_end p sv =
     (let s = untrackCodec p (sv_server sv)
      in obind (codec_close (sv_conns sv ! p)) (\<lambda>c. Ret (set_conn p c Ended (sv\<lparr>sv_server := s\<rparr>))))"

definition close_conn :: "nat \<Rightarrow> ('v, 's) serving \<Rightarrow> ('v, 's) serving outcome" where
  "close_conn p sv =
     obind (codec_close (sv_conns sv ! p)) (\<lambda>c. Ret (sv\<lparr>sv_conns := (sv_conns sv)[p := c]\<rparr>))"

definition stop_serving :: "('v, 's) serving \<Rightarrow> ('v, 's) serving outcome" where
  "stop_serving sv =
     (let (cs, s) = rpc_Stop (sv_server sv) in ofold close_conn cs (sv\<lparr>sv_server := s\<rparr>))"

datatype serve_event = Accept string | Begin nat | Hangup nat | End nat | StopServer

text \<open>\<open>Hangup\<close>: the connection's own client closes the codec, after an error or at the peer's end.\<close>

fun serve_turn :: "serve_event \<Rightarrow> ('v, 's) serving \<Rightarrow> ('v, 's) serving outcome option" where
  "serve_turn (Accept remote) sv =
     Some (Ret (sv\<lparr>sv_conns := sv_conns sv @ [NewFuncCodec (Some remote)], sv_phases := sv_phases sv @ [Accepted]\<rparr>))"
| "serve_turn (Begin p) sv =
     (if p < length (sv_phases sv) \<and> sv_phases sv ! p = Accepted then Some (ServeCodec_begin p sv) else None)"
| "serve_turn (Hangup p) sv =
     (if p < length (sv_phases sv) \<and> sv_phases sv ! p = Serving then Some (close_conn p sv) else None)"
| "serve_turn (End p) sv =
     (if p < length (sv_phases sv) \<and> sv_phases sv ! p = Serving \<and> codec_closed (sv_conns sv ! p)
      then Some (ServeCodec_end p sv) else None)"
| "serve_turn StopServer sv = Some (stop_serving sv)"

definition serving_start :: "int \<Rightarrow> int \<Rightarrow> ('v, 's) go_method list \<Rightarrow> ('v, 's) serving" where
  "serving_start itemLimit maxSize rpcService =
     \<lparr>sv_server = SetBatchLimits itemLimit maxSize (rpc_NewServer rpcService), sv_conns = [], sv_phases = []\<rparr>"

inductive serving_init :: "('v, 's) serving \<Rightarrow> bool" where
  "serving_init (serving_start i m svc)"

abbreviation serving_reachable :: "('v, 's) serving \<Rightarrow> bool" where
  "serving_reachable \<equiv> turns_reach serving_init serve_turn"

abbreviation serve_run :: "serve_event list \<Rightarrow> ('v, 's) serving \<Rightarrow> ('v, 's) serving outcome option" where
  "serve_run \<equiv> turns_run serve_turn"

section \<open>Listeners\<close>

text \<open>
  The accept loop over what the listener gives in turn. The result is the remote addresses of
  the connections that were served and the error it returned with; \<open>None\<close> while it waits.
\<close>

datatype accepted = Conn string | TemporaryError string | FatalError string

fun ServeListener :: "accepted list \<Rightarrow> string list \<times> string option" where
  "ServeListener [] = ([], None)"
| "ServeListener (Conn remote # as) = (let (cs, e) = ServeListener as in (remote # cs, e))"
| "ServeListener (TemporaryError err # as) = ServeListener as"
| "ServeListener (FatalError err # as) = ([], Some err)"

text \<open>
  The operating system's calls of \<^verbatim>\<open>ipcListen\<close>, in order: those whose result is used are
  arguments. \<open>dir\<close> is \<^verbatim>\<open>filepath.Dir\<close>.
\<close>

datatype os_call = MkdirAll string nat | Remove string | Listen string | Chmod string nat

definition ipcListen ::
  "(string \<Rightarrow> string) \<Rightarrow> (string \<Rightarrow> string option) \<Rightarrow> (string \<Rightarrow> string + string) \<Rightarrow> string \<Rightarrow>
     os_call list \<times> (string + string)" where
  "ipcListen dir mkdirAll listen endpoint =
     (case mkdirAll (dir endpoint) of
        Some e \<Rightarrow> ([MkdirAll (dir endpoint) 489], Inl e)
      | None \<Rightarrow>
          (let done = [MkdirAll (dir endpoint) 489, Remove endpoint, Listen endpoint]
           in case listen endpoint of
                Inl e \<Rightarrow> (done, Inl e)
              | Inr l \<Rightarrow> (done @ [Chmod endpoint 384], Inr l)))"

fun register_ipc_apis :: "('v, 's) api list \<Rightarrow> ('v, 's) rpc_server \<Rightarrow> string + ('v, 's) rpc_server" where
  "register_ipc_apis [] handler = Inr handler"
| "register_ipc_apis (api # apis) handler =
     (case RegisterName (fst api) (snd api) handler of
        (Some e, _) \<Rightarrow> Inl e
      | (None, handler') \<Rightarrow> register_ipc_apis apis handler')"

definition StartIPCEndpoint ::
  "(string \<Rightarrow> string + string) \<Rightarrow> ('v, 's) go_method list \<Rightarrow> string \<Rightarrow> ('v, 's) api list \<Rightarrow>
     string + string \<times> ('v, 's) rpc_server" where
  "StartIPCEndpoint ipc_listen rpcService ipcEndpoint apis =
     (case register_ipc_apis apis (rpc_NewServer rpcService) of
        Inl e \<Rightarrow> Inl e
      | Inr handler \<Rightarrow>
          (case ipc_listen ipcEndpoint of
             Inl e \<Rightarrow> Inl e
           | Inr listener \<Rightarrow> Inr (listener, handler)))"

record ('v, 's) ipcServer =
  is_endpoint :: string
  is_listener :: "string option"
  is_srv :: "('v, 's) rpc_server option"

definition newIPCServer :: "string \<Rightarrow> ('v, 's) ipcServer" where
  "newIPCServer endpoint = \<lparr>is_endpoint = endpoint, is_listener = None, is_srv = None\<rparr>"

definition ipc_start ::
  "(string \<Rightarrow> string + string) \<Rightarrow> ('v, 's) go_method list \<Rightarrow> ('v, 's) api list \<Rightarrow> ('v, 's) ipcServer \<Rightarrow>
     string option \<times> ('v, 's) ipcServer" where
  "ipc_start ipc_listen rpcService apis is =
     (if is_listener is \<noteq> None then (None, is)
      else case StartIPCEndpoint ipc_listen rpcService (is_endpoint is) apis of
        Inl e \<Rightarrow> (Some e, is)
      | Inr (listener, srv) \<Rightarrow> (None, is\<lparr>is_listener := Some listener, is_srv := Some srv\<rparr>))"

text \<open>Stopping gives the RPC server it stops; \<open>closeErr\<close> is what closing the listener answers.\<close>

definition ipc_stop ::
  "string option \<Rightarrow> ('v, 's) ipcServer \<Rightarrow> ('v, 's) rpc_server list \<times> string option \<times> ('v, 's) ipcServer" where
  "ipc_stop closeErr is =
     (case is_listener is of
        None \<Rightarrow> ([], None, is)
      | Some l \<Rightarrow>
          ((case is_srv is of None \<Rightarrow> [] | Some srv \<Rightarrow> [srv]), closeErr, is\<lparr>is_listener := None, is_srv := None\<rparr>))"

definition StartHTTPEndpoint ::
  "(string \<Rightarrow> string + string) \<Rightarrow> string \<Rightarrow> HTTPTimeouts \<Rightarrow> string + HTTPTimeouts \<times> string" where
  "StartHTTPEndpoint listen endpoint timeouts =
     (case listen endpoint of
        Inl e \<Rightarrow> Inl e
      | Inr addr \<Rightarrow> Inr (CheckTimeouts timeouts, addr))"

text \<open>The names of the registered services, each with its version.\<close>

definition Modules :: "('v, 's) rpc_server \<Rightarrow> string \<Rightarrow> string option" where
  "Modules s name = (if rs_services s name = None then None else Some ''1.0'')"

section \<open>Dialing\<close>

text \<open>A client from a transport's \<^verbatim>\<open>reconnectFunc\<close>: the first connection decides.\<close>

definition newClient :: "string + 'conn \<Rightarrow> string + 'conn \<times> 'v client" where
  "newClient connected = (case connected of Inl e \<Rightarrow> Inl e | Inr conn \<Rightarrow> Inr (conn, initClient))"

definition wsHandshakeError_string :: "string \<Rightarrow> string \<Rightarrow> string" where
  "wsHandshakeError_string err status =
     (if status \<noteq> [] then err @ '' (HTTP status '' @ status @ '')'' else err)"

text \<open>
  \<open>dial\<close>: what the websocket library's dialer answers to a URL and a header: the remote address,
  or an error with the status of the HTTP response if there was one.
\<close>

definition newClientTransportWS ::
  "(string \<Rightarrow> string) \<Rightarrow> (string \<Rightarrow> parsed_url option) \<Rightarrow>
     (string \<Rightarrow> header \<Rightarrow> string \<times> string option + string) \<Rightarrow> int \<Rightarrow> string \<Rightarrow> clientConfig \<Rightarrow>
     string + (string + websocketCodec)" where
  "newClientTransportWS canon urlParse dial now endpoint cfg =
     (case wsClientHeaders canon urlParse endpoint [] of
        None \<Rightarrow> Inl ''parse error''
      | Some (dialURL, header0) \<Rightarrow>
          (let header = fold (\<lambda>(key, vals) h. alist_put key vals h) (headersFromContext (cc_httpHeaders cfg)) header0
           in Inr (case (case cc_httpAuth cfg of None \<Rightarrow> Inr header | Some auth \<Rightarrow> auth header) of
                     Inl e \<Rightarrow> Inl e
                   | Inr header1 \<Rightarrow>
                       (case dial dialURL header1 of
                          Inl (err, status) \<Rightarrow>
                            Inl (wsHandshakeError_string err (case status of None \<Rightarrow> [] | Some st \<Rightarrow> st))
                        | Inr remote \<Rightarrow>
                            Inr (newWebsocketCodec canon remote now dialURL header1 (ws_messageSizeLimit cfg))))))"

definition DialWebsocket ::
  "(string \<Rightarrow> string) \<Rightarrow> (string \<Rightarrow> parsed_url option) \<Rightarrow>
     (string \<Rightarrow> header \<Rightarrow> string \<times> string option + string) \<Rightarrow> int \<Rightarrow> string \<Rightarrow> string \<Rightarrow>
     string + websocketCodec \<times> 'v client" where
  "DialWebsocket canon urlParse dial now endpoint origin =
     (let cfg = (if origin \<noteq> [] then cfg_setHeader canon ''origin'' origin new_config else new_config)
      in case newClientTransportWS canon urlParse dial now endpoint cfg of
           Inl e \<Rightarrow> Inl e
         | Inr connected \<Rightarrow> newClient connected)"

definition DialWebsocketWithDialer ::
  "(string \<Rightarrow> string) \<Rightarrow> (string \<Rightarrow> parsed_url option) \<Rightarrow>
     (nat \<Rightarrow> string \<Rightarrow> header \<Rightarrow> string \<times> string option + string) \<Rightarrow> int \<Rightarrow> string \<Rightarrow> string \<Rightarrow> nat \<Rightarrow>
     string + websocketCodec \<times> 'v client" where
  "DialWebsocketWithDialer canon urlParse dials now endpoint origin dialer =
     (let cfg0 = new_config\<lparr>cc_wsDialer := Some dialer\<rparr>;
          cfg = (if origin \<noteq> [] then cfg_setHeader canon ''origin'' origin cfg0 else cfg0)
      in case newClientTransportWS canon urlParse (dials dialer) now endpoint cfg of
           Inl e \<Rightarrow> Inl e
         | Inr connected \<Rightarrow> newClient connected)"

text \<open>Over a stream: \<open>connect\<close> is what connecting to the socket answers.\<close>

definition newClientTransportIPC :: "(string \<Rightarrow> string + string) \<Rightarrow> string \<Rightarrow> string + jsonCodec" where
  "newClientTransportIPC connect endpoint =
     (case connect endpoint of Inl e \<Rightarrow> Inl e | Inr remote \<Rightarrow> Inr (NewFuncCodec (Some remote)))"

definition DialIPC :: "(string \<Rightarrow> string + string) \<Rightarrow> string \<Rightarrow> string + jsonCodec \<times> 'v client" where
  "DialIPC connect endpoint = newClient (newClientTransportIPC connect endpoint)"

definition stdio_RemoteAddr :: string where
  "stdio_RemoteAddr = ''/dev/stdin''"

definition newClientTransportIO :: "string + jsonCodec" where
  "newClientTransportIO = Inr (NewFuncCodec (Some stdio_RemoteAddr))"

definition DialIO :: "string + jsonCodec \<times> 'v client" where
  "DialIO = newClient newClientTransportIO"

text \<open>
  The websocket endpoint of a server: \<open>upgrade\<close> is the library's, which is given the check of
  the origin and answers an error or the remote address.
\<close>

definition WebsocketHandler ::
  "(string \<Rightarrow> string) \<Rightarrow> (string \<Rightarrow> parsed_url option) \<Rightarrow> string option \<Rightarrow> string list \<Rightarrow>
     ((string option \<Rightarrow> bool) \<Rightarrow> header \<Rightarrow> string + string) \<Rightarrow> int \<Rightarrow> string \<Rightarrow> header \<Rightarrow> websocketCodec option" where
  "WebsocketHandler canon urlParse hostname allowedOrigins upgrade now host hdr =
     (case upgrade (wsHandshakeValidator urlParse hostname allowedOrigins) hdr of
        Inl e \<Rightarrow> None
      | Inr remote \<Rightarrow> Some (newWebsocketCodec canon remote now host hdr wsDefaultReadLimit))"

section \<open>The invariant of the connections\<close>

definition codec_ok :: "jsonCodec \<Rightarrow> bool" where
  "codec_ok c \<longleftrightarrow> codec_closed c = jc_closer c \<and> jc_connClosed c = (if jc_closer c then 1 else 0)"

definition serving_inv :: "('v, 's) serving \<Rightarrow> bool" where
  "serving_inv sv \<longleftrightarrow>
     length (sv_conns sv) = length (sv_phases sv) \<and> list_all codec_ok (sv_conns sv) \<and>
     set (rs_codecs (sv_server sv)) = {p. p < length (sv_phases sv) \<and> sv_phases sv ! p = Serving} \<and>
     (\<forall>p < length (sv_phases sv). sv_phases sv ! p = Ended \<longrightarrow> codec_closed (sv_conns sv ! p)) \<and>
     (\<not> rs_run (sv_server sv) \<longrightarrow>
        (\<forall>p < length (sv_phases sv). sv_phases sv ! p = Serving \<longrightarrow> codec_closed (sv_conns sv ! p)))"

lemma codec_close_ok:
  assumes "codec_ok c"
  obtains c' where "codec_close c = Ret c'" "codec_ok c'" "codec_closed c'" "jc_remote c' = jc_remote c"
  using assms by (cases "jc_closer c") (auto simp: codec_ok_def codec_close_def codec_closed_def)

lemma codec_ok_new: "codec_ok (NewFuncCodec ra)" "\<not> codec_closed (NewFuncCodec ra)"
  by (simp_all add: codec_ok_def codec_closed_def NewFuncCodec_def make_chan_def)

lemma codec_ok_nth: "serving_inv sv \<Longrightarrow> p < length (sv_phases sv) \<Longrightarrow> codec_ok (sv_conns sv ! p)"
  by (simp add: serving_inv_def list_all_length)

text \<open>Closing connections changes nothing else.\<close>

definition closes :: "nat set \<Rightarrow> ('v, 's) serving \<Rightarrow> ('v, 's) serving \<Rightarrow> bool" where
  "closes P sv sv' \<longleftrightarrow>
     sv_server sv' = sv_server sv \<and> sv_phases sv' = sv_phases sv \<and> length (sv_conns sv') = length (sv_conns sv) \<and>
     list_all codec_ok (sv_conns sv') \<and>
     (\<forall>p < length (sv_conns sv). (p \<in> P \<or> codec_closed (sv_conns sv ! p) \<longrightarrow> codec_closed (sv_conns sv' ! p)) \<and>
        (p \<notin> P \<longrightarrow> sv_conns sv' ! p = sv_conns sv ! p))"

lemma close_conn_closes:
  assumes "list_all codec_ok (sv_conns sv)" and "p < length (sv_conns sv)"
  shows "\<exists>sv'. close_conn p sv = Ret sv' \<and> closes {p} sv sv'"
proof -
  obtain c' where "codec_close (sv_conns sv ! p) = Ret c'" "codec_ok c'" "codec_closed c'"
    using assms by (metis codec_close_ok list_all_length)
  with assms show ?thesis
    by (auto simp: close_conn_def closes_def list_all_length nth_list_update)
qed

lemma close_conns_closes:
  assumes "list_all codec_ok (sv_conns sv)" and "set ps \<subseteq> {p. p < length (sv_conns sv)}"
  shows "\<exists>sv'. ofold close_conn ps sv = Ret sv' \<and> closes (set ps) sv sv'"
  using assms
proof (induction ps arbitrary: sv)
  case Nil
  then show ?case by (auto simp: closes_def)
next
  case (Cons p ps)
  then obtain sv1 where 1: "close_conn p sv = Ret sv1" "closes {p} sv sv1" using close_conn_closes [of sv p] by auto
  then have "list_all codec_ok (sv_conns sv1)" "set ps \<subseteq> {p. p < length (sv_conns sv1)}"
    using Cons.prems by (simp_all add: closes_def)
  from Cons.IH [OF this] obtain sv2 where 2: "ofold close_conn ps sv1 = Ret sv2" "closes (set ps) sv1 sv2" by blast
  from 1(2) 2(2) have "closes (set (p # ps)) sv sv2" unfolding closes_def by auto
  with 1(1) 2(1) show ?case by simp
qed

lemma closes_inv: "closes P sv sv' \<Longrightarrow> serving_inv sv \<Longrightarrow> serving_inv sv'"
  unfolding closes_def serving_inv_def by auto

lemma serving_inv_start: "serving_inv (serving_start i m svc)"
  by (simp add: serving_inv_def serving_start_def SetBatchLimits_def)

text \<open>Every enabled step returns and keeps the invariant.\<close>

lemma ServeCodec_begin_inv:
  assumes "serving_inv sv" and "p < length (sv_phases sv)" and "sv_phases sv ! p = Accepted"
  shows "\<exists>sv'. ServeCodec_begin p sv = Ret sv' \<and> serving_inv sv'"
proof -
  obtain c' where "codec_close (sv_conns sv ! p) = Ret c'" "codec_ok c'" "codec_closed c'"
    using codec_ok_nth [OF assms(1,2)] by (rule codec_close_ok)
  with assms show ?thesis
    by (auto simp: ServeCodec_begin_def trackCodec_def set_conn_def serving_inv_def list_all_length nth_list_update)
qed

lemma ServeCodec_end_inv:
  assumes "serving_inv sv" and "p < length (sv_phases sv)"
  shows "\<exists>sv'. ServeCodec_end p sv = Ret sv' \<and> serving_inv sv'"
proof -
  obtain c' where "codec_close (sv_conns sv ! p) = Ret c'" "codec_ok c'" "codec_closed c'"
    using codec_ok_nth [OF assms] by (rule codec_close_ok)
  with assms show ?thesis
    by (auto simp: ServeCodec_end_def untrackCodec_def set_conn_def serving_inv_def list_all_length nth_list_update
        Let_def split: if_splits)
qed

lemma stop_serving_inv:
  assumes "serving_inv sv"
  shows "\<exists>sv'. stop_serving sv = Ret sv' \<and> serving_inv sv' \<and> \<not> rs_run (sv_server sv') \<and> sv_phases sv' = sv_phases sv"
proof (cases "rs_run (sv_server sv)")
  case True
  let ?sv = "sv\<lparr>sv_server := (sv_server sv)\<lparr>rs_run := False\<rparr>\<rparr>"
  have "list_all codec_ok (sv_conns ?sv)" "set (rs_codecs (sv_server sv)) \<subseteq> {p. p < length (sv_conns ?sv)}"
    using assms by (auto simp: serving_inv_def)
  from close_conns_closes [OF this] obtain sv' where
    "ofold close_conn (rs_codecs (sv_server sv)) ?sv = Ret sv'" "closes (set (rs_codecs (sv_server sv))) ?sv sv'" by blast
  moreover from this(2) have "serving_inv sv'"
    using assms unfolding closes_def serving_inv_def by auto
  ultimately show ?thesis using True by (auto simp: stop_serving_def rpc_Stop_def closes_def)
next
  case False
  with assms show ?thesis by (auto simp: stop_serving_def rpc_Stop_def)
qed

lemma serve_turn_inv:
  assumes "serving_inv sv" and "serve_turn e sv = Some r"
  shows "\<exists>sv'. r = Ret sv' \<and> serving_inv sv'"
proof (cases e)
  case (Accept remote)
  with assms show ?thesis by (auto simp: serving_inv_def codec_ok_new nth_append less_Suc_eq)
next
  case (Hangup p)
  with assms have p: "p < length (sv_conns sv)" "list_all codec_ok (sv_conns sv)"
    by (auto simp: serving_inv_def split: if_splits)
  from close_conn_closes [OF p(2,1)] obtain sv' where "close_conn p sv = Ret sv'" "closes {p} sv sv'" by blast
  moreover from this(2) have "serving_inv sv'" using assms(1) by (rule closes_inv)
  moreover have "r = close_conn p sv" using assms(2) Hangup by (simp split: if_splits)
  ultimately show ?thesis by simp
next
  case StopServer
  with stop_serving_inv [OF assms(1)] assms(2) show ?thesis by (metis option.inject serve_turn.simps(5))
qed (use assms ServeCodec_begin_inv ServeCodec_end_inv in \<open>auto split: if_splits\<close>)

interpretation svl: turn_system serving_init serve_turn serving_inv
proof
  show "serving_inv sv" if "serving_init sv" for sv :: "('a, 'b) serving" using that by cases (simp add: serving_inv_start)
  show "\<exists>sv'. r = Ret sv' \<and> serving_inv sv'" if "serving_inv sv" "serve_turn e sv = Some r" for sv :: "('a, 'b) serving" and e r
    using serve_turn_inv [OF that] .
qed

text \<open>A stopped server: one step per connection that has not ended yet, and none is left.\<close>

lemma stopped_conn_ends:
  assumes "serving_inv sv" and "\<not> rs_run (sv_server sv)" and "p < length (sv_phases sv)" and "sv_phases sv ! p \<noteq> Ended"
  shows "\<exists>e sv'. e \<in> {Begin p, End p} \<and> serve_turn e sv = Some (Ret sv') \<and> serving_inv sv' \<and>
    \<not> rs_run (sv_server sv') \<and> sv_phases sv' = (sv_phases sv)[p := Ended]"
proof -
  obtain c' where c: "codec_close (sv_conns sv ! p) = Ret c'" using codec_ok_nth [OF assms(1,3)] by (rule codec_close_ok)
  show ?thesis
  proof (cases "sv_phases sv ! p")
    case Accepted
    then have "serve_turn (Begin p) sv = Some (Ret (set_conn p c' Ended sv))"
      using assms c by (simp add: ServeCodec_begin_def trackCodec_def)
    with serve_turn_inv [OF assms(1) this] assms(2) show ?thesis by (auto simp: set_conn_def)
  next
    case Serving
    then have "codec_closed (sv_conns sv ! p)" using assms by (simp add: serving_inv_def)
    with Serving have "serve_turn (End p) sv =
        Some (Ret (set_conn p c' Ended (sv\<lparr>sv_server := untrackCodec p (sv_server sv)\<rparr>)))"
      using assms c by (simp add: ServeCodec_end_def Let_def)
    with serve_turn_inv [OF assms(1) this] assms(2) show ?thesis by (auto simp: set_conn_def untrackCodec_def)
  qed (use assms in simp)
qed

lemma stopped_conns_end:
  assumes "serving_inv sv" and "\<not> rs_run (sv_server sv)"
  shows "\<exists>es sv'. serve_run es sv = Some (Ret sv') \<and> length es = length (filter (\<lambda>ph. ph \<noteq> Ended) (sv_phases sv)) \<and>
    serving_inv sv' \<and> list_all (\<lambda>ph. ph = Ended) (sv_phases sv') \<and> length (sv_phases sv') = length (sv_phases sv) \<and>
    set es \<subseteq> {e. \<exists>p. e = Begin p \<or> e = End p}"
  using assms
proof (induction "length (filter (\<lambda>ph. ph \<noteq> Ended) (sv_phases sv))" arbitrary: sv)
  case 0
  then have "list_all (\<lambda>ph. ph = Ended) (sv_phases sv)" by (simp add: list_all_iff filter_empty_conv)
  with 0 show ?case by (intro exI [of _ "[]"] exI [of _ sv]) simp
next
  case (Suc n)
  then obtain p where p: "p < length (sv_phases sv)" "sv_phases sv ! p \<noteq> Ended"
    by (metis (mono_tags, lifting) filter_False in_set_conv_nth list.size(3) nat.distinct(1))
  from stopped_conn_ends [OF Suc.prems p] obtain e sv1 where
    e: "e \<in> {Begin p, End p}" "serve_turn e sv = Some (Ret sv1)" "serving_inv sv1" "\<not> rs_run (sv_server sv1)"
      "sv_phases sv1 = (sv_phases sv)[p := Ended]" by blast
  have "filter (\<lambda>ph. ph \<noteq> Ended) (sv_phases sv) =
      filter (\<lambda>ph. ph \<noteq> Ended) (take p (sv_phases sv)) @ sv_phases sv ! p # filter (\<lambda>ph. ph \<noteq> Ended) (drop (Suc p) (sv_phases sv))"
    using p by (subst id_take_nth_drop [of p]) simp_all
  moreover have "filter (\<lambda>ph. ph \<noteq> Ended) (sv_phases sv1) =
      filter (\<lambda>ph. ph \<noteq> Ended) (take p (sv_phases sv)) @ filter (\<lambda>ph. ph \<noteq> Ended) (drop (Suc p) (sv_phases sv))"
    using p by (simp add: e(5) upd_conv_take_nth_drop)
  ultimately have n: "n = length (filter (\<lambda>ph. ph \<noteq> Ended) (sv_phases sv1))" using Suc.hyps(2) by simp
  from Suc.hyps(1) [OF this e(3,4)] obtain es sv' where
    "serve_run es sv1 = Some (Ret sv')" "length es = n" "serving_inv sv'" "list_all (\<lambda>ph. ph = Ended) (sv_phases sv')"
    "length (sv_phases sv') = length (sv_phases sv1)" "set es \<subseteq> {e. \<exists>p. e = Begin p \<or> e = End p}"
    using n by auto
  with e Suc.hyps(2) show ?case by (intro exI [of _ "e # es"] exI [of _ sv']) auto
qed

end
