(* ===== verification/Rpc_Reader.thy ===== *)
theory Rpc_Reader
  imports Rpc_Endpoints Attacker_Rpc
begin

text \<open>
  The rest of \<^verbatim>\<open>src/rpc/client.go\<close> around one connection: the goroutine \<^verbatim>\<open>read\<close>, which hands
  messages and one error to the dispatch loop over channels without buffer, \<^verbatim>\<open>drainRead\<close>, which
  lets it end when the connection is closed or replaced, \<^verbatim>\<open>wait\<close> and \<^verbatim>\<open>Close\<close>; the making and
  closing of a handler in \<^verbatim>\<open>handler.go\<close>; in-process clients (\<^verbatim>\<open>inproc.go\<close>) and the list of modules.
  The connection gives what the peer sent before it was closed, and then an error.

  Shown here: the dispatch loop handles what the peer sent, in order and once; draining ends, and
  with it the reader, after at most two steps per message that is left; closing a handler leaves
  no waiting request and no subscription.
\<close>

section \<open>Reading\<close>

datatype read_result = ReadOk json | ReadSyntaxError string | ReadBroken string

datatype reader = Decoding | OffersOp json | OffersErr string | ReaderEnded

datatype dispatcher = Dispatching | Draining | Drained | NotReading

text \<open>\<open>rd_input\<close>: what has arrived and was not decoded yet. \<open>rd_told\<close> records all that ever arrived.\<close>

record read_world =
  rd_input :: "read_result list"
  rd_closed :: bool
  rd_reader :: reader
  rd_dispatch :: dispatcher
  rd_written :: "jsonrpcMessage list"
  rd_handled :: "json list"
  rd_told :: "read_result list"

definition read_start :: read_world where
  "read_start =
     \<lparr>rd_input = [], rd_closed = False, rd_reader = Decoding, rd_dispatch = Dispatching, rd_written = [],
      rd_handled = [], rd_told = []\<rparr>"

text \<open>One turn of the loop in \<^verbatim>\<open>read\<close> up to the send on a channel.\<close>

fun client_read :: "read_result \<Rightarrow> read_world \<Rightarrow> read_world" where
  "client_read (ReadOk raw) w = w\<lparr>rd_reader := OffersOp raw\<rparr>"
| "client_read (ReadSyntaxError err) w =
     w\<lparr>rd_written := rd_written w @ [errorMessage (parseError err)], rd_reader := OffersErr err\<rparr>"
| "client_read (ReadBroken err) w = w\<lparr>rd_reader := OffersErr err\<rparr>"

datatype read_event =
    PeerSends read_result
  | CodecGives
  | DispatchOp
  | DispatchErr
  | CloseConn
  | DrainOp
  | DrainErr

definition closed_error :: string where
  "closed_error = ''use of closed network connection''"

text \<open>
  \<open>CloseConn\<close>: the dispatch loop closes the connection, because the client is closed or has
  reconnected, and starts to drain. After a read error it closes the connection as well.
\<close>

fun read_turn :: "read_event \<Rightarrow> read_world \<Rightarrow> read_world outcome option" where
  "read_turn (PeerSends r) w =
     (if rd_closed w then None else Some (Ret (w\<lparr>rd_input := rd_input w @ [r], rd_told := rd_told w @ [r]\<rparr>)))"
| "read_turn CodecGives w =
     (if rd_reader w \<noteq> Decoding then None
      else case rd_input w of
        r # rs \<Rightarrow> Some (Ret (client_read r (w\<lparr>rd_input := rs\<rparr>)))
      | [] \<Rightarrow> if rd_closed w then Some (Ret (client_read (ReadBroken closed_error) w)) else None)"
| "read_turn DispatchOp w =
     (case rd_reader w of
        OffersOp raw \<Rightarrow>
          if rd_dispatch w = Dispatching
          then Some (Ret (w\<lparr>rd_reader := Decoding, rd_handled := rd_handled w @ [raw]\<rparr>)) else None
      | _ \<Rightarrow> None)"
| "read_turn DispatchErr w =
     (case rd_reader w of
        OffersErr err \<Rightarrow>
          if rd_dispatch w = Dispatching
          then Some (Ret (w\<lparr>rd_reader := ReaderEnded, rd_dispatch := NotReading, rd_closed := True\<rparr>)) else None
      | _ \<Rightarrow> None)"
| "read_turn CloseConn w =
     (if rd_dispatch w = Dispatching then Some (Ret (w\<lparr>rd_closed := True, rd_dispatch := Draining\<rparr>)) else None)"
| "read_turn DrainOp w =
     (case rd_reader w of
        OffersOp raw \<Rightarrow> if rd_dispatch w = Draining then Some (Ret (w\<lparr>rd_reader := Decoding\<rparr>)) else None
      | _ \<Rightarrow> None)"
| "read_turn DrainErr w =
     (case rd_reader w of
        OffersErr err \<Rightarrow>
          if rd_dispatch w = Draining
          then Some (Ret (w\<lparr>rd_reader := ReaderEnded, rd_dispatch := Drained\<rparr>)) else None
      | _ \<Rightarrow> None)"

abbreviation read_reachable :: "read_world \<Rightarrow> bool" where
  "read_reachable \<equiv> turns_reach (\<lambda>w. w = read_start) read_turn"

section \<open>Waiting and closing\<close>

text \<open>
  The outcomes that the \<^verbatim>\<open>select\<close> of \<^verbatim>\<open>wait\<close> can choose from: the end of the context (\<open>ctxErr\<close>), a
  value of the channel, or the zero value of a closed channel.
\<close>

definition op_wait :: "client_error option \<Rightarrow> requestOp \<Rightarrow> (jsonrpcMessage list \<times> client_error option) list" where
  "op_wait ctxErr op =
     (case ctxErr of None \<Rightarrow> [] | Some e \<Rightarrow> [([], Some e)]) @
     (case op_resp op of
        None \<Rightarrow> []
      | Some ch \<Rightarrow>
          (case ch_buf ch of r # _ \<Rightarrow> [(r, op_err op)] | [] \<Rightarrow> if ch_closed ch then [([], op_err op)] else []))"

text \<open>A handler of a new connection, and what closing it does to both halves of it.\<close>

definition newHandler ::
  "('v, 's) serviceRegistry \<Rightarrow> int \<Rightarrow> int \<Rightarrow> ('v, 's) hconf \<Rightarrow> 'v chandler \<Rightarrow> 's hstate \<Rightarrow>
     ('v, 's) hconf \<times> 'v chandler \<times> 's hstate" where
  "newHandler reg batchRequestLimit batchResponseMaxSize H h hs =
     (H\<lparr>hc_reg := reg, hc_allowSubscribe := True, hc_batchRequestLimit := batchRequestLimit,
        hc_batchResponseMaxSize := batchResponseMaxSize\<rparr>,
      h\<lparr>hh_respWait := [], hh_clientSubs := []\<rparr>, hs\<lparr>hs_serverSubs := []\<rparr>)"

definition handler_close ::
  "(nat \<Rightarrow> json \<Rightarrow> string + 'v) \<Rightarrow> client_error \<Rightarrow> nat option \<Rightarrow> 'v chandler \<times> 's hstate \<Rightarrow>
     ('v chandler \<times> 's hstate) outcome" where
  "handler_close un err inflightReq hh =
     obind (cancelAllRequests un err inflightReq (fst hh)) (\<lambda>h.
     Ret (h, snd (cancelServerSubscriptions (snd hh))))"

definition clientConn_close ::
  "(nat \<Rightarrow> json \<Rightarrow> string + 'v) \<Rightarrow> client_error \<Rightarrow> nat option \<Rightarrow> ('v chandler \<times> 's hstate) \<times> jsonCodec \<Rightarrow>
     (('v chandler \<times> 's hstate) \<times> jsonCodec) outcome" where
  "clientConn_close un err inflightReq cc =
     obind (handler_close un err inflightReq (fst cc)) (\<lambda>hh. obind (codec_close (snd cc)) (\<lambda>c. Ret (hh, c)))"

text \<open>\<^verbatim>\<open>Close\<close>: nothing over HTTP; otherwise the dispatch loop is told, unless it has ended already.\<close>

definition Client_Close ::
  "(nat \<Rightarrow> json \<Rightarrow> string + 'v) \<Rightarrow> int \<Rightarrow> bool \<Rightarrow> 'v client \<Rightarrow> 'v client outcome" where
  "Client_Close un limit isHTTP c =
     (if isHTTP then Ret c
      else case client_turn un limit CloseClient c of Some r \<Rightarrow> r | None \<Rightarrow> Ret c)"

text \<open>A client over HTTP: the URL is only checked; there is nothing to connect to yet.\<close>

definition DialHTTPWithClient ::
  "(string \<Rightarrow> string) \<Rightarrow> (string \<Rightarrow> parsed_url option) \<Rightarrow> string \<Rightarrow> nat \<Rightarrow> string + httpConn \<times> 'v client" where
  "DialHTTPWithClient canon urlParse endpoint httpClient =
     (case urlParse endpoint of
        None \<Rightarrow> Inl ''parse error''
      | Some u \<Rightarrow>
          (let cfg = new_config\<lparr>cc_httpClient := Some httpClient\<rparr>
           in newClient (Inr \<lparr>hn_url = endpoint, hn_headers = newClientTransportHTTP canon cfg, hn_closeOnce = False,
                              hn_closeCh = make_chan 0\<rparr>)))"

definition DialHTTP ::
  "(string \<Rightarrow> string) \<Rightarrow> (string \<Rightarrow> parsed_url option) \<Rightarrow> string \<Rightarrow> string + httpConn \<times> 'v client" where
  "DialHTTP canon urlParse endpoint = DialHTTPWithClient canon urlParse endpoint 0"

section \<open>Identifiers\<close>

text \<open>
  The seed of the generator is eight bytes of the system's random source (\<open>crand\<close>), or the clock
  if there is none. \<open>rng\<close> is Go's generator: its next bytes and its next state.
\<close>

definition be_uint64 :: "string \<Rightarrow> u64" where
  "be_uint64 buf = fold (\<lambda>c n. n * 256 + of_nat (of_char c)) buf 0"

definition id_seed :: "string option \<Rightarrow> int \<Rightarrow> int" where
  "id_seed crand nanosecond = (case crand of Some buf \<Rightarrow> int_of_u64 (be_uint64 buf) | None \<Rightarrow> nanosecond)"

definition NewID :: "('g \<Rightarrow> nat \<Rightarrow> string \<times> 'g) \<Rightarrow> 'g \<Rightarrow> string \<times> 'g" where
  "NewID rng g = (let (bytes, g') = rng g 16 in (encodeID bytes, g'))"

section \<open>In-process clients and modules\<close>

text \<open>The pipe has no address worth a name; one end is served, the other belongs to the client.\<close>

definition DialInProc ::
  "('v, 's) serving \<Rightarrow> ('v, 's) serving outcome option \<times> (string + jsonCodec \<times> 'v client)" where
  "DialInProc sv = (serve_turn (Accept ''pipe'') sv, newClient (Inr (NewFuncCodec (Some ''pipe''))))"

text \<open>
  \<^verbatim>\<open>SupportedModules\<close> calls \<^verbatim>\<open>rpc_modules\<close> with a map for the result; \<open>post\<close> sends the call.
\<close>

definition modules_value :: "json \<Rightarrow> string + (string \<times> string) list" where
  "modules_value j =
     (case j of
        JObj fs \<Rightarrow>
          if list_all (\<lambda>f. \<not> snd (dec_string (snd f) [])) fs
          then Inr (map (\<lambda>f. (fst f, fst (dec_string (snd f) []))) fs) else Inl bad_value
      | JNull \<Rightarrow> Inr []
      | _ \<Rightarrow> Inl bad_value)"

definition SupportedModules ::
  "(jsonrpcMessage \<Rightarrow> ('s, client_error + http_resp) gom) \<Rightarrow> 'v client \<Rightarrow>
     ('s, client_error + (string \<times> string) list option) gom" where
  "SupportedModules post cl =
     (case newMessage ''rpc_modules'' None cl of
        (Inl e, _) \<Rightarrow> gret (Inl (OtherError e))
      | (Inr msg, _) \<Rightarrow> gbind (post msg) (\<lambda>answer. glift (CallContext_http (Some modules_value) answer)))"

section \<open>Facts about reading\<close>

fun read_values :: "read_result list \<Rightarrow> json list" where
  "read_values [] = []"
| "read_values (ReadOk raw # rs) = raw # read_values rs"
| "read_values (_ # rs) = []"

text \<open>
  What was decoded is what was handled, in order, and what the reader has in hand. All that was
  told is decoded or still to come.
\<close>

fun in_hand :: "reader \<Rightarrow> json list \<Rightarrow> read_result list \<Rightarrow> bool" where
  "in_hand Decoding handled taken = (taken = map ReadOk handled)"
| "in_hand (OffersOp raw) handled taken = (taken = map ReadOk (handled @ [raw]))"
| "in_hand (OffersErr err) handled taken = (\<exists>r. taken = map ReadOk handled @ [r] \<and> (\<forall>raw. r \<noteq> ReadOk raw))"
| "in_hand ReaderEnded handled taken = False"

definition read_inv :: "read_world \<Rightarrow> bool" where
  "read_inv w \<longleftrightarrow>
     (\<exists>taken. rd_told w = taken @ rd_input w \<and>
        (rd_dispatch w = Dispatching \<longrightarrow> in_hand (rd_reader w) (rd_handled w) taken) \<and>
        (\<exists>rest. taken = map ReadOk (rd_handled w) @ rest)) \<and>
     (rd_dispatch w = Dispatching \<longrightarrow> \<not> rd_closed w) \<and> (rd_dispatch w = Draining \<longrightarrow> rd_closed w) \<and>
     (rd_reader w = ReaderEnded \<longleftrightarrow> rd_dispatch w \<in> {Drained, NotReading})"

lemma client_read_simps [simp]:
  "rd_input (client_read r w) = rd_input w" "rd_closed (client_read r w) = rd_closed w"
  "rd_dispatch (client_read r w) = rd_dispatch w" "rd_handled (client_read r w) = rd_handled w"
  "rd_told (client_read r w) = rd_told w" "rd_reader (client_read r w) \<noteq> ReaderEnded" "rd_reader (client_read r w) \<noteq> Decoding"
  by (cases r; simp)+

lemma read_inv_gives:
  assumes "read_inv w" and "rd_reader w = Decoding" and "rd_input w = r # rs"
  shows "read_inv (client_read r (w\<lparr>rd_input := rs\<rparr>))"
proof -
  let ?w = "client_read r (w\<lparr>rd_input := rs\<rparr>)"
  from assms obtain taken rest where t: "rd_told w = taken @ r # rs" "taken = map ReadOk (rd_handled w) @ rest"
    "rd_dispatch w = Dispatching \<longrightarrow> rest = []"
    unfolding read_inv_def by auto
  have "rd_told ?w = (taken @ [r]) @ rd_input ?w" using t(1) by simp
  moreover have "rd_dispatch ?w = Dispatching \<longrightarrow> in_hand (rd_reader ?w) (rd_handled ?w) (taken @ [r])"
    using t(2,3) by (cases r) simp_all
  moreover have "\<exists>rest. taken @ [r] = map ReadOk (rd_handled ?w) @ rest" using t(2) by simp
  ultimately have "\<exists>taken. rd_told ?w = taken @ rd_input ?w \<and>
      (rd_dispatch ?w = Dispatching \<longrightarrow> in_hand (rd_reader ?w) (rd_handled ?w) taken) \<and>
      (\<exists>rest. taken = map ReadOk (rd_handled ?w) @ rest)" by blast
  then show ?thesis using assms(1,2) unfolding read_inv_def by simp
qed

lemma read_turn_inv:
  assumes "read_inv w" and "read_turn e w = Some r"
  shows "\<exists>w'. r = Ret w' \<and> read_inv w'"
proof (cases e)
  case CodecGives
  show ?thesis
  proof (cases "rd_input w")
    case Nil
    with assms CodecGives have "rd_closed w" "rd_reader w = Decoding" "r = Ret (w\<lparr>rd_reader := OffersErr closed_error\<rparr>)"
      by (auto split: if_splits)
    with assms(1) show ?thesis by (auto simp: read_inv_def)
  next
    case (Cons r' rs)
    with assms(2) CodecGives have "rd_reader w = Decoding" "r = Ret (client_read r' (w\<lparr>rd_input := rs\<rparr>))"
      by (auto split: if_splits)
    with read_inv_gives [OF assms(1) _ Cons] show ?thesis by blast
  qed
qed (use assms in \<open>auto simp: read_inv_def split: if_splits reader.splits\<close>)

interpretation rdl: turn_system "\<lambda>w. w = read_start" read_turn read_inv
proof
  show "read_inv w" if "w = read_start" for w using that by (simp add: read_inv_def read_start_def)
  show "\<exists>w'. r = Ret w' \<and> read_inv w'" if "read_inv w" "read_turn e w = Some r" for w e r
    using read_turn_inv [OF that] .
qed

text \<open>Draining ends: how many steps it takes at most.\<close>

definition drain_steps :: "read_event set" where
  "drain_steps = {CodecGives, DrainOp, DrainErr}"

fun reader_left :: "reader \<Rightarrow> nat" where
  "reader_left Decoding = 2"
| "reader_left (OffersOp raw) = 3"
| "reader_left (OffersErr err) = 1"
| "reader_left ReaderEnded = 0"

definition drain_left :: "read_world \<Rightarrow> nat" where
  "drain_left w = 2 * length (rd_input w) + reader_left (rd_reader w)"

lemma drain_progress:
  assumes "read_inv w" and "rd_dispatch w = Draining"
  shows "\<exists>e w'. e \<in> drain_steps \<and> read_turn e w = Some (Ret w') \<and> drain_left w' < drain_left w \<and>
    rd_dispatch w' \<in> {Draining, Drained}"
proof (cases "rd_reader w")
  case Decoding
  show ?thesis
  proof (cases "rd_input w")
    case Nil
    then show ?thesis using assms Decoding
      by (intro exI [of _ CodecGives] exI [of _ "client_read (ReadBroken closed_error) w"])
        (simp add: drain_steps_def drain_left_def read_inv_def)
  next
    case (Cons r rs)
    then show ?thesis using assms Decoding
      by (intro exI [of _ CodecGives] exI [of _ "client_read r (w\<lparr>rd_input := rs\<rparr>)"])
        (cases r; simp add: drain_steps_def drain_left_def)
  qed
next
  case (OffersOp raw)
  then show ?thesis using assms
    by (intro exI [of _ DrainOp] exI [of _ "w\<lparr>rd_reader := Decoding\<rparr>"]) (simp add: drain_steps_def drain_left_def)
next
  case (OffersErr err)
  then show ?thesis using assms
    by (intro exI [of _ DrainErr] exI [of _ "w\<lparr>rd_reader := ReaderEnded, rd_dispatch := Drained\<rparr>"])
      (simp add: drain_steps_def drain_left_def)
qed (use assms in \<open>simp add: read_inv_def\<close>)

lemma drainRead_returns:
  assumes "read_inv w" and "rd_dispatch w = Draining"
  shows "\<exists>es w'. set es \<subseteq> drain_steps \<and> length es \<le> drain_left w \<and> turns_run read_turn es w = Some (Ret w') \<and>
    rd_dispatch w' = Drained"
  using assms
proof (induction "drain_left w" arbitrary: w rule: less_induct)
  case less
  from drain_progress [OF less.prems] obtain e w1 where
    e: "e \<in> drain_steps" "read_turn e w = Some (Ret w1)" "drain_left w1 < drain_left w" "rd_dispatch w1 \<in> {Draining, Drained}"
    by blast
  show ?case
  proof (cases "rd_dispatch w1 = Drained")
    case True
    then show ?thesis using e by (intro exI [of _ "[e]"] exI [of _ w1]) simp
  next
    case False
    with e(4) have "rd_dispatch w1 = Draining" by simp
    moreover have "read_inv w1" using read_turn_inv [OF less.prems(1) e(2)] by auto
    ultimately obtain es w' where
      "set es \<subseteq> drain_steps" "length es \<le> drain_left w1" "turns_run read_turn es w1 = Some (Ret w')" "rd_dispatch w' = Drained"
      using less.hyps [OF e(3)] by blast
    with e show ?thesis by (intro exI [of _ "e # es"] exI [of _ w']) simp
  qed
qed

section \<open>Facts about waiting and closing\<close>

text \<open>What a caller of the client returns is what its \<^verbatim>\<open>wait\<close> may choose.\<close>

lemma receive_waits:
  assumes "client_turn un limit (Receive p) c = Some (Ret c')"
  shows "\<exists>r err. caller_at p c' = Some (Returned r err) \<and> (r, err) \<in> set (op_wait None (hh_ops (cl_h c) ! p))"
proof -
  obtain ch where ch: "caller_at p c = Some Waiting" "op_resp (hh_ops (cl_h c) ! p) = Some ch"
    using assms by (auto split: option.splits caller.splits)
  then have p: "p < length (cl_callers c)" by (simp add: caller_at_def split: if_splits)
  show ?thesis
  proof (cases "ch_buf ch")
    case Nil
    with ch assms p show ?thesis by (auto simp: op_wait_def caller_at_def set_caller_def split: if_splits)
  next
    case (Cons r rs)
    with ch assms p show ?thesis by (auto simp: op_wait_def caller_at_def set_caller_def)
  qed
qed

text \<open>A closed handler waits for nothing and has no subscription of either side.\<close>

lemma handler_close_empties:
  assumes "store_ok (fst hh)"
  shows "\<exists>h hs. handler_close un err infl hh = Ret (h, hs) \<and> store_ok h \<and> hh_respWait h = [] \<and>
    hh_clientSubs h = [] \<and> hs_serverSubs hs = []"
proof -
  from cancelAllRequests_ok [OF assms] obtain h where
    "cancelAllRequests un err infl (fst hh) = Ret h" "store_ok h" "hh_respWait h = []" "hh_clientSubs h = []" by blast
  then show ?thesis by (simp add: handler_close_def cancelServerSubscriptions_def gmodify_def)
qed

lemma clientConn_close_returns:
  assumes "store_ok (fst (fst cc))" and "codec_ok (snd cc)"
  shows "\<exists>hh c. clientConn_close un err infl cc = Ret (hh, c) \<and> hh_respWait (fst hh) = [] \<and> codec_closed c \<and> jc_connClosed c = 1"
proof -
  from handler_close_empties [OF assms(1)] obtain h hs where h: "handler_close un err infl (fst cc) = Ret (h, hs)" "hh_respWait h = []"
    by blast
  from assms(2) obtain c where "codec_close (snd cc) = Ret c" "codec_ok c" "codec_closed c" by (rule codec_close_ok)
  with h show ?thesis by (simp add: clientConn_close_def codec_ok_def)
qed

text \<open>\<^verbatim>\<open>Close\<close> returns in every reachable state, and a client that is not HTTP has ended then.\<close>

lemma Client_Close_ends:
  assumes "client_reachable un limit c"
  shows "\<exists>c'. Client_Close un limit isHTTP c = Ret c' \<and> (isHTTP \<or> \<not> cl_running c')"
proof (cases "isHTTP \<or> \<not> cl_running c")
  case True
  then show ?thesis by (auto simp: Client_Close_def)
next
  case False
  then obtain r where r: "client_turn un limit CloseClient c = Some r" by simp
  from client_turn_ok [OF client_inv_reachable [OF assms] r] obtain c' where c': "r = Ret c'" by blast
  with r False have "\<not> cl_running c'" by (auto simp: obind_Ret_iff)
  with r c' False show ?thesis by (simp add: Client_Close_def)
qed

text \<open>A new HTTP client says that it sends and accepts JSON.\<close>

lemma DialHTTP_headers:
  assumes "DialHTTP canon urlParse endpoint = Inr (hc, cl)" and "canon ''accept'' \<noteq> canon ''content-type''"
  shows "header_Get canon ''content-type'' (hn_headers hc) = contentType \<and> header_Get canon ''accept'' (hn_headers hc) = contentType"
  using assms
  by (auto simp: DialHTTP_def DialHTTPWithClient_def newClient_def newClientTransportHTTP_def new_config_def headersFromContext_def
      header_Get_def header_Set_def Let_def split: option.splits)

text \<open>The modules are those of the APIs that were registered, and those that were there before.\<close>

lemma RegisterName_modules:
  assumes "RegisterName name ms s = (None, s')"
  shows "Modules s' n = (if n = name then Some ''1.0'' else Modules s n)"
  using assms by (auto simp: RegisterName_def registerName_def Modules_def Let_def split: sum.splits if_splits)

lemma register_allowed_modules:
  "register_allowed allowList apis srv = (None, srv') \<Longrightarrow>
   Modules srv' n =
     (if n \<in> fst ` set (filter (\<lambda>api. fst api \<in> set allowList \<or> allowList = []) apis) then Some ''1.0'' else Modules srv n)"
proof (induction allowList apis srv rule: register_allowed.induct)
  case (2 allowList api apis srv)
  show ?case
  proof (cases "fst api \<in> set allowList \<or> allowList = []")
    case True
    with "2.prems" obtain srv1 where r: "RegisterName (fst api) (snd api) srv = (None, srv1)"
      "register_allowed allowList apis srv1 = (None, srv')"
      by (auto split: prod.splits option.splits)
    with "2.IH"(1) [OF True r(1) [symmetric] refl] RegisterName_modules [OF r(1)] True show ?thesis by auto
  next
    case False
    with "2" show ?thesis by auto
  qed
qed simp

end
