(* ===== verification/Rpc_Unsubscribe.thy ===== *)
theory Rpc_Unsubscribe
  imports Rpc_Client Turn_System
begin

text \<open>
  \<^verbatim>\<open>src/rpc/subscription.go\<close>, the end of a client subscription: \<^verbatim>\<open>run\<close> with its forwarding loop,
  the dispatch loop that delivers values and errors, and \<^verbatim>\<open>Unsubscribe\<close>, which may be called at
  any time and any number of times; \<open>unsub_turn\<close> interleaves them. Further callers of
  \<^verbatim>\<open>Unsubscribe\<close> wait in \<^verbatim>\<open>errOnce\<close> for the first one. \<open>un_asked\<close> counts the calls of
  \<^verbatim>\<open>requestUnsubscribe\<close>. The guards of \<^verbatim>\<open>Subscribe\<close> in \<^verbatim>\<open>client.go\<close> are here as well.

  Shown here: no step panics or blocks for ever, the error channel is closed only when nothing
  can be sent to it any more, and the server is asked to unsubscribe at most once, exactly when
  the loop ended by \<^verbatim>\<open>Unsubscribe\<close>, by a value that does not decode, or by an overflow.
\<close>

section \<open>Subscribing\<close>

datatype channel_arg = NotAChannel | ReceiveOnly | NilChannel | WritableChannel

definition Subscribe_guard :: "bool \<Rightarrow> channel_arg \<Rightarrow> rpc_error option outcome" where
  "Subscribe_guard isHTTP channel =
     (case channel of
        NotAChannel \<Rightarrow> Panic (Explicit ''channel argument of Subscribe needs writable channel'')
      | ReceiveOnly \<Rightarrow> Panic (Explicit ''channel argument of Subscribe needs writable channel'')
      | NilChannel \<Rightarrow> Panic (Explicit ''channel given to Subscribe must not be nil'')
      | WritableChannel \<Rightarrow> Ret (if isHTTP then Some notificationsUnsupportedError else None))"

text \<open>
  \<^verbatim>\<open>Subscribe\<close> up to \<^verbatim>\<open>send\<close>: an error, or the client with the new request and its subscription.
  What follows are the steps of the client.
\<close>

definition Subscribe ::
  "bool \<Rightarrow> channel_arg \<Rightarrow> string \<Rightarrow> params \<Rightarrow> 'v client \<Rightarrow> (rpc_error + 'v client) outcome" where
  "Subscribe isHTTP channel namespace ps c =
     obind (Subscribe_guard isHTTP channel) (\<lambda>e.
     Ret (case e of Some err \<Rightarrow> Inl err | None \<Rightarrow> Inr (start_request (RSubscribe namespace ps) c)))"

definition EthSubscribe ::
  "bool \<Rightarrow> channel_arg \<Rightarrow> params \<Rightarrow> 'v client \<Rightarrow> (rpc_error + 'v client) outcome" where
  "EthSubscribe isHTTP channel ps c = Subscribe isHTTP channel ''eth'' ps c"

definition ShhSubscribe ::
  "bool \<Rightarrow> channel_arg \<Rightarrow> params \<Rightarrow> 'v client \<Rightarrow> (rpc_error + 'v client) outcome" where
  "ShhSubscribe isHTTP channel ps c = Subscribe isHTTP channel ''shh'' ps c"

definition SupportsSubscriptions :: "bool \<Rightarrow> bool" where
  "SupportsSubscriptions isHTTP = (\<not> isHTTP)"

text \<open>A client subscribes exactly where it says it can, given a channel it can send to.\<close>

lemma Subscribe_supported:
  "(\<exists>c'. Subscribe isHTTP WritableChannel ns ps c = Ret (Inr c')) \<longleftrightarrow> SupportsSubscriptions isHTTP"
  by (simp add: Subscribe_def Subscribe_guard_def SupportsSubscriptions_def)

section \<open>Unsubscribing\<close>

datatype run_phase = Forwarding | Asking | Reporting | Closing | RunDone

datatype once_phase = NotCalled | Selecting | AwaitDone | OnceDone

record 'v unsub_state =
  un_fw :: "'v forward_state"
  un_run :: run_phase
  un_forwardDone :: "unit chan"
  un_unsubDone :: "unit chan"
  un_err :: "client_error option chan"
  un_once :: once_phase
  un_asked :: nat

definition unsub_start :: "'v unsub_state" where
  "unsub_start =
     \<lparr>un_fw = forward_start, un_run = Forwarding, un_forwardDone = make_chan 0, un_unsubDone = make_chan 0,
      un_err = make_chan 1, un_once = NotCalled, un_asked = 0\<rparr>"

text \<open>The steps of \<^verbatim>\<open>run\<close> after the loop.\<close>

definition run_forwarded :: "bool \<times> client_error option \<Rightarrow> 'v unsub_state \<Rightarrow> 'v unsub_state outcome" where
  "run_forwarded r s =
     obind (chan_close (Some (un_forwardDone s))) (\<lambda>c.
     Ret (s\<lparr>un_forwardDone := the c, un_run := (if fst r then Asking else Reporting)\<rparr>))"

definition requestUnsubscribe :: "'v unsub_state \<Rightarrow> 'v unsub_state" where
  "requestUnsubscribe s = s\<lparr>un_asked := Suc (un_asked s), un_run := Reporting\<rparr>"

definition run_report :: "bool \<times> client_error option \<Rightarrow> 'v unsub_state \<Rightarrow> 'v unsub_state outcome" where
  "run_report r s =
     (case snd (run_end r) of
        None \<Rightarrow> Ret (s\<lparr>un_run := Closing\<rparr>)
      | Some err \<Rightarrow>
          obind (chan_send err (Some (un_err s))) (\<lambda>c. Ret (s\<lparr>un_err := the c, un_run := Closing\<rparr>)))"

definition run_close :: "'v unsub_state \<Rightarrow> 'v unsub_state outcome" where
  "run_close s =
     obind (chan_close (Some (un_unsubDone s))) (\<lambda>c. Ret (s\<lparr>un_unsubDone := the c, un_run := RunDone\<rparr>))"

text \<open>The steps of the function that \<^verbatim>\<open>errOnce\<close> runs.\<close>

definition Unsubscribe_finish :: "'v unsub_state \<Rightarrow> 'v unsub_state outcome" where
  "Unsubscribe_finish s =
     obind (chan_close (Some (un_err s))) (\<lambda>c. Ret (s\<lparr>un_err := the c, un_once := OnceDone\<rparr>))"

datatype unsub_event =
    Deliver "json option"
  | ToSubscriber
  | CloseSub "client_error option"
  | RunForwarded
  | RunAsk
  | RunReport
  | RunClose
  | CallUnsubscribe
  | SendQuit
  | SeeDone

text \<open>A subscription is closed by the dispatch loop with an error other than the one of \<^verbatim>\<open>Unsubscribe\<close>.\<close>

fun unsub_turn :: "(json \<Rightarrow> string + 'v) \<Rightarrow> unsub_event \<Rightarrow> 'v unsub_state \<Rightarrow> 'v unsub_state outcome option" where
  "unsub_turn un (Deliver j) s =
     (if un_run s = Forwarding then map_option (\<lambda>fw. Ret (s\<lparr>un_fw := fw\<rparr>)) (forward_turn un (FwIn j) (un_fw s)) else None)"
| "unsub_turn un ToSubscriber s =
     (if un_run s = Forwarding then map_option (\<lambda>fw. Ret (s\<lparr>un_fw := fw\<rparr>)) (forward_turn un FwSend (un_fw s)) else None)"
| "unsub_turn un (CloseSub err) s =
     (if un_run s = Forwarding \<and> err \<noteq> Some ErrUnsubscribed
      then map_option (\<lambda>fw. Ret (s\<lparr>un_fw := fw\<rparr>)) (forward_turn un (FwQuit err) (un_fw s)) else None)"
| "unsub_turn un RunForwarded s =
     (if un_run s = Forwarding then map_option (\<lambda>r. run_forwarded r s) (fw_result (un_fw s)) else None)"
| "unsub_turn un RunAsk s = (if un_run s = Asking then Some (Ret (requestUnsubscribe s)) else None)"
| "unsub_turn un RunReport s =
     (if un_run s = Reporting then map_option (\<lambda>r. run_report r s) (fw_result (un_fw s)) else None)"
| "unsub_turn un RunClose s = (if un_run s = Closing then Some (run_close s) else None)"
| "unsub_turn un CallUnsubscribe s = (if un_once s = NotCalled then Some (Ret (s\<lparr>un_once := Selecting\<rparr>)) else None)"
| "unsub_turn un SendQuit s =
     (if un_once s = Selecting \<and> un_run s = Forwarding
      then map_option (\<lambda>fw. Ret (s\<lparr>un_fw := fw, un_once := AwaitDone\<rparr>))
             (forward_turn un (FwQuit (Some ErrUnsubscribed)) (un_fw s))
      else None)"
| "unsub_turn un SeeDone s =
     (if (un_once s = Selecting \<or> un_once s = AwaitDone) \<and> ch_closed (un_unsubDone s)
      then Some (Unsubscribe_finish s) else None)"

abbreviation unsub_run :: "(json \<Rightarrow> string + 'v) \<Rightarrow> unsub_event list \<Rightarrow> 'v unsub_state \<Rightarrow> 'v unsub_state outcome option" where
  "unsub_run un \<equiv> turns_run (unsub_turn un)"

text \<open>The steps that \<^verbatim>\<open>Unsubscribe\<close> waits for or takes itself.\<close>

definition unsub_steps :: "unsub_event set" where
  "unsub_steps = {RunForwarded, RunAsk, RunReport, RunClose, SendQuit, SeeDone}"

abbreviation unsub_reachable :: "(json \<Rightarrow> string + 'v) \<Rightarrow> 'v unsub_state \<Rightarrow> bool" where
  "unsub_reachable un \<equiv> turns_reach (\<lambda>s. s = unsub_start) (unsub_turn un)"

section \<open>The invariant\<close>

definition asks :: "'v unsub_state \<Rightarrow> bool" where
  "asks s = (case fw_result (un_fw s) of None \<Rightarrow> False | Some r \<Rightarrow> fst r)"

definition unsub_inv :: "'v unsub_state \<Rightarrow> bool" where
  "unsub_inv s \<longleftrightarrow>
     ch_cap (un_err s) = 1 \<and> (un_run s \<noteq> Forwarding \<longrightarrow> fw_result (un_fw s) \<noteq> None) \<and>
     ch_closed (un_forwardDone s) = (un_run s \<noteq> Forwarding) \<and> ch_closed (un_unsubDone s) = (un_run s = RunDone) \<and>
     ch_closed (un_err s) = (un_once s = OnceDone) \<and> (un_once s = OnceDone \<longrightarrow> un_run s = RunDone) \<and>
     (un_run s \<in> {Forwarding, Asking, Reporting} \<longrightarrow> ch_buf (un_err s) = []) \<and>
     (un_run s = Asking \<longrightarrow> asks s) \<and>
     un_asked s = (if un_run s \<in> {Forwarding, Asking} then 0 else if asks s then 1 else 0) \<and>
     (un_once s = AwaitDone \<longrightarrow> fw_result (un_fw s) = Some (True, None))"

lemma unsub_inv_start: "unsub_inv unsub_start"
  by (simp add: unsub_inv_def unsub_start_def make_chan_def forward_start_def asks_def)

lemma forward_turn_running: "forward_turn un e fw = Some fw' \<Longrightarrow> fw_result fw = None"
  by (cases "fw_result fw") (simp_all add: forward_turn_def)

lemma forward_turn_quit: "forward_turn un (FwQuit (Some ErrUnsubscribed)) fw = Some fw' \<Longrightarrow> fw_result fw' = Some (True, None)"
  by (auto simp: forward_turn_def split: if_splits)

text \<open>A turn of the loop is possible only before its end, where the invariant says little.\<close>

lemma unsub_inv_forward:
  assumes "unsub_inv s" and "un_run s = Forwarding" and "forward_turn un e (un_fw s) = Some fw"
  shows "unsub_inv (s\<lparr>un_fw := fw\<rparr>)"
  using assms forward_turn_running [OF assms(3)] by (auto simp: unsub_inv_def)

lemma unsub_turn_inv:
  assumes "unsub_inv s" and "unsub_turn un e s = Some r"
  shows "\<exists>s'. r = Ret s' \<and> unsub_inv s'"
proof (cases e)
  case (Deliver j)
  with assms show ?thesis by (auto split: if_splits intro: unsub_inv_forward)
next
  case ToSubscriber
  with assms show ?thesis by (auto split: if_splits intro: unsub_inv_forward)
next
  case (CloseSub err)
  with assms show ?thesis by (auto split: if_splits intro: unsub_inv_forward)
next
  case SendQuit
  with assms obtain fw where f: "un_run s = Forwarding" "un_once s = Selecting"
    "forward_turn un (FwQuit (Some ErrUnsubscribed)) (un_fw s) = Some fw"
    "r = Ret (s\<lparr>un_fw := fw, un_once := AwaitDone\<rparr>)" by (auto split: if_splits)
  from unsub_inv_forward [OF assms(1) f(1,3)] forward_turn_quit [OF f(3)] f show ?thesis
    by (auto simp: unsub_inv_def asks_def)
next
  case RunReport
  with assms obtain r0 where r0: "un_run s = Reporting" "fw_result (un_fw s) = Some r0" "r = run_report r0 s"
    by (auto split: if_splits)
  show ?thesis
  proof (cases "snd (run_end r0)")
    case None
    with r0 assms(1) show ?thesis by (simp add: run_report_def unsub_inv_def asks_def)
  next
    case (Some err)
    with r0 assms(1) show ?thesis by (auto simp: run_report_def unsub_inv_def asks_def)
  qed
next
  case RunForwarded
  with assms obtain r0 where r0: "un_run s = Forwarding" "fw_result (un_fw s) = Some r0" "r = run_forwarded r0 s"
    by (auto split: if_splits)
  let ?s = "s\<lparr>un_forwardDone := (un_forwardDone s)\<lparr>ch_closed := True\<rparr>, un_run := if fst r0 then Asking else Reporting\<rparr>"
  have "r = Ret ?s" using r0 assms(1) by (simp add: run_forwarded_def unsub_inv_def)
  moreover have "unsub_inv ?s" using assms(1) r0(1,2) by (simp add: unsub_inv_def asks_def)
  ultimately show ?thesis by blast
next
  case RunAsk
  with assms have "un_run s = Asking" "r = Ret (requestUnsubscribe s)" by (auto split: if_splits)
  with assms(1) show ?thesis by (simp add: unsub_inv_def requestUnsubscribe_def asks_def)
next
  case RunClose
  with assms have c: "un_run s = Closing" "r = run_close s" by (auto split: if_splits)
  let ?s = "s\<lparr>un_unsubDone := (un_unsubDone s)\<lparr>ch_closed := True\<rparr>, un_run := RunDone\<rparr>"
  have "r = Ret ?s" using c assms(1) by (simp add: run_close_def unsub_inv_def)
  moreover have "unsub_inv ?s" using assms(1) c(1) by (simp add: unsub_inv_def asks_def)
  ultimately show ?thesis by blast
next
  case CallUnsubscribe
  with assms have "un_once s = NotCalled" "r = Ret (s\<lparr>un_once := Selecting\<rparr>)" by (auto split: if_splits)
  with assms(1) show ?thesis by (simp add: unsub_inv_def asks_def)
next
  case SeeDone
  with assms have c: "un_once s = Selecting \<or> un_once s = AwaitDone" "ch_closed (un_unsubDone s)" "r = Unsubscribe_finish s"
    by (auto split: if_splits)
  let ?s = "s\<lparr>un_err := (un_err s)\<lparr>ch_closed := True\<rparr>, un_once := OnceDone\<rparr>"
  have "r = Ret ?s" using c assms(1) by (auto simp: Unsubscribe_finish_def unsub_inv_def)
  moreover have "unsub_inv ?s" using assms(1) c(2) by (simp add: unsub_inv_def asks_def)
  ultimately show ?thesis by blast
qed

interpretation unl: turn_system "\<lambda>s. s = unsub_start" "unsub_turn un" unsub_inv for un
  by unfold_locales (use unsub_inv_start unsub_turn_inv in blast)+

text \<open>From every state in which \<^verbatim>\<open>Unsubscribe\<close> has been called, its next steps are enabled.\<close>

lemma unsub_progress:
  assumes "unsub_inv s" and "un_once s \<in> {Selecting, AwaitDone}"
  shows "\<exists>e \<in> unsub_steps. unsub_turn un e s \<noteq> None"
proof (cases "un_run s")
  case Forwarding
  show ?thesis
  proof (cases "fw_result (un_fw s)")
    case None
    with assms Forwarding have "un_once s = Selecting" by (auto simp: unsub_inv_def)
    with None Forwarding have "unsub_turn un SendQuit s \<noteq> None" by (simp add: forward_turn_def)
    then show ?thesis unfolding unsub_steps_def by blast
  next
    case (Some r)
    with Forwarding have "unsub_turn un RunForwarded s \<noteq> None" by simp
    then show ?thesis unfolding unsub_steps_def by blast
  qed
next
  case RunDone
  with assms have "unsub_turn un SeeDone s \<noteq> None" by (auto simp: unsub_inv_def)
  then show ?thesis unfolding unsub_steps_def by blast
qed (use assms in \<open>auto simp: unsub_inv_def unsub_steps_def\<close>)

text \<open>How many of those steps are left at most.\<close>

fun steps_left :: "run_phase \<Rightarrow> nat" where
  "steps_left Forwarding = 4"
| "steps_left Asking = 3"
| "steps_left Reporting = 2"
| "steps_left Closing = 1"
| "steps_left RunDone = 0"

definition unsub_measure :: "'v unsub_state \<Rightarrow> nat" where
  "unsub_measure s =
     steps_left (un_run s) + (if fw_result (un_fw s) = None then 1 else 0) + (if un_once s = OnceDone then 0 else 1)"

lemma unsub_measure_falls:
  assumes "unsub_inv s" and "unsub_turn un e s = Some (Ret s')"
    and "e \<in> unsub_steps"
  shows "unsub_measure s' < unsub_measure s"
proof (cases e)
  case RunReport
  with assms show ?thesis
    by (auto simp: unsub_inv_def run_report_def unsub_measure_def split: if_splits option.splits)
next
  case SendQuit
  with assms obtain fw where f: "un_run s = Forwarding" "un_once s = Selecting"
    "forward_turn un (FwQuit (Some ErrUnsubscribed)) (un_fw s) = Some fw"
    "s' = s\<lparr>un_fw := fw, un_once := AwaitDone\<rparr>" by (auto split: if_splits)
  with forward_turn_running [OF f(3)] forward_turn_quit [OF f(3)] show ?thesis by (simp add: unsub_measure_def)
next
  case RunForwarded
  with assms show ?thesis by (auto simp: unsub_inv_def run_forwarded_def unsub_measure_def split: if_splits)
qed (use assms in \<open>auto simp: unsub_inv_def requestUnsubscribe_def run_close_def Unsubscribe_finish_def unsub_measure_def
    unsub_steps_def split: if_splits\<close>)

lemma run_report_once: "run_report r s = Ret s' \<Longrightarrow> un_once s' = un_once s"
  by (auto simp: run_report_def obind_Ret_iff split: option.splits)

lemma unsub_steps_called:
  assumes "unsub_turn un e s = Some (Ret s')" and "e \<in> unsub_steps" and "un_once s \<in> {Selecting, AwaitDone}"
  shows "un_once s' \<in> {Selecting, AwaitDone, OnceDone}"
proof -
  have "un_once s' \<in> {un_once s, AwaitDone, OnceDone}"
    using assms(1,2)
    by (auto simp: unsub_steps_def run_forwarded_def requestUnsubscribe_def run_close_def Unsubscribe_finish_def
        obind_Ret_iff dest: run_report_once split: if_splits)
  with assms(3) show ?thesis by auto
qed

lemma Unsubscribe_returns:
  assumes "unsub_inv s" and "un_once s \<in> {Selecting, AwaitDone}"
  shows "\<exists>es s'. set es \<subseteq> unsub_steps \<and> length es \<le> unsub_measure s \<and> unsub_run un es s = Some (Ret s') \<and>
    un_once s' = OnceDone"
  using assms
proof (induction "unsub_measure s" arbitrary: s rule: less_induct)
  case less
  from unsub_progress [OF less.prems] obtain e r where e: "e \<in> unsub_steps" "unsub_turn un e s = Some r" by blast
  from unsub_turn_inv [OF less.prems(1) e(2)] obtain s1 where s1: "r = Ret s1" "unsub_inv s1" by blast
  with e have t: "unsub_turn un e s = Some (Ret s1)" by simp
  note m = unsub_measure_falls [OF less.prems(1) t e(1)]
  show ?case
  proof (cases "un_once s1 = OnceDone")
    case True
    then show ?thesis using e(1) t m by (intro exI [of _ "[e]"] exI [of _ s1]) simp
  next
    case False
    then have "un_once s1 \<in> {Selecting, AwaitDone}" using unsub_steps_called [OF t e(1) less.prems(2)] by blast
    from less.hyps [OF m s1(2) this] obtain es s' where
      "set es \<subseteq> unsub_steps" "length es \<le> unsub_measure s1" "unsub_run un es s1 = Some (Ret s')" "un_once s' = OnceDone" by blast
    with e(1) t m show ?thesis by (intro exI [of _ "e # es"] exI [of _ s']) simp
  qed
qed

end
