(* ===== verification/Rpc_Gzip.thy ===== *)
theory Rpc_Gzip
  imports Rpc_Stack
begin

text \<open>
  \<^verbatim>\<open>newGzipHandler\<close> of \<^verbatim>\<open>src/server/rpcstack.go\<close>: the handler below it is what it does to its
  response writer, a sequence of \<open>writer_op\<close>. Shown here: with or without compression the body
  is what the handler wrote, as long as every length it announced is a number. (A length that is
  not a number makes the writer believe in a length of zero, since the test of the parser's error
  is the wrong way round, and close the compressor after the first write.)
\<close>

datatype writer_op = SetHeaderOp string string | WriteHeaderOp nat | WriteOp string

text \<open>The plain response: headers, the first status, the body.\<close>

record plain_writer =
  pw_headers :: "(string \<times> string) list"
  pw_status :: "nat option"
  pw_body :: string

definition first_status :: "nat \<Rightarrow> nat option \<Rightarrow> nat option" where
  "first_status n st = (case st of None \<Rightarrow> Some n | Some m \<Rightarrow> Some m)"

fun plain_op :: "writer_op \<Rightarrow> plain_writer \<Rightarrow> plain_writer" where
  "plain_op (SetHeaderOp k v) w = w\<lparr>pw_headers := alist_put k v (pw_headers w)\<rparr>"
| "plain_op (WriteHeaderOp n) w = w\<lparr>pw_status := first_status n (pw_status w)\<rparr>"
| "plain_op (WriteOp b) w = w\<lparr>pw_status := first_status 200 (pw_status w), pw_body := pw_body w @ b\<rparr>"

text \<open>The wrapped writer with the status that went through it.\<close>

definition gzip_WriteHeader :: "nat \<Rightarrow> gzipResponseWriter \<times> nat option \<Rightarrow> gzipResponseWriter \<times> nat option" where
  "gzip_WriteHeader n st = (gzip_init (fst st), first_status n (snd st))"

fun gzip_op :: "writer_op \<Rightarrow> gzipResponseWriter \<times> nat option \<Rightarrow> gzipResponseWriter \<times> nat option" where
  "gzip_op (SetHeaderOp k v) (w, st) = (w\<lparr>gz_headers := alist_put k v (gz_headers w)\<rparr>, st)"
| "gzip_op (WriteHeaderOp n) (w, st) = gzip_WriteHeader n (w, st)"
| "gzip_op (WriteOp b) (w, st) = (snd (gzip_Write b w), first_status 200 st)"

datatype response_body = PlainBody string | GzipBody string string

definition newGzipHandler ::
  "string \<Rightarrow> writer_op list \<Rightarrow> (string \<times> string) list \<Rightarrow> (string \<times> string) list \<times> nat option \<times> response_body" where
  "newGzipHandler acceptEncoding next hdr =
     (if \<not> Contains acceptEncoding ''gzip'' then
        (let w = fold plain_op next \<lparr>pw_headers = hdr, pw_status = None, pw_body = []\<rparr>
         in (pw_headers w, pw_status w, PlainBody (pw_body w)))
      else
        (let (wrapper, st) = fold gzip_op next (new_gzip_writer hdr, None);
             closed = gzip_close wrapper
         in (gz_headers closed, st, GzipBody (gz_plain closed) (gz_packed closed))))"

section \<open>Facts\<close>

fun written_bytes :: "writer_op list \<Rightarrow> string" where
  "written_bytes [] = []"
| "written_bytes (WriteOp b # ops) = b @ written_bytes ops"
| "written_bytes (_ # ops) = written_bytes ops"

text \<open>The bytes the peer reads once it has unpacked the compressed stream.\<close>

fun body_bytes :: "response_body \<Rightarrow> string" where
  "body_bytes (PlainBody b) = b"
| "body_bytes (GzipBody p z) = p @ z"

definition numeric_length :: "(string \<times> string) list \<Rightarrow> bool" where
  "numeric_length hdr \<longleftrightarrow> (\<forall>v. map_of hdr ''content-length'' = Some v \<longrightarrow> v = [] \<or> snd (ParseUint v) = None)"

definition gz_ok :: "gzipResponseWriter \<Rightarrow> bool" where
  "gz_ok w \<longleftrightarrow>
     \<not> gz_hasLength w \<and> gz_gz w \<noteq> GzClosed \<and> numeric_length (gz_headers w) \<and>
     (gz_gz w = GzOpen \<longrightarrow> gz_inited w \<and> gz_plain w = []) \<and> (gz_gz w = GzNone \<longrightarrow> gz_packed w = []) \<and>
     (\<not> gz_inited w \<longrightarrow> gz_plain w = [] \<and> gz_packed w = [])"

lemma map_of_alist_del: "map_of (alist_del k m) i = (if i = k then None else map_of m i)"
  by (induction m) (auto simp: alist_del_def)

lemma gz_ok_init:
  assumes "gz_ok w"
  shows "gz_ok (gzip_init w) \<and> gz_plain (gzip_init w) = gz_plain w \<and> gz_packed (gzip_init w) = gz_packed w"
proof (cases "gz_inited w")
  case False
  have "header_get ''content-length'' (gz_headers w) = [] \<or>
      snd (ParseUint (header_get ''content-length'' (gz_headers w))) = None"
    using assms by (auto simp: gz_ok_def numeric_length_def header_get_def split: option.splits)
  then show ?thesis
    using assms False
    by (elim disjE; auto simp: gz_ok_def gzip_init_def Let_def numeric_length_def map_of_alist_del split: prod.splits option.splits)
qed (use assms in \<open>simp add: gzip_init_def\<close>)

lemma gz_ok_Write:
  assumes "gz_ok w"
  shows "gz_ok (snd (gzip_Write b w)) \<and>
    gz_plain (snd (gzip_Write b w)) @ gz_packed (snd (gzip_Write b w)) = gz_plain w @ gz_packed w @ b"
proof -
  note i = gz_ok_init [OF assms]
  have "gz_inited (gzip_init w)" by simp
  with i show ?thesis by (cases "gz_gz (gzip_init w)") (auto simp: gzip_Write_def gz_ok_def Let_def)
qed

lemma gz_ok_ops:
  assumes "gz_ok w" and "\<And>v. SetHeaderOp ''content-length'' v \<in> set ops \<Longrightarrow> v = [] \<or> snd (ParseUint v) = None"
    and "fold gzip_op ops (w, st) = (w', st')"
  shows "gz_ok w' \<and> gz_plain w' @ gz_packed w' = gz_plain w @ gz_packed w @ written_bytes ops"
  using assms
proof (induction ops arbitrary: w st)
  case (Cons op ops)
  show ?case
  proof (cases op)
    case (SetHeaderOp k v)
    let ?w = "w\<lparr>gz_headers := alist_put k v (gz_headers w)\<rparr>"
    have "gz_ok ?w" using Cons.prems(1,2) SetHeaderOp by (auto simp: gz_ok_def numeric_length_def split: if_splits)
    with Cons.IH [of ?w st] Cons.prems SetHeaderOp show ?thesis by simp
  next
    case (WriteHeaderOp n)
    with Cons.IH [of "gzip_init w" "first_status n st"] Cons.prems gz_ok_init [OF Cons.prems(1)] show ?thesis
      by (simp add: gzip_WriteHeader_def)
  next
    case (WriteOp b)
    with Cons.IH [of "snd (gzip_Write b w)" "first_status 200 st"] Cons.prems gz_ok_Write [OF Cons.prems(1), of b] show ?thesis
      by simp
  qed
qed simp

lemma plain_ops_body: "pw_body (fold plain_op ops w) = pw_body w @ written_bytes ops"
proof (induction ops arbitrary: w)
  case (Cons op ops)
  then show ?case by (cases op) auto
qed simp

lemma newGzipHandler_body:
  assumes "numeric_length hdr" and "\<And>v. SetHeaderOp ''content-length'' v \<in> set ops \<Longrightarrow> v = [] \<or> snd (ParseUint v) = None"
  shows "body_bytes (snd (snd (newGzipHandler accept ops hdr))) = written_bytes ops"
proof (cases "Contains accept ''gzip''")
  case True
  obtain w' st' where f: "fold gzip_op ops (new_gzip_writer hdr, None) = (w', st')" by force
  have "gz_ok (new_gzip_writer hdr)" using assms(1) by (simp add: gz_ok_def new_gzip_writer_def)
  from gz_ok_ops [OF this assms(2) f] have "gz_plain w' @ gz_packed w' = written_bytes ops" by (simp add: new_gzip_writer_def)
  with True f show ?thesis by (simp add: newGzipHandler_def gzip_close_def)
qed (simp add: newGzipHandler_def plain_ops_body Let_def)

end
