(* ===== verification/Rpc_Batch_Http.thy ===== *)
theory Rpc_Batch_Http
  imports Attacker_Rpc
begin

text \<open>
  Batches over HTTP, from end to end: \<^verbatim>\<open>BatchCallContext\<close> of \<^verbatim>\<open>src/rpc/client.go\<close> with
  \<^verbatim>\<open>sendBatchHTTP\<close> of \<^verbatim>\<open>http.go\<close>, against the server of \<^verbatim>\<open>server.go\<close> and \<^verbatim>\<open>handler.go\<close>.
  A response of the array may be null, so the channel carries messages that may be absent.

  Shown here: the ids of a batch are distinct, the server answers the calls one after the other,
  and every element of the batch gets the answer to its own call.
\<close>

definition sendBatchHTTP ::
  "client_error + http_resp \<Rightarrow> jsonrpcMessage option list chan option \<Rightarrow>
     (jsonrpcMessage option list chan option \<times> client_error option) outcome" where
  "sendBatchHTTP answer resp =
     (case answer of
        Inl e \<Rightarrow> Ret (resp, Some e)
      | Inr a \<Rightarrow>
          (case ha_json a of
             Inl e \<Rightarrow> Ret (resp, Some (OtherError e))
           | Inr j \<Rightarrow>
               (let (respmsgs, bad) = dec_list (dec_ptr (dec_struct jsonrpcMessage_fields) zeroMessage) None j []
                in if bad then Ret (resp, Some (OtherError ''json: cannot unmarshal''))
                   else obind (chan_send respmsgs resp) (\<lambda>c. Ret (c, None)))))"

text \<open>\<open>post\<close>: what \<^verbatim>\<open>doRequest\<close> gives for the messages. Errors of sending leave the elements alone.\<close>

definition BatchCallContext_http ::
  "(jsonrpcMessage list \<Rightarrow> ('s, client_error + http_resp) gom) \<Rightarrow> 'v client \<Rightarrow> (string \<times> params) list \<Rightarrow>
     'r BatchElem list \<Rightarrow> ('s, client_error option \<times> 'r BatchElem list) gom" where
  "BatchCallContext_http post cl reqs b =
     (case newMessages reqs cl of
        (Inl e, _) \<Rightarrow> gret (Some (OtherError e), b)
      | (Inr msgs, _) \<Rightarrow>
          gbind (post msgs) (\<lambda>answer.
          glift (obind (sendBatchHTTP answer (Some (make_chan 1))) (\<lambda>(c, err).
            case err of
              Some e \<Rightarrow> Ret (Some e, b)
            | None \<Rightarrow>
                (case c of
                   Some ch \<Rightarrow>
                     (case ch_buf ch of
                        batchresp # _ \<Rightarrow> Ret (None, BatchCallContext_end (map (the \<circ> jm_ID) msgs) batchresp b)
                      | [] \<Rightarrow> Hang)
                 | None \<Rightarrow> Hang)))))"

text \<open>A connection that hands the messages to a server and its answer back.\<close>

definition batch_post ::
  "(http_req \<Rightarrow> ('s, http_response) gom) \<Rightarrow> (jsonrpcMessage list \<Rightarrow> http_req) \<Rightarrow> jsonrpcMessage list \<Rightarrow>
     ('s, client_error + http_resp) gom" where
  "batch_post server mk msgs =
     gbind (server (mk msgs)) (\<lambda>resp.
     gret (doRequest None (\<lambda>body. Inr (delivered resp)) (Inr (JArr (map message_json msgs)))))"

definition posts_batch :: "http_req \<Rightarrow> jsonrpcMessage list \<Rightarrow> bool" where
  "posts_batch r msgs \<longleftrightarrow>
     hr_Method r = ''POST'' \<and> snd (validateRequest r) = None \<and> hr_body r = BodyJson (JArr (map message_json msgs))"

text \<open>The calls one after the other, and the size of their results.\<close>

fun in_turn :: "('x \<Rightarrow> ('s, 'a) gom) \<Rightarrow> 'x list \<Rightarrow> ('s, 'a list) gom" where
  "in_turn f [] = gret []"
| "in_turn f (x # xs) = gbind (f x) (\<lambda>y. gbind (in_turn f xs) (\<lambda>ys. gret (y # ys)))"

definition result_bytes :: "('v, 's) hconf \<Rightarrow> jsonrpcMessage \<Rightarrow> int" where
  "result_bytes H r = (case jm_Result r of None \<Rightarrow> 0 | Some j \<Rightarrow> hc_resultLen H j)"

definition within_limit :: "('v, 's) hconf \<Rightarrow> int \<Rightarrow> jsonrpcMessage list \<Rightarrow> bool" where
  "within_limit H n rs \<longleftrightarrow>
     hc_batchResponseMaxSize H = 0 \<or> n + sum_list (map (result_bytes H) rs) \<le> hc_batchResponseMaxSize H"

definition decodable :: "jsonrpcMessage \<Rightarrow> bool" where
  "decodable r = (case jm_Error r of None \<Rightarrow> True | Some e \<Rightarrow> is_i64 (je_Code e) \<and> je_Data e \<noteq> Some JNull)"

section \<open>The messages\<close>

lemma id_json_injective:
  assumes "id_json v = id_json w"
  shows "v = w"
proof -
  have "unat v < 2 ^ 64" "unat w < 2 ^ 64" using unsigned_less [of v, where 'a = nat] unsigned_less [of w, where 'a = nat] by simp_all
  with assms have "unat v = unat w" by (simp add: id_json_def format_nat_inj)
  then show ?thesis by (rule unsigned_word_eqI)
qed

lemma newMessages_ids:
  assumes "newMessages reqs cl = (Inr msgs, cl')"
  shows "map jm_ID msgs = map (\<lambda>k. Some (id_json (cl_idCounter cl + 1 + of_nat k))) [0..<length reqs] \<and>
    map jm_Method msgs = map fst reqs \<and> list_all (\<lambda>m. jm_Version m = vsn \<and> jm_Error m = None) msgs"
  using assms
proof (induction reqs cl arbitrary: msgs cl' rule: newMessages.induct)
  case (2 m ps reqs cl)
  from "2.prems" obtain msg c1 where m: "newMessage m ps cl = (Inr msg, c1)"
    by (auto split: prod.splits sum.splits)
  with "2.prems" obtain msgs' where ms: "newMessages reqs c1 = (Inr msgs', cl')" "msgs = msg # msgs'"
    by (auto split: prod.splits sum.splits)
  have msg: "jm_ID msg = Some (id_json (cl_idCounter cl + 1))" "jm_Method msg = m" "jm_Version msg = vsn"
      "jm_Error msg = None" "cl_idCounter c1 = cl_idCounter cl + 1"
    using m by (auto simp: newMessage_def nextID_def zeroMessage_def Let_def split: option.splits sum.splits)
  have "map (\<lambda>k. Some (id_json (cl_idCounter c1 + 1 + of_nat k))) [0..<length reqs] =
      map (\<lambda>k. Some (id_json (cl_idCounter cl + 1 + of_nat k))) (map Suc [0..<length reqs])"
    by (simp add: msg(5) algebra_simps)
  with "2.IH" [OF m [symmetric] refl ms(1)] msg ms(2) show ?case
    by (simp add: map_Suc_upt upt_conv_Cons del: upt_Suc map_map)
qed simp

lemma newMessages_distinct:
  assumes "newMessages reqs cl = (Inr msgs, cl')" and "length reqs \<le> 2 ^ 32"
  shows "distinct (map (the \<circ> jm_ID) msgs)"
proof -
  have "map (the \<circ> jm_ID) msgs = map the (map jm_ID msgs)" by simp
  also have "\<dots> = map (\<lambda>k. id_json (cl_idCounter cl + 1 + of_nat k)) [0..<length reqs]"
    using newMessages_ids [OF assms(1)] by simp
  finally have e: "map (the \<circ> jm_ID) msgs = map (\<lambda>k. id_json (cl_idCounter cl + 1 + of_nat k)) [0..<length reqs]" .
  have "inj_on (\<lambda>k. id_json (cl_idCounter cl + 1 + of_nat k)) (set [0..<length reqs])"
  proof (rule inj_onI)
    fix k l
    assume "k \<in> set [0..<length reqs]" "l \<in> set [0..<length reqs]"
      and eq: "id_json (cl_idCounter cl + 1 + of_nat k) = id_json (cl_idCounter cl + 1 + of_nat l)"
    then have "k < 2 ^ 32" "l < 2 ^ 32" using assms(2) by auto
    moreover from id_json_injective [OF eq] have "(of_nat k :: 32 word) = of_nat l" by simp
    ultimately show "k = l" by (simp add: word_of_nat_eq_iff take_bit_nat_eq_self)
  qed
  then show ?thesis unfolding e by (simp add: distinct_map)
qed

lemma newMessages_calls:
  assumes "newMessages reqs cl = (Inr msgs, cl')" and "list_all (\<lambda>req. fst req \<noteq> []) reqs"
  shows "list_all isCall msgs \<and> list_all (\<lambda>m. jm_Error m = None) msgs \<and> length msgs = length reqs"
proof -
  note ids = newMessages_ids [OF assms(1)]
  then have l: "length msgs = length reqs" by (metis length_map)
  have "isCall (msgs ! k) \<and> jm_Error (msgs ! k) = None" if "k < length msgs" for k
  proof -
    have "jm_ID (msgs ! k) = Some (id_json (cl_idCounter cl + 1 + of_nat k))" "jm_Method (msgs ! k) = fst (reqs ! k)"
      using ids that l by (metis (no_types, lifting) add_0 diff_zero length_upt nth_map nth_upt, metis nth_map)
    moreover have "fst (reqs ! k) \<noteq> []" using assms(2) that l by (simp add: list_all_length)
    moreover have "jm_Version (msgs ! k) = vsn" "jm_Error (msgs ! k) = None" using ids that by (simp_all add: list_all_length)
    ultimately show ?thesis by (simp add: isCall_def hasValidVersion_def hasValidID_def id_json_def)
  qed
  with l show ?thesis by (simp add: list_all_length)
qed

lemma isCall_id: "isCall m \<Longrightarrow> \<exists>i. jm_ID m = Some i"
  by (cases "jm_ID m") (simp_all add: isCall_def hasValidID_def)

section \<open>The server's side\<close>

lemma batch_loop_in_turn:
  assumes "in_turn (handleCall H) calls st = (Ret rs, st')" and "list_all isCall calls" and "within_limit H n rs"
    and "\<And>j. 0 \<le> hc_resultLen H j"
  shows "batch_loop H calls resp n st = (Ret (resp @ rs, False), st')"
  using assms(1-3)
proof (induction calls arbitrary: st rs resp n)
  case (Cons m calls)
  from Cons.prems(1) obtain r st1 where r: "handleCall H m st = (Ret r, st1)"
    by (auto simp: gbind_def split: prod.splits outcome.splits)
  with Cons.prems(1) obtain rs' where rs: "in_turn (handleCall H) calls st1 = (Ret rs', st')" "rs = r # rs'"
    by (auto simp: gbind_def gret_run split: prod.splits outcome.splits)
  have "0 \<le> sum_list (map (result_bytes H) rs')"
    using assms(4) by (intro sum_list_nonneg) (auto simp: result_bytes_def split: option.split)
  with Cons.prems(3) rs(2) have w: "within_limit H (n + result_bytes H r) rs'"
    "hc_batchResponseMaxSize H = 0 \<or> \<not> n + result_bytes H r > hc_batchResponseMaxSize H"
    by (auto simp: within_limit_def)
  have "isCall m" "\<not> isNotification m" using Cons.prems(2) message_kinds(1) [of m] by auto
  then have "handleCallMsg H m st = (Ret (Some r), st1)" using r by (simp add: handleCallMsg_def gbind_def gret_run)
  with Cons.IH [OF rs(1) _ w(1), of "resp @ [r]"] Cons.prems(2) rs(2) w(2) show ?case
    by (auto simp: gbind_def result_bytes_def Let_def)
qed (simp add: gret_run)

lemma addSubscriptions_run: "\<exists>subs. addSubscriptions H nn st = (Ret (), st\<lparr>hs_serverSubs := subs\<rparr>)"
proof (induction nn arbitrary: st)
  case (Cons n nn)
  show ?case
  proof (cases "hc_subOf H (hs_app st) n")
    case None
    then show ?thesis using Cons [of st] by (simp add: addSubscriptions_def gbind_def gread_def gret_run)
  next
    case (Some i)
    let ?st = "hs_serverSubs_update (\<lambda>subs. if i \<in> set subs then subs else subs @ [i]) st"
    obtain subs where "addSubscriptions H nn ?st = (Ret (), ?st\<lparr>hs_serverSubs := subs\<rparr>)" using Cons by blast
    then show ?thesis
      using Some by (auto simp: addSubscriptions_def gbind_def gread_def gmodify_def gret_run)
  qed
next
  case Nil
  show ?case by (rule exI [of _ "hs_serverSubs st"]) (simp add: addSubscriptions_def gret_run)
qed

lemma readBatch_messages:
  assumes "list_all (\<lambda>m. jm_Error m = None) msgs"
  shows "readBatch (JArr (map message_json msgs)) = (msgs, True)"
proof -
  have "parse_one (message_json m) = Some m" if "m \<in> set msgs" for m
    using assms that by (intro message_decode) (auto simp: list_all_iff)
  then show ?thesis by (simp add: readBatch_def parseMessage_def map_idI comp_def)
qed

lemma ServeHTTP_batch:
  assumes "rs_run s" and "posts_batch r msgs" and "msgs \<noteq> []" and "list_all isCall msgs" and "list_all (\<lambda>m. jm_Error m = None) msgs"
    and "rs_batchItemLimit s = 0 \<or> int (length msgs) \<le> rs_batchItemLimit s"
    and "in_turn (handleCall (request_conf s H)) msgs (st\<lparr>hs_notifiers := 0\<rparr>) = (Ret rs, st')"
    and "within_limit (request_conf s H) 0 rs" and "\<And>j. 0 \<le> hc_resultLen H j" and "rs \<noteq> []"
  shows "\<exists>subs. rpc_ServeHTTP s H r st = (Ret (Answer (WriteBatch rs False)), st'\<lparr>hs_serverSubs := subs\<rparr>)"
proof -
  let ?H = "request_conf s H"
  have "\<not> isResult m" if "m \<in> set msgs" for m
    using assms(4) that message_kinds [of m] by (auto simp: list_all_iff isResult_def)
  then have f: "filter (\<lambda>m. \<not> isResult m) msgs = msgs" by (simp add: filter_id_conv)
  have l: "batch_loop ?H msgs [] 0 (st\<lparr>hs_notifiers := 0\<rparr>) = (Ret ([] @ rs, False), st')"
    using assms(9) by (intro batch_loop_in_turn [OF assms(7,4,8)]) (simp add: request_conf_def)
  have lim: "\<not> (hc_batchRequestLimit ?H \<noteq> 0 \<and> int (length msgs) > hc_batchRequestLimit ?H)"
    using assms(6) by (auto simp: request_conf_def)
  obtain subs where a: "addSubscriptions ?H [0..<hs_notifiers st'] st' = (Ret (), st'\<lparr>hs_serverSubs := subs\<rparr>)"
    using addSubscriptions_run by blast
  have "handleBatch ?H msgs st = (Ret (WriteBatch rs False), st'\<lparr>hs_serverSubs := subs\<rparr>)"
    using assms(3,10) lim l a f
    by (simp add: handleBatch_def Let_def gbind_def gmodify_def gread_def gret_run del: not_less)
  then show ?thesis
    using assms(1,2) readBatch_messages [OF assms(5)]
    by (auto simp: rpc_ServeHTTP_def serveSingleRequest_def posts_batch_def gbind_def gret_run split: prod.splits)
qed

section \<open>The client's side\<close>

lemma sendBatchHTTP_decodes:
  assumes "list_all decodable rs"
  shows "sendBatchHTTP (doRequest None (\<lambda>body. Inr (delivered (Answer (WriteBatch rs False)))) (Inr j)) (Some (make_chan 1)) =
    Ret (Some ((make_chan 1)\<lparr>ch_buf := [map Some rs]\<rparr>), None)"
proof -
  have d: "dec_struct jsonrpcMessage_fields (message_json r) zeroMessage = (r, False)" if "r \<in> set rs" for r
    using assms that by (intro message_struct) (auto simp: list_all_iff decodable_def split: option.splits)
  have "dec_ptr (dec_struct jsonrpcMessage_fields) zeroMessage (message_json r) None = (Some r, False)" if "r \<in> set rs" for r
    using d [OF that] by (simp add: message_json_def)
  then have "dec_list (dec_ptr (dec_struct jsonrpcMessage_fields) zeroMessage) None (JArr (map message_json rs)) [] =
      (map Some rs, False)"
    by (simp add: list_ex_iff)
  then show ?thesis by (simp add: sendBatchHTTP_def doRequest_def make_chan_def)
qed

lemma response_for_own:
  assumes "distinct (map (the \<circ> jm_ID) msgs)" and "list_all2 (\<lambda>m r. jm_ID r = jm_ID m \<and> jm_ID m \<noteq> None) msgs rs"
    and "k < length msgs"
  shows "response_for (map Some rs) (the (jm_ID (msgs ! k))) = Some (rs ! k)"
  using assms
proof (induction msgs arbitrary: rs k)
  case (Cons m msgs)
  then obtain r rs' where rs: "rs = r # rs'" "jm_ID r = jm_ID m" "jm_ID m \<noteq> None"
    "list_all2 (\<lambda>m r. jm_ID r = jm_ID m \<and> jm_ID m \<noteq> None) msgs rs'"
    by (auto simp: list_all2_Cons1)
  show ?case
  proof (cases k)
    case 0
    then show ?thesis using rs by auto
  next
    case (Suc l)
    then have "l < length msgs" using Cons.prems(3) by simp
    moreover then have "the (jm_ID (msgs ! l)) \<noteq> the (jm_ID m)" using Cons.prems(1) by (metis comp_apply distinct.simps(2) length_map list.simps(9) nth_map nth_mem)
    ultimately show ?thesis using Suc rs Cons.IH [OF _ rs(4), of l] Cons.prems(1) by auto
  qed
qed simp

lemma in_turn_replies:
  assumes "in_turn (handleCall H) msgs st = (Ret rs, st')"
  shows "list_all2 (\<lambda>m r. reply_to m r) msgs rs"
  using assms
proof (induction msgs arbitrary: st rs)
  case (Cons m msgs)
  from Cons.prems obtain r st1 where r: "handleCall H m st = (Ret r, st1)"
    by (auto simp: gbind_def split: prod.splits outcome.splits)
  with Cons.prems obtain rs' where rs: "in_turn (handleCall H) msgs st1 = (Ret rs', st')" "rs = r # rs'"
    by (auto simp: gbind_def gret_run split: prod.splits outcome.splits)
  have "reply_to m r" using replies_handleCall [of H m] r by (auto simp: replies_def dest!: spec [of _ st])
  with Cons.IH [OF rs(1)] rs(2) show ?case by simp
qed (simp add: gret_run)

lemma BatchCallContext_end_own:
  assumes "distinct (map (the \<circ> jm_ID) msgs)" and "list_all2 (\<lambda>m r. jm_ID r = jm_ID m \<and> jm_ID m \<noteq> None) msgs rs"
    and "length b = length msgs"
  shows "BatchCallContext_end (map (the \<circ> jm_ID) msgs) (map Some rs) b = map2 elem_assign rs b"
proof (rule nth_equalityI)
  have l: "length rs = length msgs" using assms(2) by (simp add: list_all2_lengthD)
  then show "length (BatchCallContext_end (map (the \<circ> jm_ID) msgs) (map Some rs) b) = length (map2 elem_assign rs b)"
    using assms(3) by (simp add: BatchCallContext_end_length)
  fix k
  assume "k < length (BatchCallContext_end (map (the \<circ> jm_ID) msgs) (map Some rs) b)"
  then have k: "k < length msgs" using assms(3) by (simp add: BatchCallContext_end_length)
  then show "BatchCallContext_end (map (the \<circ> jm_ID) msgs) (map Some rs) b ! k = map2 elem_assign rs b ! k"
    using BatchCallContext_end_nth [OF assms(1), of b k "map Some rs"] response_for_own [OF assms(1,2) k] assms(3) l
    by simp
qed

lemma batch_http_run:
  assumes "newMessages reqs cl = (Inr msgs, cl')" and "list_all (\<lambda>req. fst req \<noteq> []) reqs" and "reqs \<noteq> []"
    and "length reqs \<le> 2 ^ 32" and "length b = length reqs" and "rs_run s"
    and "rs_batchItemLimit s = 0 \<or> int (length reqs) \<le> rs_batchItemLimit s" and "posts_batch (mk msgs) msgs"
    and "in_turn (handleCall (request_conf s H)) msgs (st\<lparr>hs_notifiers := 0\<rparr>) = (Ret rs, st')"
    and "within_limit (request_conf s H) 0 rs" and "\<And>j. 0 \<le> hc_resultLen H j" and "list_all decodable rs"
  shows "\<exists>subs. BatchCallContext_http (batch_post (rpc_ServeHTTP s H) mk) cl reqs b st =
    (Ret (None, map2 elem_assign rs b), st'\<lparr>hs_serverSubs := subs\<rparr>)"
proof -
  from newMessages_calls [OF assms(1,2)] have
    c: "list_all isCall msgs" "list_all (\<lambda>m. jm_Error m = None) msgs" "length msgs = length reqs" by auto
  have "list_all2 (\<lambda>m r. jm_ID r = jm_ID m \<and> jm_ID m \<noteq> None) msgs rs"
    using in_turn_replies [OF assms(9)] c(1)
    by (auto simp: list_all2_conv_all_nth list_all_length reply_to_def intro: isCall_id)
  then have e: "BatchCallContext_end (map (the \<circ> jm_ID) msgs) (map Some rs) b = map2 elem_assign rs b" and "length rs = length msgs"
    using newMessages_distinct [OF assms(1,4)] assms(5) c(3) by (simp_all add: BatchCallContext_end_own list_all2_lengthD)
  moreover have "msgs \<noteq> []" using c(3) assms(3) by auto
  ultimately obtain subs where
    "rpc_ServeHTTP s H (mk msgs) st = (Ret (Answer (WriteBatch rs False)), st'\<lparr>hs_serverSubs := subs\<rparr>)"
    using ServeHTTP_batch [OF assms(6,8) _ c(1,2) _ assms(9-11)] assms(7) c(3) by fastforce
  then show ?thesis
    using e sendBatchHTTP_decodes [OF assms(12)]
    by (auto simp: BatchCallContext_http_def assms(1) batch_post_def gbind_def gret_run glift_run simp del: delivered.simps)
qed

end
