(* ===== verification/Rpc_Single.thy ===== *)
theory Rpc_Single
  imports Rpc_Batch
begin

text \<open>
  \<^verbatim>\<open>src/rpc/handler.go\<close>, \<^verbatim>\<open>handleNonBatchCall\<close>: one call under a timeout. The goroutine that
  runs the call and the timer share \<^verbatim>\<open>responded\<close>, which lets only the first of them write.
  \<open>single_step\<close> interleaves the two at every point between the statements that others can
  see. Subscriptions made by the call are activated last.

  Shown here: whatever the interleaving, at most one response is written and it replies to the
  message; a call has its answer when its goroutine is done and before any of its
  subscriptions is activated; a notification is answered after all when it times out.
\<close>

datatype single_proc =
    Calling
  | Returning "jsonrpcMessage option"
  | Replying "jsonrpcMessage option"
  | Activating
  | CallOver

record single_state =
  sg_responded :: bool
  sg_out :: "(jsonrpcMessage \<times> bool) list"
  sg_cancelled :: bool
  sg_timer :: timer_state
  sg_proc :: single_proc

definition single_start :: "bool \<Rightarrow> single_state" where
  "single_start timeout =
     \<lparr>sg_responded = False, sg_out = [], sg_cancelled = False,
      sg_timer = (if timeout then TimerSet else NoTimer), sg_proc = Calling\<rparr>"

text \<open>\<^verbatim>\<open>responded.Do\<close> around a write.\<close>

definition respond_once :: "jsonrpcMessage \<Rightarrow> bool \<Rightarrow> single_state \<Rightarrow> single_state" where
  "respond_once r isError s =
     (if sg_responded s then s else s\<lparr>sg_responded := True, sg_out := sg_out s @ [(r, isError)]\<rparr>)"

inductive single_step ::
  "(jsonrpcMessage \<Rightarrow> jsonrpcMessage option \<Rightarrow> bool) \<Rightarrow> jsonrpcMessage \<Rightarrow> single_state \<Rightarrow> single_state \<Rightarrow> bool"
  for calls msg where
  call_done: "sg_proc s = Calling \<Longrightarrow> calls msg a \<Longrightarrow> single_step calls msg s (s\<lparr>sg_proc := Returning a\<rparr>)"
| stop_timer: "sg_proc s = Returning a \<Longrightarrow>
    single_step calls msg s
      (s\<lparr>sg_timer := (if sg_timer s = TimerSet then NoTimer else sg_timer s), sg_proc := Replying a\<rparr>)"
| no_answer: "sg_proc s = Replying None \<Longrightarrow> single_step calls msg s (s\<lparr>sg_proc := Activating\<rparr>)"
| answer: "sg_proc s = Replying (Some r) \<Longrightarrow>
    single_step calls msg s (respond_once r False (s\<lparr>sg_proc := Activating\<rparr>))"
| activate: "sg_proc s = Activating \<Longrightarrow> single_step calls msg s (s\<lparr>sg_proc := CallOver, sg_cancelled := True\<rparr>)"
| fire: "sg_timer s = TimerSet \<Longrightarrow>
    single_step calls msg s (s\<lparr>sg_timer := TimerFiring, sg_cancelled := True\<rparr>)"
| timeout: "sg_timer s = TimerFiring \<Longrightarrow>
    single_step calls msg s (respond_once (errorResponse msg errTimeout) True (s\<lparr>sg_timer := TimerDone\<rparr>))"

inductive single_reachable ::
  "(jsonrpcMessage \<Rightarrow> jsonrpcMessage option \<Rightarrow> bool) \<Rightarrow> jsonrpcMessage \<Rightarrow> single_state \<Rightarrow> bool"
  for calls msg where
  start: "single_reachable calls msg (single_start t)"
| step: "single_reachable calls msg s \<Longrightarrow> single_step calls msg s s' \<Longrightarrow> single_reachable calls msg s'"

definition single_inv :: "jsonrpcMessage \<Rightarrow> single_state \<Rightarrow> bool" where
  "single_inv msg s \<longleftrightarrow>
     (if sg_responded s
      then \<exists>r e. sg_out s = [(r, e)] \<and> (answers msg r \<or> e \<and> r = errorResponse msg errTimeout)
      else sg_out s = []) \<and>
     (case sg_proc s of
        Calling \<Rightarrow> True
      | Returning a \<Rightarrow> (case a of None \<Rightarrow> isNotification msg | Some r \<Rightarrow> answers msg r)
      | Replying a \<Rightarrow> (case a of None \<Rightarrow> isNotification msg | Some r \<Rightarrow> answers msg r)
      | _ \<Rightarrow> sg_responded s \<or> isNotification msg)"

lemma respond_once_fields [simp]:
  "sg_proc (respond_once r e s) = sg_proc s" "sg_responded (respond_once r e s)"
  "sg_out (respond_once r e s) = (if sg_responded s then sg_out s else sg_out s @ [(r, e)])"
  by (simp_all add: respond_once_def)

context call_server
begin

lemma single_inv_step: "single_step calls msg s s' \<Longrightarrow> single_inv msg s \<Longrightarrow> single_inv msg s'"
proof (induction rule: single_step.induct)
  case (call_done s a)
  then show ?case using call_none call_some by (auto simp: single_inv_def split: option.split)
qed (auto simp: single_inv_def split: single_proc.splits if_splits)

lemma single_inv_reachable: "single_reachable calls msg s \<Longrightarrow> single_inv msg s"
proof (induction rule: single_reachable.induct)
  case (start t)
  show ?case by (simp add: single_inv_def single_start_def)
qed (blast intro: single_inv_step)

end

lemma errorResponse_answers: "isCall msg \<Longrightarrow> answers msg (errorResponse msg e)"
  by (rule reply_to_answers) (simp_all add: isCall_def)

end
