(* ===== verification/Rpc_Correct.thy ===== *)
theory Rpc_Correct
  imports Rpc_Transport Rpc_Single
begin

text \<open>
  The properties of the RPC library as a whole, stated over its definitions: the client's
  dispatch loop, the handler of calls and batches, subscriptions, the server and the HTTP
  stack. Each rests on the lemmas of the component's theory.
\<close>

section \<open>Samples\<close>

text \<open>Inputs on which the properties are applied.\<close>

definition sample_call :: request where
  "sample_call = RCall ''block_broadCastDelay'' None"

definition sample_decoder :: "nat \<Rightarrow> json \<Rightarrow> string + json" where
  "sample_decoder s j = Inr j"

text \<open>Runs of the client: one call is sent and the client closed; one call is in flight as the reader fails.\<close>

definition sent_events :: "request \<Rightarrow> client_event list" where
  "sent_events r = [Start r, ReqInit 0, WriteOk 0]"

definition lost_events :: "request \<Rightarrow> client_error \<Rightarrow> client_event list" where
  "lost_events r e = sent_events r @ [ReadErr e, ReqSent]"

definition sample_response :: jsonrpcMessage where
  "sample_response = zeroMessage\<lparr>jm_Version := vsn, jm_ID := Some (id_json 1), jm_Result := Some JNull\<rparr>"

text \<open>A server with no service of its own, the handler's configuration for it and a request.\<close>

definition sample_server :: "(json, unit) rpc_server" where
  "sample_server = rpc_NewServer []"

definition sample_param :: "json param_type" where
  "sample_param = \<lparr>pt_isPtr = False, pt_decode = \<lambda>j. Inr j, pt_zero = JNull\<rparr>"

definition sample_conf :: "(json, unit) hconf" where
  "sample_conf =
     \<lparr>hc_reg = Map.empty, hc_allowSubscribe = False, hc_batchRequestLimit = 0, hc_batchResponseMaxSize = 0,
      hc_idType = sample_param, hc_idOf = \<lambda>j. [], hc_stringType = sample_param, hc_subOf = \<lambda>s n. None,
      hc_resultLen = \<lambda>j. 0, hc_zero = JNull\<rparr>"

definition sample_method :: "(json, unit) go_method" where
  "sample_method =
     \<lparr>gm_Name = ''X'', gm_exported = True, gm_In = [TOther False sample_param], gm_Out = [], gm_Func = \<lambda>as. gret ([], None)\<rparr>"

definition sample_message :: jsonrpcMessage where
  "sample_message = zeroMessage\<lparr>jm_Version := vsn, jm_ID := Some (JNum ''7''), jm_Method := ''block_x''\<rparr>"

definition sample_notification :: jsonrpcMessage where
  "sample_notification = sample_message\<lparr>jm_ID := None\<rparr>"


definition sample_state :: "unit hstate" where
  "sample_state = \<lparr>hs_app = (), hs_serverSubs = [], hs_notifiers = 0\<rparr>"

definition sample_reply :: http_resp where
  "sample_reply = \<lparr>ha_StatusCode = 200, ha_Status = ''200 OK'', ha_Body = [], ha_json = Inr (message_json sample_message)\<rparr>"

definition sample_stack :: "(json, unit) httpServer" where
  "sample_stack = snd (setListenAddr ''localhost'' 8000 (newHTTPServer zeroTimeouts))"

fun state_after :: "'v client outcome option \<Rightarrow> 'v client" where
  "state_after (Some (Ret c)) = c"
| "state_after _ = initClient"

lemmas run_defs = sent_events_def lost_events_def sample_call_def initClient_def newMessage_def nextID_def new_request_def
  zeroMessage_def caller_at_def set_caller_def sent_def addRequestOp_def removeRequestOp_def make_chan_def
  cancelAllRequests_def cancel_turn_def alist_del_def id_json_def Let_def

lemma read_sample: "readBatch (message_json sample_response) = ([sample_response], False)"
proof -
  have "parse_one (message_json sample_response) = Some sample_response"
    by (rule message_decode) (simp add: sample_response_def zeroMessage_def)
  then show ?thesis by (simp add: readBatch_def parseMessage_def message_json_def)
qed

lemma sample_response_kind: "isResponse sample_response" "\<not> isNotification sample_response"
  by (simp_all add: sample_response_def zeroMessage_def isResponse_def isNotification_def hasValidVersion_def hasValidID_def id_json_def)

lemma sample_response_id: "jm_ID sample_response = Some (JNum (format_nat (unat (1 :: 32 word))))" "jm_Error sample_response = None"
  by (simp_all add: sample_response_def zeroMessage_def id_json_def)

section \<open>The client\<close>

text \<open>
  C4. No step of the client panics in a reachable state: no send on a closed channel, no
  channel closed twice, no access to a request that is not in flight, whatever the server
  sends and however callers, timeouts, read errors, reconnects and closing interleave.
\<close>
theorem client_never_panics:
  assumes "client_reachable un limit c" and "client_turn un limit e c = Some r"
  shows "\<exists>c'. r = Ret c' \<and> client_reachable un limit c'"
proof -
  from client_turn_ok [OF client_inv_reachable [OF assms(1)] assms(2)] obtain c' where "r = Ret c'" by blast
  with assms client_reachable.turn show ?thesis by blast
qed

theorem client_never_panics_witness:
  "\<exists>c'. client_turn sample_decoder 0 (Start sample_call) initClient = Some (Ret c') \<and> client_reachable sample_decoder 0 c'"
  using client_never_panics [OF client_reachable.init, of sample_decoder 0 "Start sample_call"]
  by (simp add: sample_call_def)

lemma waiting_or:
  assumes "client_reachable un limit c" and "caller_at p c = Some Waiting"
    and "op_ids (hh_ops (cl_h c) ! p) \<noteq> []" and "cl_draws c < 2 ^ 32" and "p \<notin> set (cl_orphans c)"
  shows "client_turn un limit (Receive p) c \<noteq> None \<or>
    (\<exists>i \<in> set (op_ids (hh_ops (cl_h c) ! p)). map_of (hh_respWait (cl_h c)) i = Some p) \<and> cl_running c \<and> cl_reading c"
proof -
  note inv = client_inv_reachable [OF assms(1)]
  from caller_atD [OF assms(2)] have p: "p < length (cl_callers c)" "cl_callers c ! p = Waiting" by auto
  note r = request_invD [OF inv p(1)]
  from r assms(3-5) p(2) have s: "op_hadResponse (op_at c p) \<or> op_closed (op_at c p) \<or> waits_for c p"
    by (simp add: request_inv_def served_inv_def)
  show ?thesis
  proof (cases "waits_for c p")
    case True
    then obtain i where i: "(i, p) \<in> set (hh_respWait (cl_h c))" by (auto simp: waits_for_def)
    with inv have "entry_ok (hh_ops (cl_h c)) (i, p)" "distinct (map fst (hh_respWait (cl_h c)))"
      unfolding client_inv_def store_ok_def by blast+
    with i True r p(2) show ?thesis by (auto simp: entry_ok_def request_inv_def conn_inv_def)
  next
    case False
    with s r p(2) have "op_buf (op_at c p) \<noteq> [] \<or> op_closed (op_at c p)" by (auto simp: request_inv_def channel_inv_def)
    then show ?thesis using assms(2) by (auto simp: op_buf_def op_closed_def split: option.splits list.splits)
  qed
qed


text \<open>
  C7. A caller that waits is never stuck, unless it was in flight when the read loop failed:
  its channel can be received from, or one of its ids is registered with a connection that is
  being read. (Ids are drawn from a 32 bit counter, so this is for the first \<open>2 ^ 32\<close> of them.)
\<close>
theorem waiting_request_served:
  assumes "client_reachable un limit c" and "caller_at p c = Some Waiting"
    and "op_ids (hh_ops (cl_h c) ! p) \<noteq> []" and "cl_draws c < 2 ^ 32" and "p \<notin> set (cl_orphans c)"
  shows "client_turn un limit (Receive p) c \<noteq> None \<or>
    (\<exists>i \<in> set (op_ids (hh_ops (cl_h c) ! p)). map_of (hh_respWait (cl_h c)) i = Some p) \<and> cl_running c \<and> cl_reading c"
  using waiting_or [OF assms] .

theorem waiting_request_served_witness:
  "let c = state_after (client_run sample_decoder 0 (sent_events sample_call) initClient)
   in client_turn sample_decoder 0 (Receive 0) c \<noteq> None \<or>
      (\<exists>i \<in> set (op_ids (hh_ops (cl_h c) ! 0)). map_of (hh_respWait (cl_h c)) i = Some 0) \<and> cl_running c \<and> cl_reading c"
  using waiting_request_served [of sample_decoder 0 "state_after (client_run sample_decoder 0 (sent_events sample_call) initClient)" 0]
    client_run_reachable [OF _ client_reachable.init, of sample_decoder 0 "sent_events sample_call"]
  by (simp add: run_defs)

text \<open>
  C19. Closing the client releases its callers: afterwards every caller that still waits can
  receive from its channel, unless it was in flight when the read loop failed.
\<close>
theorem close_releases_callers:
  assumes "client_reachable un limit c" and "client_turn un limit CloseClient c = Some (Ret c')"
    and "caller_at p c' = Some Waiting" and "op_ids (hh_ops (cl_h c') ! p) \<noteq> []" and "cl_draws c' < 2 ^ 32"
    and "p \<notin> set (cl_orphans c')"
  shows "client_turn un limit (Receive p) c' \<noteq> None"
proof -
  have "client_reachable un limit c'" using assms(1,2) by (rule client_reachable.turn)
  moreover have "\<not> cl_running c'" using assms(2) by (auto simp: obind_Ret_iff split: if_splits)
  ultimately show ?thesis using waiting_or [OF _ assms(3-6)] by blast
qed


theorem close_releases_callers_witness:
  "let c = state_after (client_run sample_decoder 0 (sent_events sample_call) initClient);
       c' = state_after (client_run sample_decoder 0 (sent_events sample_call @ [CloseClient]) initClient)
   in client_turn sample_decoder 0 CloseClient c = Some (Ret c') \<and> caller_at 0 c' = Some Waiting \<and>
      client_turn sample_decoder 0 (Receive 0) c' \<noteq> None"
  using close_releases_callers [of sample_decoder 0 "state_after (client_run sample_decoder 0 (sent_events sample_call) initClient)"
      "state_after (client_run sample_decoder 0 (sent_events sample_call @ [CloseClient]) initClient)" 0]
    client_run_reachable [OF _ client_reachable.init, of sample_decoder 0 "sent_events sample_call"]
  by (simp add: run_defs)

text \<open>
  C18. What a call or a batch returns belongs to it: when a caller that asked for an answer has
  returned without an error, the batch of messages it got contains a response to one of its
  own ids.
\<close>
theorem returned_responses_match:
  assumes "client_reachable un limit c" and "caller_at p c = Some (Returned rs None)" and "op_resp (hh_ops (cl_h c) ! p) \<noteq> None"
  shows "\<exists>r \<in> set rs. isResponse r \<and> (\<exists>i \<in> set (op_ids (hh_ops (cl_h c) ! p)). jm_ID r = Some i)"
  using request_invD [OF client_inv_reachable [OF assms(1)]] caller_atD [OF assms(2)] assms(3)
  by (auto simp: request_inv_def returned_inv_def answers_op_def)

theorem returned_responses_match_witness:
  "let c = state_after (client_run sample_decoder 0 (sent_events sample_call @ [ReadMsg (message_json sample_response), Receive 0]) initClient)
   in \<exists>r \<in> set [sample_response]. isResponse r \<and> (\<exists>i \<in> set (op_ids (hh_ops (cl_h c) ! 0)). jm_ID r = Some i)"
  using returned_responses_match [of sample_decoder 0
      "state_after (client_run sample_decoder 0 (sent_events sample_call @ [ReadMsg (message_json sample_response), Receive 0]) initClient)" 0
      "[sample_response]"]
    client_run_reachable [OF _ client_reachable.init, of sample_decoder 0
      "sent_events sample_call @ [ReadMsg (message_json sample_response), Receive 0]"]
  by (simp add: run_defs read_sample handleResponses_def response_turn_def handleResp_def subscription_response_def
      sample_response_kind sample_response_id set_op_def dispatch_read_def)

text \<open>
  C35. No two requests share an id, as long as the 32 bit counter has not wrapped around.
\<close>
theorem request_ids_distinct:
  assumes "client_reachable un limit c" and "cl_draws c < 2 ^ 32" and "p < length (hh_ops (cl_h c))"
    and "q < length (hh_ops (cl_h c))" and "p \<noteq> q"
  shows "set (op_ids (hh_ops (cl_h c) ! p)) \<inter> set (op_ids (hh_ops (cl_h c) ! q)) = {}"
  using client_inv_reachable [OF assms(1)] assms(2-5) by (auto simp: client_inv_def ids_disjoint_def)

theorem request_ids_distinct_witness:
  "let c = state_after (client_run sample_decoder 0 [Start sample_call, Start sample_call] initClient)
   in set (op_ids (hh_ops (cl_h c) ! 0)) \<inter> set (op_ids (hh_ops (cl_h c) ! 1)) = {}"
  using request_ids_distinct [of sample_decoder 0 "state_after (client_run sample_decoder 0 [Start sample_call, Start sample_call] initClient)" 0 1]
    client_run_reachable [OF _ client_reachable.init, of sample_decoder 0 "[Start sample_call, Start sample_call]"]
  by (simp add: run_defs)

lemma forgotten_run:
  "client_run un limit es c = Some (Ret c') \<Longrightarrow> client_inv c \<Longrightarrow> forgotten c p \<Longrightarrow> (\<And>e. ReqTimeout p e \<notin> set es) \<Longrightarrow>
   forgotten c' p"
proof (induction es arbitrary: c)
  case (Cons e es)
  then obtain c1 where c1: "client_turn un limit e c = Some (Ret c1)" "client_run un limit es c1 = Some (Ret c')"
    by (auto split: option.splits outcome.splits)
  moreover have "client_inv c1" using client_turn_ok [OF Cons.prems(2) c1(1)] by blast
  moreover have "forgotten c1 p"
    using Cons.prems(4) by (intro forgotten_turn [OF Cons.prems(2,3) c1(1)]) (metis list.set_intros(1))
  ultimately show ?case using Cons.IH [OF c1(2)] Cons.prems(4) by (meson list.set_intros(2))
qed simp

lemma forgotten_waits: "forgotten c p \<Longrightarrow> caller_at p c = Some Waiting \<and> client_turn un limit (Receive p) c = None"
  by (auto simp: forgotten_def caller_at_def op_buf_def op_closed_def split: option.splits list.splits)

text \<open>
  C36. A call whose request was written before the dispatch loop learned that the connection
  had failed is lost: it is skipped when the other requests are closed, it is registered
  nowhere, and from then on no sequence of steps lets it return, closing the client included,
  except the end of its own context.
\<close>
theorem in_flight_request_lost:
  assumes "client_run un limit (lost_events (RCall m None) err) initClient = Some (Ret c)"
    and "client_run un limit es c = Some (Ret c')" and "\<And>e. ReqTimeout 0 e \<notin> set es"
  shows "caller_at 0 c' = Some Waiting \<and> client_turn un limit (Receive 0) c' = None"
proof -
  have "forgotten (state_after (client_run un limit (lost_events (RCall m None) err) initClient)) 0"
    by (simp add: run_defs forgotten_def waits_for_def op_buf_def op_closed_def)
  then have "forgotten c 0" by (simp add: assms(1))
  moreover have "client_inv c"
    using client_run_reachable [OF assms(1) client_reachable.init] by (rule client_inv_reachable)
  ultimately have "forgotten c' 0" using forgotten_run [OF assms(2)] assms(3) by blast
  then show ?thesis by (rule forgotten_waits)
qed

theorem in_flight_request_lost_witness:
  "let c = state_after (client_run sample_decoder 0 (lost_events sample_call (OtherError ''EOF'')) initClient);
       c' = state_after (client_run sample_decoder 0 [CloseClient] c)
   in client_run sample_decoder 0 [CloseClient] c = Some (Ret c') \<and>
      caller_at 0 c' = Some Waiting \<and> client_turn sample_decoder 0 (Receive 0) c' = None"
proof -
  let ?c = "state_after (client_run sample_decoder 0 (lost_events sample_call (OtherError ''EOF'')) initClient)"
  let ?c' = "state_after (client_run sample_decoder 0 [CloseClient] ?c)"
  have 1: "client_run sample_decoder 0 (lost_events (RCall ''block_broadCastDelay'' None) (OtherError ''EOF'')) initClient = Some (Ret ?c)"
    by (simp add: run_defs)
  have 2: "client_run sample_decoder 0 [CloseClient] ?c = Some (Ret ?c')" by (simp add: run_defs)
  have 3: "ReqTimeout 0 e \<notin> set [CloseClient]" for e by simp
  from in_flight_request_lost [OF 1 2 3] 2 show ?thesis unfolding Let_def by blast
qed

text \<open>
  C37. An empty batch is sent and then waited for although it has no id that a response could
  carry: no message from the server and not even closing the client lets it return, only the
  end of its context, and \<^verbatim>\<open>BatchCall\<close> gives it one that never ends.
\<close>
theorem empty_batch_waits:
  assumes "client_run un limit (sent_events (RBatch []) @ [ReqSent]) initClient = Some (Ret c)"
    and "client_run un limit es c = Some (Ret c')" and "\<And>e. ReqTimeout 0 e \<notin> set es"
  shows "caller_at 0 c' = Some Waiting \<and> client_turn un limit (Receive 0) c' = None"
proof -
  have "forgotten (state_after (client_run un limit (sent_events (RBatch []) @ [ReqSent]) initClient)) 0"
    by (simp add: run_defs forgotten_def waits_for_def op_buf_def op_closed_def)
  then have "forgotten c 0" by (simp add: assms(1))
  moreover have "client_inv c"
    using client_run_reachable [OF assms(1) client_reachable.init] by (rule client_inv_reachable)
  ultimately have "forgotten c' 0" using forgotten_run [OF assms(2)] assms(3) by blast
  then show ?thesis by (rule forgotten_waits)
qed

theorem empty_batch_waits_witness:
  "let c = state_after (client_run sample_decoder 0 (sent_events (RBatch []) @ [ReqSent]) initClient);
       c' = state_after (client_run sample_decoder 0 [CloseClient] c)
   in client_run sample_decoder 0 [CloseClient] c = Some (Ret c') \<and>
      caller_at 0 c' = Some Waiting \<and> client_turn sample_decoder 0 (Receive 0) c' = None"
proof -
  let ?c = "state_after (client_run sample_decoder 0 (sent_events (RBatch []) @ [ReqSent]) initClient)"
  let ?c' = "state_after (client_run sample_decoder 0 [CloseClient] ?c)"
  have 1: "client_run sample_decoder 0 (sent_events (RBatch []) @ [ReqSent]) initClient = Some (Ret ?c)" by (simp add: run_defs)
  have 2: "client_run sample_decoder 0 [CloseClient] ?c = Some (Ret ?c')" by (simp add: run_defs)
  have 3: "ReqTimeout 0 e \<notin> set [CloseClient]" for e by simp
  from empty_batch_waits [OF 1 2 3] 2 show ?thesis unfolding Let_def by blast
qed

text \<open>
  C15. The loops that match the responses of a batch to its elements through a map by id, and
  then mark what is left over, do what a direct definition does: each element takes the first
  response with its own id, and is marked as missing if there is none.
\<close>
theorem batch_responses_matched:
  assumes "distinct ids" and "length ids = length b"
  shows "BatchCallContext_end ids rs b =
    map2 (\<lambda>i elem. case response_for rs i of None \<Rightarrow> missing_response elem | Some r \<Rightarrow> elem_assign r elem) ids b"
proof (rule nth_equalityI)
  show l: "length (BatchCallContext_end ids rs b) = length (map2 (\<lambda>i elem. case response_for rs i of None \<Rightarrow> missing_response elem
    | Some r \<Rightarrow> elem_assign r elem) ids b)"
    using assms(2) by (simp add: BatchCallContext_end_length)
  fix k
  assume "k < length (BatchCallContext_end ids rs b)"
  then show "BatchCallContext_end ids rs b ! k = map2 (\<lambda>i elem. case response_for rs i of None \<Rightarrow> missing_response elem
    | Some r \<Rightarrow> elem_assign r elem) ids b ! k"
    using BatchCallContext_end_nth [OF assms, of k rs] l assms(2) by simp
qed

theorem batch_responses_matched_witness:
  "let b = replicate 2 \<lparr>be_unmarshal = \<lambda>j. Inr j, be_Result = None, be_Error = None\<rparr>; rs = [None, Some sample_response]
   in map be_Error (BatchCallContext_end [id_json 1, id_json 2] rs b) = [None, Some ErrMissingBatchResponse]"
proof -
  let ?b = "replicate 2 \<lparr>be_unmarshal = \<lambda>j. Inr j, be_Result = None, be_Error = None\<rparr> :: json BatchElem list"
  have d: "id_json 1 \<noteq> id_json 2" using id_json_inj [of 1 2] by auto
  then have "distinct [id_json 1, id_json 2]" by simp
  from batch_responses_matched [OF this, of ?b "[None, Some sample_response]"] d show ?thesis
    by (simp add: numeral_2_eq_2 sample_response_def zeroMessage_def elem_assign_def missing_response_def)
qed

section \<open>The handler\<close>


lemma sample_message_facts:
  "isCall sample_message" "readBatch (message_json sample_message) = ([sample_message], False)"
  "jm_Error sample_message = None" "jm_Params sample_message = None"
proof -
  show "isCall sample_message" "jm_Error sample_message = None" "jm_Params sample_message = None"
    by (simp_all add: sample_message_def zeroMessage_def isCall_def hasValidVersion_def hasValidID_def)
  then have "parse_one (message_json sample_message) = Some sample_message" by (intro message_decode) simp
  then show "readBatch (message_json sample_message) = ([sample_message], False)"
    by (simp add: readBatch_def parseMessage_def message_json_def)
qed


text \<open>
  C9. However the goroutine that runs the calls of a batch, the timer and the end of the
  connection interleave, at most one array of responses is written. It holds one response per
  call in the order of the calls, for all of them, or for the first of them if the context was
  cancelled.
\<close>
theorem batch_written_once:
  assumes "batch_reachable (handler_calls H) len maxSize msgs s"
  shows "bs_out s = [] \<or>
    (\<exists>rs e. bs_out s = [(rs, e)] \<and> rs \<noteq> [] \<and>
       (answered msgs rs \<or> bs_cancelled s \<and> (\<exists>xs ys. msgs = xs @ ys \<and> answered xs rs)))"
  using handler_batch.batch_inv_reachable [OF assms] by (simp add: batch_inv_def written_ok_def)

theorem batch_written_once_witness:
  "bs_out (batch_start [sample_message] True) = [] \<or>
    (\<exists>rs e. bs_out (batch_start [sample_message] True) = [(rs, e)] \<and> rs \<noteq> [] \<and>
       (answered [sample_message] rs \<or>
        bs_cancelled (batch_start [sample_message] True) \<and> (\<exists>xs ys. [sample_message] = xs @ ys \<and> answered xs rs)))"
  by (rule batch_written_once [of sample_conf "\<lambda>j. 0" 0]) (rule batch_reachable.start)

text \<open>
  C39. The second case of the previous property happens: when the timer cancels the context
  during the first of two calls and the goroutine is faster to write than the timer to answer,
  the batch is answered with the first response alone, marked as no error, and the second call
  stays without any answer although both goroutines have ended.
\<close>
theorem batch_cut_short:
  assumes "handler_calls H a (Some ra)"
  shows "\<exists>s. batch_reachable (handler_calls H) len 0 [a, b] s \<and> bs_proc s = Finished \<and> bs_timer s = TimerDone \<and>
    bs_out s = [([ra], False)]"
proof -
  let ?R = "batch_reachable (handler_calls H) len 0 [a, b]"
  let ?B = "\<lparr>bb_calls = [b], bb_resp = [ra], bb_wrote = False\<rparr>"
  define s where "s t p = \<lparr>bs_buf = ?B, bs_out = [], bs_cancelled = True, bs_timer = t, bs_proc = p,
    bs_bytes = answer_bytes len (Some ra)\<rparr>" for t p
  have 0: "?R (batch_start [a, b] True)" by (rule batch_reachable.start)
  have 1: "?R ((batch_start [a, b] True)\<lparr>bs_proc := Running a\<rparr>)"
    by (rule batch_reachable.step [OF 0 batch_step.next_call]) (simp_all add: batch_start_def nextCall_def)
  have 2: "?R ((batch_start [a, b] True)\<lparr>bs_proc := Running a, bs_timer := TimerFiring, bs_cancelled := True\<rparr>)"
    by (rule batch_reachable.step [OF 1 batch_step.fire]) (simp add: batch_start_def)
  have 3: "?R (s TimerFiring Looping)"
    using batch_reachable.step [OF 2 batch_step.call_done [where calls = "handler_calls H" and msg = a and a = "Some ra"]] assms
    by (simp add: s_def batch_start_def pushResponse_def)
  have 4: "?R (s TimerFiring Stopping)"
    using batch_reachable.step [OF 3 batch_step.see_cancelled] by (simp add: s_def)
  have 5: "?R (s TimerFiring proc_state.Writing)"
    using batch_reachable.step [OF 4 batch_step.stop_timer] by (simp add: s_def)
  have 6: "?R (on_buf buffer_write ((s TimerFiring proc_state.Writing)\<lparr>bs_proc := Finished\<rparr>))"
    by (rule batch_reachable.step [OF 5 batch_step.write_out]) (simp add: s_def)
  have 7: "?R (on_buf (respondWithError errTimeout)
      ((on_buf buffer_write ((s TimerFiring proc_state.Writing)\<lparr>bs_proc := Finished\<rparr>))\<lparr>bs_timer := TimerDone\<rparr>))"
    by (rule batch_reachable.step [OF 6 batch_step.timeout]) (simp add: s_def on_buf_def buffer_write_def doWrite_def)
  show ?thesis
    by (rule exI, rule conjI, rule 7) (simp add: s_def on_buf_def buffer_write_def doWrite_def respondWithError_def)
qed

lemma sample_not_found:
  "handler_calls sample_conf sample_message (Some (errorResponse sample_message (methodNotFoundError ''block_x'')))"
proof -
  have "\<not> isNotification sample_message" using message_kinds(1) [of sample_message] sample_message_facts(1) by blast
  moreover have "\<not> isSubscribe sample_message" "\<not> isUnsubscribe sample_message"
    by (simp_all add: isSubscribe_def isUnsubscribe_def sample_message_def HasSuffix_def subscribeMethodSuffix_def unsubscribeMethodSuffix_def)
  moreover have "jm_Method sample_message = ''block_x''" by (simp add: sample_message_def)
  moreover have "registry_callback (hc_reg sample_conf) ''block_x'' = None" by (simp add: sample_conf_def registry_callback_def Let_def)
  ultimately have "handleCallMsg sample_conf sample_message sample_state =
      (Ret (Some (errorResponse sample_message (methodNotFoundError ''block_x''))), sample_state)"
    using sample_message_facts(1) by (simp add: handleCallMsg_def handleCall_def gret_run)
  then show ?thesis unfolding handler_calls_def by blast
qed

theorem batch_cut_short_witness:
  "\<exists>s. batch_reachable (handler_calls sample_conf) (\<lambda>j. 0) 0 [sample_message, sample_message] s \<and> bs_proc s = Finished \<and>
    bs_timer s = TimerDone \<and> bs_out s = [([errorResponse sample_message (methodNotFoundError ''block_x'')], False)]"
  using batch_cut_short [OF sample_not_found] .

text \<open>
  C17. A single message is answered at most once, whether by the method or by the timeout. If
  it is a call, its response is out before a subscription that it made is activated, and it
  is there when the goroutine ends.
\<close>
theorem single_call_answered:
  assumes "single_reachable (handler_calls H) msg s"
  shows "length (sg_out s) \<le> 1 \<and>
    (isCall msg \<and> (sg_proc s = Activating \<or> sg_proc s = CallOver) \<longrightarrow>
       (\<exists>r e. sg_out s = [(r, e)] \<and> isResponse r \<and> jm_ID r = jm_ID msg))"
  using handler_batch.single_inv_reachable [OF assms] message_kinds(1) [of msg] errorResponse_answers [of msg]
  by (auto simp: single_inv_def answers_def split: if_splits)

theorem single_call_answered_witness:
  "\<exists>s r e. single_reachable (handler_calls sample_conf) sample_message s \<and> sg_proc s = CallOver \<and> length (sg_out s) \<le> 1 \<and>
    sg_out s = [(r, e)] \<and> isResponse r \<and> jm_ID r = jm_ID sample_message"
proof -
  let ?R = "single_reachable (handler_calls sample_conf) sample_message"
  let ?a = "errorResponse sample_message (methodNotFoundError ''block_x'')"
  have 1: "?R ((single_start False)\<lparr>sg_proc := Returning (Some ?a)\<rparr>)"
    using single_reachable.step [OF single_reachable.start [of _ _ False] single_step.call_done [where calls = "handler_calls sample_conf"
        and msg = sample_message and a = "Some ?a"]] sample_not_found
    by (simp add: single_start_def)
  have 2: "?R ((single_start False)\<lparr>sg_proc := Replying (Some ?a)\<rparr>)"
    using single_reachable.step [OF 1 single_step.stop_timer] by (simp add: single_start_def)
  have 3: "?R (respond_once ?a False ((single_start False)\<lparr>sg_proc := Activating\<rparr>))"
    using single_reachable.step [OF 2 single_step.answer] by simp
  define s where "s = (respond_once ?a False ((single_start False)\<lparr>sg_proc := Activating\<rparr>))\<lparr>sg_proc := CallOver, sg_cancelled := True\<rparr>"
  have 4: "?R s" unfolding s_def by (rule single_reachable.step [OF 3 single_step.activate]) simp
  have "sg_proc s = CallOver" by (simp add: s_def)
  with single_call_answered [OF 4] sample_message_facts(1) 4 show ?thesis by blast
qed

text \<open>
  A notification wants no answer, and in a batch it never gets one. Alone it does when it
  times out: an error response without any id.
\<close>
theorem notification_answered:
  assumes "isNotification msg"
  shows "\<exists>s. single_reachable (handler_calls H) msg s \<and> sg_out s = [(errorResponse msg errTimeout, True)] \<and>
    jm_ID (errorResponse msg errTimeout) = None"
proof -
  let ?s = "(single_start True)\<lparr>sg_timer := TimerFiring, sg_cancelled := True\<rparr>"
  have "single_reachable (handler_calls H) msg ?s"
    by (rule single_reachable.step [OF single_reachable.start [of _ _ True] single_step.fire]) (simp add: single_start_def)
  from single_reachable.step [OF this single_step.timeout]
  have "single_reachable (handler_calls H) msg (respond_once (errorResponse msg errTimeout) True (?s\<lparr>sg_timer := TimerDone\<rparr>))"
    by simp
  then show ?thesis
    using assms by (intro exI conjI) (auto simp: single_start_def isNotification_def)
qed

theorem notification_answered_witness:
  "\<exists>s. single_reachable (handler_calls sample_conf) sample_notification s \<and>
    sg_out s = [(errorResponse sample_notification errTimeout, True)] \<and>
    jm_ID (errorResponse sample_notification errTimeout) = None"
  by (rule notification_answered)
    (simp add: sample_notification_def sample_message_def zeroMessage_def isNotification_def hasValidVersion_def)

section \<open>Messages and methods\<close>



text \<open>
  C30. The arguments a method is called with are complete and typed: there is one per
  parameter; the given ones are what their parameter's decoder makes of them, the missing ones
  belong to pointer parameters and are nil.
\<close>
theorem arguments_complete:
  assumes "parsePositionalArguments (Some (JArr js)) types = Inr vs"
  shows "length vs = length types \<and> length js \<le> length types \<and>
    (\<forall>k < length js. pt_decode (types ! k) (js ! k) = Inr (vs ! k)) \<and>
    (\<forall>k < length types. length js \<le> k \<longrightarrow> pt_isPtr (types ! k) \<and> vs ! k = pt_zero (types ! k))"
proof -
  from assms obtain args where a: "parseArgumentArray js types [] = Inr args"
    and f: "fill_missing (drop (length args) types) args = Inr vs"
    by (auto simp: parsePositionalArguments_def split: sum.splits)
  from parseArgumentArray_nth [OF a] have d: "length args = length js" "length js \<le> length types"
    "\<And>k. k < length js \<Longrightarrow> pt_decode (types ! k) (js ! k) = Inr (args ! k)" by auto
  from fill_missing_nth [OF f] d(1,2) have m: "vs = args @ map pt_zero (drop (length js) types)" "list_all pt_isPtr (drop (length js) types)"
    by auto
  show ?thesis using d m by (auto simp: nth_append list_all_length)
    (metis add_diff_inverse_nat diff_less_mono leD)
qed


theorem arguments_complete_witness:
  "let types = [sample_param, sample_param\<lparr>pt_isPtr := True\<rparr>]
   in length [JStr ''a'', JNull] = length types \<and> length [JStr ''a''] \<le> length types \<and>
      (\<forall>k < length [JStr ''a'']. pt_decode (types ! k) ([JStr ''a''] ! k) = Inr ([JStr ''a'', JNull] ! k)) \<and>
      (\<forall>k < length types. length [JStr ''a''] \<le> k \<longrightarrow> pt_isPtr (types ! k) \<and> [JStr ''a'', JNull] ! k = pt_zero (types ! k))"
  unfolding Let_def
  by (rule arguments_complete) (simp add: parsePositionalArguments_def sample_param_def)

text \<open>
  C31. Registering a list of APIs implements the table it is meant to be: if it succeeds, a
  method of an allowed module is found under the module's name, an underscore and its own name
  in lower camel case, and it is the callback that reflection made of it; a module that is not
  allowed adds nothing.
\<close>
theorem registered_methods_found:
  assumes "RegisterApis apis modules srv = (None, srv')" and "distinct (map fst apis)" and "CHR ''_'' \<notin> set ns"
  shows "((ns, ms) \<in> set apis \<and> (ns \<in> set modules \<or> modules = []) \<and> last_callback ms m = Some cb \<and> \<not> cb_isSubscribe cb \<longrightarrow>
      registry_callback (rs_services srv') (ns @ CHR ''_'' # m) = Some cb) \<and>
    (ns \<notin> set modules \<and> modules \<noteq> [] \<longrightarrow>
      registry_callback (rs_services srv') (ns @ CHR ''_'' # m) = registry_callback (rs_services srv) (ns @ CHR ''_'' # m))"
  using RegisterApis_found [OF assms(1,2) _ _ _ _ assms(3)] RegisterApis_hidden [OF assms(1) _ _ assms(3)] by blast

theorem registered_methods_found_witness:
  "\<exists>srv'. RegisterApis [(''block'', [sample_method])] [] sample_server = (None, srv') \<and>
    registry_callback (rs_services srv') ''block_x'' = method_callback sample_method"
proof -
  obtain cb where cb: "method_callback sample_method = Some cb" "\<not> cb_isSubscribe cb"
    by (simp add: sample_method_def method_callback_def newCallback_def makeArgTypes_def isPubSub_def)
  then obtain srv' where r: "RegisterApis [(''block'', [sample_method])] [] sample_server = (None, srv')"
    by (simp add: RegisterApis_def RegisterName_def registerName_def suitableCallbacks_def Let_def)
  have "last_callback [sample_method] ''x'' = Some cb"
  proof -
    have "lower_char CHR ''X'' = CHR ''x''" by code_simp
    then show ?thesis using cb by (simp add: last_callback_def sample_method_def formatName_def)
  qed
  with registered_methods_found [OF r, of "''block''" "[sample_method]" "''x''" cb] cb r show ?thesis by simp
qed

section \<open>Subscriptions\<close>



text \<open>
  C29. The forwarding loop of a client subscription never holds more than 20000 values, and
  what it has handed on is, in order, the beginning of what came in and could be decoded.
\<close>
theorem forwarding_bounded:
  assumes "forward_run unmarshal es forward_start = Some s"
  shows "length (fw_buffer s) \<le> 20000 \<and> prefix (fw_sent s @ fw_buffer s) (received unmarshal es) \<and>
    (fw_result s = None \<longrightarrow> fw_sent s @ fw_buffer s = received unmarshal es)"
  using forward_run_inv [OF assms, of "[]"]
  by (auto simp: forward_inv_def forward_start_def maxClientSubscriptionBuffer_def)

theorem forwarding_bounded_witness:
  "let s = \<lparr>fw_buffer = [JNull], fw_sent = [JBool True], fw_result = None\<rparr>; es = [FwIn (Some (JBool True)), FwIn (Some JNull), FwSend]
   in length (fw_buffer s) \<le> 20000 \<and> prefix (fw_sent s @ fw_buffer s) (received (sample_decoder 0) es) \<and>
      (fw_result s = None \<longrightarrow> fw_sent s @ fw_buffer s = received (sample_decoder 0) es)"
  unfolding Let_def
  by (rule forwarding_bounded)
    (simp add: forward_turn_def forward_start_def sub_unmarshal_def sample_decoder_def maxClientSubscriptionBuffer_def)

section \<open>HTTP\<close>

text \<open>
  C40. A notification over HTTP never succeeds: it has no channel, so when the server's reply
  can be decoded the client waits for ever on a send to a nil channel, and otherwise (an empty
  reply included, which is what a notification gets) it reports an error.
\<close>
theorem notify_http_never_succeeds:
  "Notify_http answer \<noteq> Ret None \<and>
   (\<forall>a j msg. answer = Inr a \<and> ha_json a = Inr j \<and> dec_struct jsonrpcMessage_fields j zeroMessage = (msg, False) \<longrightarrow>
      Notify_http answer = Hang)"
  using Notify_http_never_ok Notify_http_hangs by blast

theorem notify_http_never_succeeds_witness: "Notify_http (Inr sample_reply) = Hang"
proof -
  have "dec_struct jsonrpcMessage_fields (message_json sample_message) zeroMessage = (sample_message, False)"
    by (rule message_struct) (simp add: sample_message_facts(3))
  with notify_http_never_succeeds [of "Inr sample_reply"] show ?thesis by (simp add: sample_reply_def)
qed

text \<open>
  The server's own timeout for a request comes at least a tenth of a second before the
  write timeout of the HTTP server, once the timeouts are sanitized, and it is never later
  than the deadline of the request's context.
\<close>
theorem request_timeout_early:
  assumes "ContextRequestTimeout untilDeadline (Some (to_Write (CheckTimeouts t))) = (timeout, has)"
    and "is_i64 (to_Write (CheckTimeouts t))"
  shows "has \<and> timeout \<le> to_Write (CheckTimeouts t) - 100000000 \<and> (\<forall>d. untilDeadline = Some d \<longrightarrow> timeout \<le> d) \<and>
    (untilDeadline = None \<longrightarrow> 900000000 \<le> timeout)"
  using ContextRequestTimeout_write [OF CheckTimeouts_bounds(3) assms(2), of untilDeadline] assms(1) CheckTimeouts_bounds(3) [of t]
  by (auto split: option.splits)

theorem request_timeout_early_witness:
  "ContextRequestTimeout (Some 5) (Some (to_Write (CheckTimeouts zeroTimeouts))) = (5, True) \<and>
    5 \<le> to_Write (CheckTimeouts zeroTimeouts) - 100000000"
  using request_timeout_early [of "Some 5" zeroTimeouts 5 True]
  by (simp add: ContextRequestTimeout_def tighten_def CheckTimeouts_def at_least_second_def DefaultHTTPTimeouts_def zeroTimeouts_def
      max_i64_def i64_def is_i64_def)

text \<open>
  C26. The HTTP server keeps account of its RPC servers through every sequence of operations:
  each one that was enabled is in use or was stopped, exactly once. Stopping a server that
  listens stops them all and leaves it free for a new address.
\<close>
theorem stack_accounts:
  assumes "stack_reachable h enabled stopped"
  shows "mset enabled = current_servers h + mset stopped \<and>
    (ht_listener h \<noteq> None \<longrightarrow> ht_server h \<noteq> None \<and> ht_endpoint h = JoinHostPort (ht_host h) (FormatInt (ht_port h))) \<and>
    (\<forall>ss h'. ht_listener h \<noteq> None \<and> doStop h = (ss, h') \<longrightarrow>
       mset enabled = mset (ss @ stopped) \<and> current_servers h' = {#} \<and> (\<forall>host port. fst (setListenAddr host port h') = None))"
  using stack_inv_reachable [OF assms]
  by (auto simp: stack_inv_def doStop_def disableRPC_def disableWS_def current_servers_def setListenAddr_def Let_def split: option.splits)

theorem stack_accounts_witness:
  "let h = snd (snd (http_start Inr sample_stack)); (ss, h') = doStop h
   in ht_listener h \<noteq> None \<and> mset [] = mset (ss @ []) \<and> (\<forall>host port. fst (setListenAddr host port h') = None)"
proof -
  have 1: "stack_reachable sample_stack [] []"
    unfolding sample_stack_def by (rule stack_reachable.addr [OF stack_reachable.new]) (simp add: setListenAddr_def newHTTPServer_def)
  let ?h = "snd (snd (http_start Inr sample_stack))"
  have "stack_reachable ?h [] ([] @ [])"
    by (rule stack_reachable.start [OF 1, of Inr None]) (simp add: http_start_def sample_stack_def setListenAddr_def newHTTPServer_def JoinHostPort_def)
  then have 2: "stack_reachable ?h [] []" by simp
  have l: "ht_listener ?h \<noteq> None"
    by (simp add: http_start_def sample_stack_def setListenAddr_def newHTTPServer_def JoinHostPort_def)
  obtain ss h' where d: "doStop ?h = (ss, h')" by force
  from stack_accounts [OF 2] l d have "mset ([] :: (json, unit) rpc_server list) = mset (ss @ [])"
    "\<forall>host port. fst (setListenAddr host port h') = None" by blast+
  with l d show ?thesis by simp
qed

end
