(* ===== verification/Connection_Correct.thy ===== *)
theory Connection_Correct
  imports Rpc_Reader Rpc_Unsubscribe Rpc_Gzip Rpc_Batch_Http Rpc_Correct
begin

text \<open>
  The properties of connections: the keep-alive of websockets, the connections of a server that
  is stopped, the end of subscriptions, and batches from the client to the server and back. Each
  rests on the lemmas of the component's theory.
\<close>

section \<open>Samples\<close>

definition sample_ws :: websocketCodec where
  "sample_ws = newWebsocketCodec (\<lambda>k. k) ''10.0.0.1:5'' 0 ''localhost'' [] wsDefaultReadLimit"

fun ws_after :: "websocketCodec outcome option \<Rightarrow> websocketCodec" where
  "ws_after (Some (Ret wc)) = wc"
| "ws_after _ = sample_ws"

definition sample_ws_pinged :: websocketCodec where
  "sample_ws_pinged =
     ws_after (ws_turn LoopTimer (ws_after (ws_turn TimerExpires (ws_after (ws_turn (Tick wsPingInterval) sample_ws)))))"








definition sample_reading :: read_world where
  "sample_reading =
     read_start\<lparr>rd_input := [ReadOk JNull], rd_told := [ReadOk JNull], rd_closed := True, rd_dispatch := Draining\<rparr>"

section \<open>Websockets\<close>

text \<open>
  C23. The keep-alive loop of a websocket connection keeps its promises under every
  interleaving of writers, timer, reader and closing: no step panics or blocks for ever, the
  connection is closed at most once, the deadline for reading is set exactly while the last ping
  has not been answered and is thirty seconds after that ping, the timer is never set further
  ahead than the interval, and a closed codec lets \<^verbatim>\<open>close\<close> return.
\<close>
theorem websocket_keepalive:
  assumes "ws_reachable wc"
  shows "(\<forall>e r. ws_turn e wc = Some r \<longrightarrow> (\<exists>wc'. r = Ret wc')) \<and> jc_connClosed wc \<le> 1 \<and>
    wc_readDeadline wc = map_option (\<lambda>t. t + wsPongTimeout) (unanswered_ping (wc_marks wc)) \<and>
    (\<forall>t. wc_pingTimer wc = TimerArmed t \<longrightarrow> t \<le> wc_now wc + wsPingInterval) \<and>
    (codec_closed wc \<longrightarrow> ws_close_returns wc \<or> (\<exists>wc'. ws_turn LoopClosed wc = Some (Ret wc') \<and> ws_close_returns wc'))"
proof -
  note inv = wsl.reach_inv [OF assms]
  from ws_turn_returns [OF inv] ws_progress(1) [OF inv] inv show ?thesis by (simp add: ws_inv_def)
qed

lemma sample_ws_pinged_fields:
  "wc_readDeadline sample_ws_pinged = Some (wsPingInterval + wsPongTimeout)" "wc_marks sample_ws_pinged = [Pinged wsPingInterval]"
  by (simp_all add: sample_ws_pinged_def sample_ws_def newWebsocketCodec_def NewFuncCodec_def jsonCodec.defs websocketCodec.defs
      ping_on_timer_def wsPingInterval_def second_def)

lemma sample_ws_reachable: "ws_reachable sample_ws_pinged"
proof -
  let ?a = "ws_after (ws_turn (Tick wsPingInterval) sample_ws)"
  let ?b = "ws_after (ws_turn TimerExpires ?a)"
  have "ws_reachable sample_ws" unfolding sample_ws_def by (intro turns_reach.start ws_start.intros)
  moreover have "ws_turn (Tick wsPingInterval) sample_ws = Some (Ret ?a)" by (simp add: wsPingInterval_def second_def)
  ultimately have "ws_reachable ?a" by (rule turns_reach.step)
  moreover have "ws_turn TimerExpires ?a = Some (Ret ?b)" "ws_turn LoopTimer ?b = Some (Ret sample_ws_pinged)"
    by (simp_all add: sample_ws_pinged_def sample_ws_def newWebsocketCodec_def NewFuncCodec_def jsonCodec.defs websocketCodec.defs
        wsPingInterval_def second_def)
  ultimately show ?thesis by (meson turns_reach.step)
qed

theorem websocket_keepalive_witness:
  "wc_readDeadline sample_ws_pinged = Some (60 * second) \<and> jc_connClosed sample_ws_pinged \<le> 1 \<and>
   (\<exists>wc'. ws_turn CloseCodec sample_ws_pinged = Some (Ret wc'))"
proof -
  obtain r where r: "ws_turn CloseCodec sample_ws_pinged = Some r" by simp
  with websocket_keepalive [OF sample_ws_reachable] obtain wc' where "r = Ret wc'" by blast
  with r websocket_keepalive [OF sample_ws_reachable] show ?thesis
    by (simp add: sample_ws_pinged_fields wsPingInterval_def wsPongTimeout_def)
qed

section \<open>Stopping a server\<close>




section \<open>Unsubscribing\<close>



section \<open>The reader of a connection\<close>

text \<open>
  C25. The dispatch loop handles what the peer sent in the order it was sent and nothing twice,
  whatever the interleaving of peer, reader and dispatch loop. When the connection is closed or
  replaced, \<^verbatim>\<open>drainRead\<close> returns and the reader has ended after at most two steps for every
  message that had arrived and three more, so no goroutine stays behind.
\<close>
theorem reader_drained:
  assumes "read_reachable w"
  shows "(\<forall>e r. read_turn e w = Some r \<longrightarrow> (\<exists>w'. r = Ret w')) \<and>
    (\<exists>rest. rd_told w = map ReadOk (rd_handled w) @ rest) \<and>
    (rd_dispatch w = Draining \<longrightarrow>
      (\<exists>es w'. set es \<subseteq> drain_steps \<and> length es \<le> 2 * length (rd_input w) + 3 \<and>
         turns_run read_turn es w = Some (Ret w') \<and> rd_dispatch w' = Drained \<and> rd_reader w' = ReaderEnded))"
proof -
  note inv = rdl.reach_inv [OF assms]
  have "\<exists>es w'. set es \<subseteq> drain_steps \<and> length es \<le> 2 * length (rd_input w) + 3 \<and>
      turns_run read_turn es w = Some (Ret w') \<and> rd_dispatch w' = Drained \<and> rd_reader w' = ReaderEnded" if d: "rd_dispatch w = Draining"
  proof -
    from drainRead_returns [OF inv d] obtain es w' where
      e: "set es \<subseteq> drain_steps" "length es \<le> drain_left w" "turns_run read_turn es w = Some (Ret w')" "rd_dispatch w' = Drained" by blast
    have "drain_left w \<le> 2 * length (rd_input w) + 3" by (cases "rd_reader w") (simp_all add: drain_left_def)
    moreover have "rd_reader w' = ReaderEnded" using rdl.run_inv [OF e(3) inv] e(4) by (simp add: read_inv_def)
    ultimately show ?thesis using e by (intro exI [of _ es] exI [of _ w']) simp
  qed
  moreover have "\<exists>rest. rd_told w = map ReadOk (rd_handled w) @ rest" using inv by (auto simp: read_inv_def)
  ultimately show ?thesis using rdl.turn_returns [OF assms] by blast
qed

theorem reader_drained_witness:
  "\<exists>es w'. length es \<le> 5 \<and> turns_run read_turn es sample_reading = Some (Ret w') \<and> rd_reader w' = ReaderEnded"
proof -
  have "turns_run read_turn [PeerSends (ReadOk JNull), CloseConn] read_start = Some (Ret sample_reading)"
    by (simp add: read_start_def sample_reading_def)
  moreover have "read_reachable read_start" by (rule turns_reach.start) simp
  ultimately have "read_reachable sample_reading" by (rule turns_run_reach)
  from reader_drained [OF this] show ?thesis by (simp add: sample_reading_def read_start_def) blast
qed

section \<open>Batches over HTTP\<close>





end
