(* ===== verification/Attacker_Main.thy ===== *)
theory Attacker_Main
  imports Attacker_Rpc Reward
begin

text \<open>
  The two programs: \<^verbatim>\<open>src/cmd/attacker\<close> (the service with its command line) and
  \<^verbatim>\<open>src/cmd/rewards\<close>, the version strings of \<^verbatim>\<open>src/versions\<close>, and the constructor of the typed
  client in \<^verbatim>\<open>src/attackclient\<close>. Flags, the search for a configuration file and the rotating log
  file belong to libraries and are arguments or left out.

  Shown here: the background task of the service, which writes the reward report every minute
  and goes on after an error, always leaves a complete report or the one that was there.
\<close>

section \<open>Configuration and logging\<close>

datatype log_level = InfoLevel | DebugLevel | ErrorLevel

definition getLogLevel :: "string \<Rightarrow> log_level" where
  "getLogLevel level =
     (if level = ''info'' then InfoLevel
      else if level = ''debug'' then DebugLevel
      else if level = ''error'' then ErrorLevel
      else InfoLevel)"

text \<open>What \<^verbatim>\<open>InitLog\<close> sets: the level, and the file of the hook if there is a path.\<close>

definition InitLog :: "string \<Rightarrow> string \<Rightarrow> log_level \<times> string option" where
  "InitLog logLevel logPath = (getLogLevel logLevel, if logPath \<noteq> [] then Some logPath else None)"

text \<open>
  \<open>found\<close>: what the search of viper answers, an error or the file it used. A call of
  \<^verbatim>\<open>log.Fatal\<close> ends the program; its message is on the left.
\<close>

definition initConfig ::
  "(string \<Rightarrow> string + string) \<Rightarrow> (string \<Rightarrow> string + Config) \<Rightarrow> string + string \<Rightarrow> string \<Rightarrow> (string + Config) outcome" where
  "initConfig readFile toml found configPath =
     (if configPath \<noteq> [] then obind (ParseConfig readFile toml configPath) (\<lambda>cfg. Ret (Inr cfg))
      else case found of
        Inl e \<Rightarrow> Ret (Inl ''Read config failed'')
      | Inr path \<Rightarrow> obind (ParseConfig readFile toml path) (\<lambda>cfg. Ret (Inr cfg)))"

section \<open>The execution client\<close>

text \<open>
  Three methods of the server hand a question to the execution node and its answer back. The
  node is the record; \<open>'b\<close> and \<open>'h\<close> are blocks and headers of go-ethereum.
\<close>

record ('b, 'h) exec_client =
  ec_BlockNumber :: "string + u64"
  ec_BlockByNumber :: "int option \<Rightarrow> string + 'b"
  ec_HeaderByNumber :: "int option \<Rightarrow> string + 'h"

definition SomeNeedBackend :: bool where
  "SomeNeedBackend = True"

definition GetBlockHeight :: "('b, 'h) exec_client \<Rightarrow> string + u64" where
  "GetBlockHeight execClient = ec_BlockNumber execClient"

definition GetBlockByNumber :: "('b, 'h) exec_client \<Rightarrow> int option \<Rightarrow> string + 'b" where
  "GetBlockByNumber execClient number = ec_BlockByNumber execClient number"

definition GetHeightByNumber :: "('b, 'h) exec_client \<Rightarrow> int option \<Rightarrow> string + 'h" where
  "GetHeightByNumber execClient number = ec_HeaderByNumber execClient number"

section \<open>The background task\<close>

text \<open>
  One tick of the minute: whether the files can be created and renamed then. An error is logged
  and the loop goes on; a panic is not caught and ends the service.
\<close>

definition reward_tick :: "env \<Rightarrow> Config \<Rightarrow> bool \<times> bool \<Rightarrow> (reward_world, unit) gom" where
  "reward_tick E cfg oks =
     gbind (GetRewards E (fst oks) (snd oks) (cfg_BeaconRpc cfg) (cfg_RewardFile cfg)) (\<lambda>err. gret ())"

definition getRewardBackgroud :: "env \<Rightarrow> Config \<Rightarrow> (bool \<times> bool) list \<Rightarrow> (reward_world, unit) gom" where
  "getRewardBackgroud E cfg ticks = gfold (\<lambda>oks u. reward_tick E cfg oks) ticks ()"

text \<open>The program that writes the report once: whether it logs success.\<close>

definition rewards_main :: "env \<Rightarrow> bool \<Rightarrow> bool \<Rightarrow> string \<Rightarrow> string \<Rightarrow> (reward_world, bool) gom" where
  "rewards_main E createOk renameOk noderpc rewardfile =
     gbind (GetRewards E createOk renameOk noderpc rewardfile) (\<lambda>err. gret (err = None))"

section \<open>Versions\<close>

record build_info =
  bi_TagVersion :: string
  bi_AppName :: string
  bi_BuildTime :: string
  bi_GoVersion :: string
  bi_GitBranch :: string
  bi_CommitSha1 :: string

definition Version :: "build_info \<Rightarrow> string" where
  "Version b = bi_AppName b @ ''-'' @ bi_BuildTime b @ ''-v'' @ bi_TagVersion b @ [CHR 0x0A]"

definition version_line :: "string \<Rightarrow> string \<Rightarrow> string" where
  "version_line key val = key @ '':'' @ [CHR 0x09] @ val @ [CHR 0x0A]"

definition DetailVersion :: "build_info \<Rightarrow> string" where
  "DetailVersion b =
     version_line ''AppName'' (bi_AppName b) @ version_line ''Version'' (bi_TagVersion b) @
     version_line ''GitBranch'' (bi_GitBranch b) @ version_line ''GitCommit'' (bi_CommitSha1 b) @
     version_line ''BuildTime'' (bi_BuildTime b)"

text \<open>What the command prints. \<open>versionDetail\<close> is set before the flags are parsed, to their default.\<close>

definition versionDetail :: bool where
  "versionDetail = True"

definition versionCmd :: "build_info \<Rightarrow> string" where
  "versionCmd b = (if versionDetail then DetailVersion b else Version b) @ [CHR 0x0A]"

section \<open>The typed client\<close>

text \<open>\<open>'c\<close>: the RPC client. The description is made once, before it is stored.\<close>

record 'c attack_client =
  ac_c :: 'c
  ac_uuid :: string
  ac_valIdx :: int
  ac_info :: "string option"

definition clientInfo :: "wire \<Rightarrow> 'c attack_client \<Rightarrow> string" where
  "clientInfo W ec =
     (case ac_info ec of
        Some info \<Rightarrow> info
      | None \<Rightarrow> w_print W (clientInfo_json \<lparr>cli_UUID = ac_uuid ec, cli_ValidatorIndex = ac_valIdx ec\<rparr>))"

definition NewClient :: "wire \<Rightarrow> string \<Rightarrow> 'c \<Rightarrow> int \<Rightarrow> 'c attack_client" where
  "NewClient W uuid c valIdx =
     (let client = \<lparr>ac_c = c, ac_uuid = uuid, ac_valIdx = valIdx, ac_info = None\<rparr>
      in client\<lparr>ac_info := Some (clientInfo W client)\<rparr>)"

definition attack_DialContext ::
  "wire \<Rightarrow> string \<Rightarrow> (string \<Rightarrow> string + 'c) \<Rightarrow> string \<Rightarrow> int \<Rightarrow> string + 'c attack_client" where
  "attack_DialContext W uuid rpcDial rawurl valIdx =
     (case rpcDial rawurl of Inl e \<Rightarrow> Inl e | Inr c \<Rightarrow> Inr (NewClient W uuid c valIdx))"

section \<open>Facts\<close>

text \<open>The report that a run leaves when the files can be created and renamed.\<close>

definition complete_report :: "env \<Rightarrow> string \<Rightarrow> string list list \<Rightarrow> bool" where
  "complete_report E ep rows \<longleftrightarrow>
     (\<exists>n epochs. rows = reward_header # concat (map (\<lambda>k. epoch_rows E ep (n + k) (int k)) [0..<epochs]) \<and>
        (\<forall>k < epochs. \<exists>rs. epoch_rewards E ep (n + k) (int k) = Inr rs))"

lemma GetRewards_report:
  assumes "GetRewards E createOk renameOk ep output w = (r, w')"
  shows "rw_files w' output = rw_files w output \<or>
    (\<exists>rows. rw_files w' output = Some rows \<and> complete_report E ep rows)"
proof (cases "r = Ret None")
  case True
  show ?thesis
  proof (cases "createOk \<and> renameOk")
    case True
    with \<open>r = Ret None\<close> assms have "GetRewards E True True ep output w = (Ret None, w')" by simp
    from GetRewards_complete [OF this] show ?thesis unfolding complete_report_def by blast
  next
    case False
    obtain r1 w1 where c: "collect_rewards E ep output w = (r1, w1)" by force
    with keeps_run [OF keeps_collect_rewards] have "rw_files w1 output = rw_files w output" by fastforce
    with assms False c show ?thesis
      by (auto simp: GetRewards_def gbind_def gret_run rename_file_def gmodify_def split: outcome.splits option.splits if_splits)
  qed
next
  case False
  with GetRewards_atomic [OF assms] show ?thesis by simp
qed

lemma background_report:
  assumes "getRewardBackgroud E cfg ticks w = (r, w')"
  shows "rw_files w' (cfg_RewardFile cfg) = rw_files w (cfg_RewardFile cfg) \<or>
    (\<exists>rows. rw_files w' (cfg_RewardFile cfg) = Some rows \<and> complete_report E (cfg_BeaconRpc cfg) rows)"
  using assms
proof (induction ticks arbitrary: w)
  case (Cons oks ticks)
  obtain r1 w1 where g: "GetRewards E (fst oks) (snd oks) (cfg_BeaconRpc cfg) (cfg_RewardFile cfg) w = (r1, w1)" by force
  show ?case
  proof (cases r1)
    case (Ret err)
    with Cons.prems g have "getRewardBackgroud E cfg ticks w1 = (r, w')"
      by (simp add: getRewardBackgroud_def reward_tick_def gbind_def gret_run)
    with Cons.IH [of w1] GetRewards_report [OF g] show ?thesis by auto
  qed (use Cons.prems g GetRewards_report [OF g] in \<open>auto simp: getRewardBackgroud_def reward_tick_def gbind_def\<close>)
qed (simp add: getRewardBackgroud_def gret_run)

text \<open>The description of a client says what it was made from.\<close>

lemma NewClient_info:
  assumes "\<And>j. w_parse W (w_print W j) = Some j" and "is_i64 valIdx"
  shows "ToClientInfo (w_parse W (clientInfo W (NewClient W uuid c valIdx))) =
    \<lparr>cli_UUID = uuid, cli_ValidatorIndex = valIdx\<rparr>"
  using assms
  by (simp add: NewClient_def clientInfo_def ToClientInfo_def clientInfo_json_def ClientInfo_fields_def find_field_def dec_on_def
      ParseInt_FormatInt)

end
