(* ===== verification/Beacon_Grpc.thy ===== *)
theory Beacon_Grpc
  imports Rpc_Subscription
begin

text \<open>
  \<^verbatim>\<open>src/beaconapi/beaconGrpcClient.go\<close> and \<^verbatim>\<open>multiple_endpoints_grpc_resolver.go\<close>: the gRPC
  client of the beacon node. The gRPC library, the certificate file and the node are arguments;
  an option of the library is named by what it sets.

  Shown here: the resolver hands over exactly the endpoints of the list, in order; when no
  connection can be made the client is nil and the first call on it panics.
\<close>

datatype dial_option =
    WithTransportCredentials string
  | WithInsecure
  | WithDefaultCallOptions int nat int
  | WithStatsHandler
  | WithUnaryInterceptor "string list"
  | WithChainStreamInterceptor "string list"
  | WithResolvers
  | ExtraOption nat

text \<open>\<open>certOk\<close>: whether the credentials can be read from a file. \<open>None\<close> is the nil slice.\<close>

definition ConstructDialOptions ::
  "(string \<Rightarrow> bool) \<Rightarrow> int \<Rightarrow> string \<Rightarrow> nat \<Rightarrow> int \<Rightarrow> dial_option list \<Rightarrow> dial_option list option" where
  "ConstructDialOptions certOk maxCallRecvMsgSize withCert grpcRetries grpcRetryDelay extraOpts =
     (if withCert \<noteq> [] \<and> \<not> certOk withCert then None
      else
        (let transportSecurity = (if withCert \<noteq> [] then WithTransportCredentials withCert else WithInsecure);
             maxSize = (if maxCallRecvMsgSize = 0 then 10 * 5 * 2 ^ 20 else maxCallRecvMsgSize)
         in Some ([transportSecurity, WithDefaultCallOptions maxSize grpcRetries grpcRetryDelay, WithStatsHandler,
                   WithUnaryInterceptor [''opentracing'', ''prometheus'', ''retry'', ''LogRequests''],
                   WithChainStreamInterceptor [''LogStream'', ''opentracing'', ''prometheus'', ''retry''],
                   WithResolvers] @ extraOpts)))"

text \<open>\<open>dial\<close>: the connection the library makes, if any.\<close>

definition NewGrpcBeaconChainClient ::
  "(string \<Rightarrow> bool) \<Rightarrow> (string \<Rightarrow> dial_option list \<Rightarrow> 'conn option) \<Rightarrow> string \<Rightarrow> 'conn option" where
  "NewGrpcBeaconChainClient certOk dial endpoint =
     (case ConstructDialOptions certOk (1024 * 1024) [] 5 1000000000 [] of
        None \<Rightarrow> None
      | Some dialOpts \<Rightarrow> dial endpoint dialOpts)"

text \<open>\<open>list_validators\<close>: the node's answer, an error or the public keys.\<close>

definition GetValidators ::
  "(string \<Rightarrow> bool) \<Rightarrow> (string \<Rightarrow> dial_option list \<Rightarrow> 'conn option) \<Rightarrow> ('conn \<Rightarrow> string + string list) \<Rightarrow> string \<Rightarrow>
     (string + string list) outcome" where
  "GetValidators certOk dial list_validators grpcEndpoint =
     (case NewGrpcBeaconChainClient certOk dial grpcEndpoint of
        None \<Rightarrow> Panic NilDereference
      | Some client \<Rightarrow>
          Ret (case list_validators client of Inl e \<Rightarrow> Inl e | Inr keys \<Rightarrow> Inr (map hex_encode keys)))"

fun Split :: "char \<Rightarrow> string \<Rightarrow> string list" where
  "Split sep [] = [[]]"
| "Split sep (c # cs) =
     (if c = sep then [] # Split sep cs
      else case Split sep cs of [] \<Rightarrow> [[c]] | x # xs \<Rightarrow> (c # x) # xs)"

record grpc_address =
  ga_Addr :: string
  ga_ServerName :: string

text \<open>The state the resolver gives to its connection.\<close>

definition resolver_start :: "string \<Rightarrow> grpc_address list" where
  "resolver_start ep = map (\<lambda>endpoint. \<lparr>ga_Addr = endpoint, ga_ServerName = endpoint\<rparr>) (Split CHR '','' ep)"

section \<open>Facts\<close>

fun Join :: "char \<Rightarrow> string list \<Rightarrow> string" where
  "Join sep [] = []"
| "Join sep [x] = x"
| "Join sep (x # y # ys) = x @ sep # Join sep (y # ys)"

lemma Split_not_Nil [simp]: "Split sep s \<noteq> []"
  by (cases s) (auto split: list.split)

lemma Join_Split: "Join sep (Split sep s) = s"
proof (induction s)
  case (Cons c cs)
  obtain x xs where "Split sep cs = x # xs" using Split_not_Nil by (meson neq_Nil_conv)
  with Cons show ?case by (cases xs) auto
qed simp

lemma Split_no_sep: "\<forall>x \<in> set (Split sep s). sep \<notin> set x"
  by (induction s) (auto split: list.splits)

lemma resolver_addresses:
  "Join CHR '','' (map ga_Addr (resolver_start ep)) = ep \<and>
   (\<forall>a \<in> set (resolver_start ep). CHR '','' \<notin> set (ga_Addr a) \<and> ga_ServerName a = ga_Addr a)"
  using Split_no_sep [of "CHR '',''" ep] by (auto simp: resolver_start_def comp_def Join_Split)

lemma GetValidators_unreachable:
  "(\<And>opts. dial ep opts = None) \<Longrightarrow> GetValidators certOk dial lv ep = Panic NilDereference"
  by (simp add: GetValidators_def NewGrpcBeaconChainClient_def split: option.split)

end
