(* ===== verification/Spec2Isabelle.thy ===== *)
theory Spec2Isabelle
  imports Endpoint_Scenario Connection_Correct Attacker_Main Beacon_Grpc
begin

text \<open>
  \<^bold>\<open>Verification of attacker-service.\<close>

  \<^bold>\<open>The program.\<close> A Go service that steers attacking validators of an Ethereum beacon chain. A
  modified validator client asks it, around every block and attestation, what to do with it; the
  service keeps the duties and signed attestations of validators (\<^verbatim>\<open>validatorSet/\<close>), the role of
  each validator by slot (\<^verbatim>\<open>strategy/\<close>), asks the beacon node's REST gateway (\<^verbatim>\<open>beaconapi/\<close>), and
  answers from its two main services, block and attest (\<^verbatim>\<open>server/apis/\<close>). The last attacking
  proposer of an epoch puts all attestations collected from attackers into its block, through
  Prysm's attestation packing (\<^verbatim>\<open>types/atts.go\<close>). The services are published over JSON-RPC by a
  copy of go-ethereum's RPC library (\<^verbatim>\<open>rpc/\<close>) and HTTP stack (\<^verbatim>\<open>server/rpcstack.go\<close>), and called
  through a typed client (\<^verbatim>\<open>attackclient/\<close>). A second program writes a reward report (\<^verbatim>\<open>reward/\<close>).

  \<^bold>\<open>Theories and sources.\<close> The application, from the bottom:
  \<^item> \<^verbatim>\<open>Go_Prelude\<close>: Go's results (\<^verbatim>\<open>Ret\<close>, \<^verbatim>\<open>Panic\<close>), state-passing computations that log the
    sleeps they make, integers at their width, decimal parsing, iteration of maps in an arbitrary
    order, and the list lemmas; \<^verbatim>\<open>Go_Json\<close>, \<^verbatim>\<open>Go_Base64\<close>: encoding/json values and encoding/base64.
  \<^item> \<^verbatim>\<open>Attacker_Types\<close> (\<^verbatim>\<open>types/types.go\<close>), \<^verbatim>\<open>Strategy\<close> (\<^verbatim>\<open>strategy/\<close>), \<^verbatim>\<open>Validator_Set\<close>
    (\<^verbatim>\<open>validatorSet/\<close>; the store as finite maps, an abstract view as an interface),
    \<^verbatim>\<open>Proposer_Atts\<close> (\<^verbatim>\<open>types/atts.go\<close>), \<^verbatim>\<open>Beacon_Client\<close> (\<^verbatim>\<open>beaconapi/beaconclient.go\<close>),
    \<^verbatim>\<open>Backend\<close> (\<^verbatim>\<open>server/apis/backend.go\<close>, \<^verbatim>\<open>slot.go\<close>: the Go interface is a record of
    computations, its contract a locale), \<^verbatim>\<open>Attest_Api\<close> and \<^verbatim>\<open>Block_Api\<close> (\<^verbatim>\<open>attest.go\<close>,
    \<^verbatim>\<open>block.go\<close>), \<^verbatim>\<open>Attacker_Server\<close> (\<^verbatim>\<open>server/server.go\<close>: the state, the polling loop, and the
    step relation over which invariants are stated), \<^verbatim>\<open>Reward\<close> (\<^verbatim>\<open>reward/reward.go\<close>),
    \<^verbatim>\<open>Beacon_Grpc\<close> (the gRPC client and its resolver), \<^verbatim>\<open>Attacker_Main\<close> (\<^verbatim>\<open>cmd/\<close>, \<^verbatim>\<open>versions/\<close>, the
    background task and the constructor of the typed client).
  \<^item> \<^verbatim>\<open>Scenario\<close> and \<^verbatim>\<open>Endpoint_Scenario\<close>: concrete libraries, a node and a started endpoint, the
    inputs of the witnesses.
  The RPC library:
  \<^item> \<^verbatim>\<open>Rpc_Json\<close> (\<^verbatim>\<open>rpc/json.go\<close>, \<^verbatim>\<open>errors.go\<close>: messages, printing and parsing, positional
    arguments), \<^verbatim>\<open>Rpc_Service\<close> (\<^verbatim>\<open>service.go\<close>: registration by reflection, lookup, recovery from
    panics), \<^verbatim>\<open>Rpc_Handler\<close>, \<^verbatim>\<open>Rpc_Batch\<close>, \<^verbatim>\<open>Rpc_Single\<close> (\<^verbatim>\<open>handler.go\<close>: serving a call, and the
    interleaving of the call goroutine with the timeout for batches and single messages),
    \<^verbatim>\<open>Rpc_Subscription\<close> (\<^verbatim>\<open>subscription.go\<close>: notifier, client subscription, forwarding loop).
  \<^item> \<^verbatim>\<open>Rpc_Client\<close>, \<^verbatim>\<open>Rpc_Dispatch\<close> (\<^verbatim>\<open>client.go\<close> and the client half of \<^verbatim>\<open>handler.go\<close>: one step
    relation over the dispatch loop, the readers of all connections and any number of callers,
    with a store of \<^verbatim>\<open>requestOp\<close>s), \<^verbatim>\<open>Rpc_Transport\<close> (options, headers, choice of transport).
  \<^item> \<^verbatim>\<open>Rpc_Http\<close> (\<^verbatim>\<open>http.go\<close>, \<^verbatim>\<open>server.go\<close>), \<^verbatim>\<open>Rpc_Stack\<close> (\<^verbatim>\<open>server/rpcstack.go\<close>, origin rules of
    \<^verbatim>\<open>websocket.go\<close>), \<^verbatim>\<open>Attacker_Rpc\<close> (\<^verbatim>\<open>config/\<close>, \<^verbatim>\<open>startRPC\<close>, the services as the registry sees
    them by reflection, \<^verbatim>\<open>attackclient/\<close>).
  \<^item> \<^verbatim>\<open>Rpc_Gzip\<close> (compression around a handler), \<^verbatim>\<open>Rpc_Codec\<close> (\<^verbatim>\<open>jsonCodec\<close>, both ends of an HTTP
    connection, the websocket codec and its keep-alive loop with a clock and a timer),
    \<^verbatim>\<open>Rpc_Endpoints\<close> (\<^verbatim>\<open>ServeCodec\<close> and \<^verbatim>\<open>Stop\<close> over all connections, \<^verbatim>\<open>ipc.go\<close>, \<^verbatim>\<open>endpoints.go\<close>, the IPC
    server, dialing), \<^verbatim>\<open>Rpc_Reader\<close> (the reading goroutine and its end, \<^verbatim>\<open>wait\<close>, \<^verbatim>\<open>Close\<close>, in-process
    clients, identifiers), \<^verbatim>\<open>Rpc_Unsubscribe\<close> (the end of a client subscription), \<^verbatim>\<open>Rpc_Batch_Http\<close>
    (batches over HTTP from the client to the server and back). \<^verbatim>\<open>Turn_System\<close> is the interface of
    a system of goroutines with an invariant, which four of these theories interpret.
  \<^item> \<^verbatim>\<open>Rpc_Correct\<close> and \<^verbatim>\<open>Connection_Correct\<close> hold the properties of the RPC library, this theory those of the application
    and of the composition of both.

  \<^bold>\<open>How state and effects are modelled.\<close> A Go struct is a record, an error a value, a panic the
  result \<^verbatim>\<open>Panic\<close>; unsigned integers are words and wrap. A method that holds a lock for its whole
  body is one step; code that releases locks or runs in several goroutines is a step relation, and
  the theorems quantify over all interleavings. Code outside the repository is a parameter: Prysm
  and go-bitfield (\<^verbatim>\<open>att_lib\<close>), protobuf and the LRU cache (\<^verbatim>\<open>api_lib\<close>), the beacon node
  and the iteration order of maps (\<^verbatim>\<open>env\<close>), the net package and the CORS handler (\<^verbatim>\<open>net_lib\<close>), the
  file system and the TOML decoder. What a property relies on of them is a hypothesis of it, and
  its witness instantiates them.

  \<^bold>\<open>What is proved.\<close> Packing: \<^verbatim>\<open>Dedup\<close> ends, and keeps exactly a covering antichain; sorting
  permutes and orders; the whole packing is within the limit; its two error paths lose the
  attestations. Services: what each role makes the block and attestation handlers answer, which
  attestations are collected, how the delays add up, and an invariant of every reachable server
  state. RPC server: a batch is written at most once and in order under every interleaving, a
  single call is answered exactly once, notifications keep their order, arguments match the
  parameter types, registration and the HTTP life cycle are sound. RPC client: no panic in any
  reachable state, a waiting caller is registered on the live connection or can receive, closing
  releases callers, responses match requests; the exceptions are stated as theorems (a request in
  flight at a read error, an empty batch). Composition: a request posted to the endpoint runs
  exactly the operation it names (\<^verbatim>\<open>endpoint_serves\<close>), a typed client call returns what that
  operation gave (\<^verbatim>\<open>typed_client_roundtrip\<close>), and every element of a batch gets the answer to its
  own call (\<^verbatim>\<open>batch_http_roundtrip\<close>). Connections: a stopped server lets go of all of them, the
  keep-alive of a websocket sets its deadlines as intended, unsubscribing returns, and the reader
  of a connection ends when the connection is closed or replaced.

  \<^bold>\<open>Bounds and fuel.\<close> No definition uses fuel: loops are structural or have a termination proof, the
  goroutines are step relations. Request ids are 32 bits and distinct for the first \<^verbatim>\<open>2 ^ 32\<close>
  drawn; a client subscription buffers at most 20000 values; slots and epochs are words, and where
  a property excludes wrap-around it says so.

  \<^bold>\<open>Not modelled.\<close> The bytes of streams, websocket frames and TLS, which belong to libraries; the
  named pipes of Windows; flags, cobra and the rotating log file of the command line; two empty
  Lua structs; logging and metrics; \<^verbatim>\<open>Flush\<close> of the compressing writer.
\<close>

section \<open>Packing attestations\<close>

text \<open>
  C3. \<^verbatim>\<open>Dedup\<close> keeps attestations of its input only, keeps no two of the same data of which
  one contains the other, and for every attestation whose data hashes keeps one of the same
  data that covers it, in whatever order the map of groups is iterated.
\<close>
theorem Dedup_correct:
  assumes "Dedup L ord a = Ret (Some u)" and "is_order ord" and "is_preorder (atts_contain L)"
  shows "mset u \<subseteq># mset a \<and>
    sorted_wrt (\<lambda>x y. root_of L x = root_of L y \<longrightarrow> incomparable (atts_contain L) x y) u \<and>
    (\<forall>x \<in> set a. \<forall>r. root_of L x = Some r \<longrightarrow>
       (\<exists>y \<in> set u. root_of L y = Some r \<and> atts_contain L y x = Some True))"
  using Dedup_mset [OF assms(1,2)] Dedup_sorted_wrt [OF assms(1,2)] Dedup_covers_all [OF assms] by blast

lemma s_Dedup:
  "Dedup s_att_lib (\<lambda>n. [0..<n]) [(4, [True, False]), (4, [True, True]), (5, [False, True])] =
     Ret (Some [(4, [True, True]), (5, [False, True])])"
  by (simp add: Dedup_def s_att_lib_def atts_contain_def s_contains_def swap_remove_def
      dedup_i_turn dedup_j_turn)

theorem Dedup_correct_witness:
  "mset [(4, [True, True]), (5, [False, True])] \<subseteq>#
     mset [(4 :: u64, [True, False]), (4, [True, True]), (5, [False, True])] \<and>
   (\<exists>y \<in> set [(4, [True, True]), (5, [False, True])].
      root_of s_att_lib y = Some 4 \<and> atts_contain s_att_lib y (4, [True, False]) = Some True)"
  using Dedup_correct [OF s_Dedup is_order_upt s_preorder] by (auto simp: s_root)

text \<open>
  C21. \<^verbatim>\<open>Dedup\<close> returns: its loops end, and it reports no error when the bit lists of
  attestations of the same data can be compared.
\<close>
theorem Dedup_terminates:
  assumes "is_order ord"
    and "\<forall>x \<in> set a. \<exists>r. HashTreeRoot L (att_Data L x) = Ret r"
    and "\<forall>x \<in> set a. \<forall>y \<in> set a. root_of L x = root_of L y \<longrightarrow> atts_contain L x y \<noteq> None"
  shows "\<exists>u. Dedup L ord a = Ret (Some u)"
  by (rule Dedup_total [OF assms(1)]) (use assms(2,3) in blast)+

theorem Dedup_terminates_witness:
  "\<exists>u. Dedup s_att_lib (\<lambda>n. [0..<n]) [(4, [True, False]), (4, [False, True]), (5, [True])] = Ret (Some u)"
  by (rule Dedup_terminates)
    (auto simp: s_root, auto simp: s_att_lib_def atts_contain_def s_contains_def)

text \<open>
  C20. \<^verbatim>\<open>SortByProfitability\<close> permutes the attestations and puts newer slots first, given
  that the max-cover library lists every candidate once and \<^verbatim>\<open>sort.Slice\<close> sorts.
\<close>
theorem SortByProfitability_correct:
  assumes "SortByProfitability L sortSlice a = Ret (Some r)"
    and "cover_laws L" and "sort_laws L sortSlice"
  shows "mset r = mset a \<and> sorted_wrt (\<lambda>x y. slot_of L x \<ge> slot_of L y) r"
  using SortByProfitability_mset [OF assms] SortByProfitability_slots [OF assms] by blast

lemma s_Sort:
  "SortByProfitability s_att_lib s_sort [(4, [True]), (6, [True, False]), (6, [True, True])] =
     Ret (Some [(6, [True, True]), (6, [True, False]), (4, [True])])"
  by code_simp

theorem SortByProfitability_correct_witness:
  "sorted_wrt (\<lambda>x y. slot_of s_att_lib x \<ge> slot_of s_att_lib y)
     [(6, [True, True]), (6, [True, False]), (4, [True])]"
  using SortByProfitability_correct [OF s_Sort s_cover_laws s_sort_laws] by blast



text \<open>
  \<^verbatim>\<open>modifyBlock\<close> drops the error of \<^verbatim>\<open>Dedup\<close>: when two bit lists cannot be compared,
  the packed list is empty, whatever attestations the block came with.
\<close>
theorem pack_attestations_lost:
  assumes "Dedup (lib_att L) (lib_order L (bw_ticks w)) a = Ret None" and "\<forall>n. is_order (lib_order L n)"
  shows "\<exists>t. pack_attestations L a w = (Ret [], t)"
  using pack_attestations_dropped [OF assms(1)] assms(2) by blast

theorem pack_attestations_lost_witness:
  "\<exists>t. pack_attestations s_lib [(4, [True]), (4, [True, True])] s_world = (Ret [], t)"
proof (rule pack_attestations_lost)
  show "Dedup (lib_att s_lib) (lib_order s_lib (bw_ticks s_world)) [(4, [True]), (4, [True, True])] = Ret None"
    by (simp add: Dedup_def s_lib_def s_att_lib_def atts_contain_def s_contains_def visit_def
        dedup_i.simps dedup_j.simps)
qed (simp add: s_order)

section \<open>Roles\<close>

text \<open>
  At a slot that is not negative the server's role of a validator depends on the strategy
  alone: it attacks exactly when one of its entries has the slot in its interval. No state
  changes and no request is made.
\<close>
theorem GetValidatorRole_interval:
  assumes "0 \<le> slot"
  shows "\<exists>role. Server_GetValidatorRole E slot valIdx s = (Ret role, s) \<and>
    (role = AttackerRole \<longleftrightarrow>
      (\<exists>v \<in> set (st_Validators (srv_strategy s)). vst_ValidatorIndex v = valIdx \<and>
         vst_AttackerStartSlot v \<le> slot \<and> slot \<le> vst_AttackerEndSlot v))"
  using assms
  by (simp add: Server_GetValidatorRole_def Strategy_GetValidatorRole_def scan_validators_iff)

theorem GetValidatorRole_interval_witness:
  "\<exists>role. Server_GetValidatorRole s_env 6 2 s_server = (Ret role, s_server) \<and> role = AttackerRole"
  using GetValidatorRole_interval [of 6 s_env 2 s_server] by (simp add: s_server_def s_strategy_def)

text \<open>
  C8. In every state the service reaches from its start, through any sequence of polling ticks
  and RPC calls (panicking ones included): the attackers are those of the strategy file, the
  validator set is well formed, and every attestation on record belongs to a validator on
  record.
\<close>
theorem reachable_invariant:
  assumes "NewServer dialed readFile file beaconRpc = Ret s0" and "srv_reachable E L U s0 w"
  shows "st_Validators (srv_strategy (bw_srv w)) = st_Validators (ParseStrategy readFile file) \<and>
    vset_wf (srv_validatorSetInfo (bw_srv w)) \<and> known_attesters (srv_validatorSetInfo (bw_srv w))"
  using srv_reachable_inv [OF assms(2) srv_inv_NewServer [OF assms(1)]] by (simp add: srv_inv_def)

theorem reachable_invariant_witness:
  "\<exists>s0. NewServer True (\<lambda>_. ReadFailed) ''strategy.json'' ''node'' = Ret s0 \<and>
     known_attesters (srv_validatorSetInfo
       (bw_srv (snd (serve s_env s_lib s_one (CallAttestAfterSign 5 ''a1'' ''MV8uIA=='') (s_start s0)))))"
proof -
  obtain s0 :: "(s_att, s_block) server" where s0: "NewServer True (\<lambda>_. ReadFailed) ''strategy.json'' ''node'' = Ret s0"
    by (simp add: NewServer_def)
  have "srv_reachable s_env s_lib s_one s0 (s_start s0)" by (rule srv_reachable.start) (simp add: s_start_def)
  then have "srv_reachable s_env s_lib s_one s0
      (snd (serve s_env s_lib s_one (CallAttestAfterSign 5 ''a1'' ''MV8uIA=='') (s_start s0)))"
    by (rule srv_reachable.step) (rule srv_step.call, rule prod.collapse [symmetric])
  from reachable_invariant [OF s0 this] s0 show ?thesis by blast
qed

section \<open>Attestations\<close>

text \<open>
  C12. \<^verbatim>\<open>AfterSign\<close> of the attestation service hands the data back unchanged and collects the
  attestation exactly when its key is on record, its validator attacks in the slot, and the
  data decodes; then and only then a reader finds it under slot and key.
\<close>
theorem attestation_collected:
  assumes "uint slot < 2 ^ 63"
  shows "\<exists>t. Attest_AfterSign (server_backend E) U slot p data s = (Ret (respond CMD_NULL data), t) \<and>
    srv_strategy t = srv_strategy s \<and>
    (\<forall>slot' p'. attest_entry (srv_validatorSetInfo t) slot' p' =
      (case collected (srv_strategy s) (srv_validatorSetInfo s) U slot p data of
         Some a \<Rightarrow> if slot = slot' \<and> padPubkey p = padPubkey p' then Some a
                   else attest_entry (srv_validatorSetInfo s) slot' p'
       | None \<Rightarrow> attest_entry (srv_validatorSetInfo s) slot' p'))"
  using srv.Attest_AfterSign_run [OF assms, of E U p data s]
  by (auto simp: attest_entry_AddSignedAttestation split: option.splits)

theorem attestation_collected_witness:
  "\<exists>t. Attest_AfterSign (server_backend s_env) s_one 5 ''0xa1'' (EncodeToString ''x'') s_server =
         (Ret (respond CMD_NULL (EncodeToString ''x'')), t) \<and>
     attest_entry (srv_validatorSetInfo t) 5 ''a1'' = Some (5, [True])"
proof -
  have c: "collected (srv_strategy s_server) (srv_validatorSetInfo s_server) s_one 5 ''0xa1'' (EncodeToString ''x'') =
      Some (5, [True])"
    unfolding collected_def Decode_Encode
    by (simp add: s_one_def attacker_in_def s_server_def s_strategy_def s_vset_def GetValidatorByPubkey_def
        AddSignedAttestation_def AddValidator_def Let_def padPubkey_def HasPrefix_def Strategy_GetValidatorRole_def)
  have "padPubkey ''0xa1'' = padPubkey ''a1''" by (simp add: padPubkey_def HasPrefix_def)
  with c attestation_collected [of 5 s_env s_one "''0xa1''" "EncodeToString ''x''" s_server] show ?thesis
    by auto
qed

text \<open>
  C13. \<^verbatim>\<open>BeforePropose\<close> of the attestation service withholds the attestations of exactly the
  attackers of the slot, and changes nothing.
\<close>
theorem attestation_withheld:
  assumes "uint slot < 2 ^ 63"
  shows "Attest_BeforePropose (server_backend E) slot p data s =
    (Ret (respond (if attacker_in (srv_strategy s) (srv_validatorSetInfo s) (uint slot) p
                   then CMD_RETURN else CMD_NULL) []), s)"
  by (rule srv.Attest_BeforePropose_run [OF assms])

lemma s_attacks:
  "attacker_in (srv_strategy s_server) (srv_validatorSetInfo s_server) (uint (4 :: u64)) ''a1''"
  "attacker_in (srv_strategy s_server) (srv_validatorSetInfo s_server) (uint (5 :: u64)) ''a1''"
  "\<not> attacker_in (srv_strategy s_server) (srv_validatorSetInfo s_server) (uint (5 :: u64)) ''c3''"
  by (simp_all add: attacker_in_def s_server_def s_strategy_def s_vset_def GetValidatorByPubkey_def
      AddSignedAttestation_def AddValidator_def Let_def padPubkey_def HasPrefix_def Strategy_GetValidatorRole_def)

theorem attestation_withheld_witness:
  "Attest_BeforePropose (server_backend s_env) 5 ''a1'' [] s_server = (Ret (respond CMD_RETURN []), s_server) \<and>
   Attest_BeforePropose (server_backend s_env) 5 ''c3'' [] s_server = (Ret (respond CMD_NULL []), s_server)"
  using attestation_withheld [of 5 s_env "''a1''" "[]" s_server]
    attestation_withheld [of 5 s_env "''c3''" "[]" s_server] s_attacks by simp

section \<open>Blocks\<close>

text \<open>
  C6. When the node answers, an attacking proposer's block is withheld, before it is made and
  again after it is signed, unless its slot is the largest one that an attacker has a duty in;
  in that slot the block passes, and after signing its data is handed on.
\<close>
theorem block_withheld:
  assumes "config_has SLOTS_PER_EPOCH n (bw_srv w)" and "n < 2 ^ 63" and "uint slot < 2 ^ 63"
    and "steady_duties E (bw_srv w) (uint slot div n) ds" and "find_duty ds slot = Inr v"
    and "Strategy_GetValidatorRole (srv_strategy (bw_srv w)) v (uint slot) = AttackerRole"
  shows "\<exists>t. BeforeMakeBlock (server_backend E) slot p w =
      (Ret (respond (if uint slot = latest_attacker_slot (srv_strategy (bw_srv w)) (uint slot) ds
                     then CMD_NULL else CMD_RETURN) []), t) \<and>
    Block_AfterSign (server_backend E) slot p data w =
      (Ret (if uint slot = latest_attacker_slot (srv_strategy (bw_srv w)) (uint slot) ds
            then respond CMD_NULL data else respond CMD_RETURN []), t)"
  using server_proposing_turn [OF assms, of p]
  by (simp add: BeforeMakeBlock_def Block_AfterSign_def gbind_def on_srv_def gret_run)

theorem block_withheld_witness:
  "(\<exists>t. BeforeMakeBlock (server_backend s_env) 4 ''a1'' s_world = (Ret (respond CMD_RETURN []), t)) \<and>
   (\<exists>t. BeforeMakeBlock (server_backend s_env) 6 ''a2'' s_world = (Ret (respond CMD_NULL []), t))"
proof -
  have srv: "bw_srv s_world = s_server" by (simp add: s_world_def)
  have "\<exists>t. BeforeMakeBlock (server_backend s_env) 4 ''a1'' s_world = (Ret (respond CMD_RETURN []), t)"
    using block_withheld [of 4 s_world 4 s_env s_duties 1 "''a1''" "[]"]
    by (auto simp: srv s_config s_steady s_find s_roles s_latest)
  moreover have "\<exists>t. BeforeMakeBlock (server_backend s_env) 6 ''a2'' s_world = (Ret (respond CMD_NULL []), t)"
    using block_withheld [of 4 s_world 6 s_env s_duties 2 "''a2''" "[]"]
    by (auto simp: srv s_config s_steady s_find s_roles s_latest)
  ultimately show ?thesis ..
qed




text \<open>
  C22. When the last attacker's block is received and later broadcast, the service sleeps twice:
  first to the end of the slot's epoch, then for twelve slots plus the first delay again, which
  it finds in its cache (the LRU package returns what was just added).
\<close>
theorem delays_add_up:
  assumes "receiving_turn (server_backend E) slot (bw_srv w) = (Ret (LastAttacker v), s1)"
    and "config_has SLOTS_PER_EPOCH n s1" and "config_has SECONDS_PER_SLOT seconds s1"
    and "n < 2 ^ 63" and "1000000000 * (12 * seconds + n * seconds) < 2 ^ 63"
    and "receiving_turn (server_backend E) slot s1 = (Ret (LastAttacker v), s2)"
    and "config_has SECONDS_PER_SLOT seconds s2"
    and lru: "\<forall>k d c. fst (lib_lruGet L k (lib_lruAdd L k d c)) = Some d"
  shows "\<exists>t. gbind (DelayForReceiveBlock L (server_backend E) slot)
      (\<lambda>r1. gbind (Block_BeforeBroadCast L (server_backend E) slot) (\<lambda>r2. gret (Cmd r1, Cmd r2))) w =
      (Ret (CMD_UPDATE_STATE, CMD_NULL), t) \<and>
    bw_sleeps t = bw_sleeps w @
      [1000000000 * rest_of_epoch slot n seconds,
       1000000000 * (12 * seconds + rest_of_epoch slot n seconds)]"
proof -
  let ?d = "rest_of_epoch slot n seconds"
  have n: "0 < n" and sec: "0 \<le> seconds" using assms(2,3) by (simp_all add: config_has_def)
  have d: "0 \<le> ?d" "?d \<le> n * seconds" using rest_of_epoch_bounds [OF n sec] by simp_all
  let ?w = "w\<lparr>bw_srv := s1, bw_sleeps := bw_sleeps w @ [1000000000 * ?d],
    bw_cache := lib_lruAdd L (delay_key slot v) ?d (bw_cache w)\<rparr>"
  have first: "DelayForReceiveBlock L (server_backend E) slot w = (Ret (respond CMD_UPDATE_STATE []), ?w)"
    using DelayForReceiveBlock_last [OF assms(1), of n s1 seconds s1] n sec assms(4,5)
    by (simp add: GetSlotsPerEpoch_run [OF assms(2)] GetIntervalPerSlot_run [OF assms(3)])
  have "fst (lib_lruGet L (delay_key slot v) (bw_cache ?w)) = Some ?d" using lru by simp
  then obtain c where c: "lib_lruGet L (delay_key slot v) (bw_cache ?w) = (Some ?d, c)"
    by (cases "lib_lruGet L (delay_key slot v) (bw_cache ?w)") simp
  have "receiving_turn (server_backend E) slot (bw_srv ?w) = (Ret (LastAttacker v), s2)"
    using assms(6) by simp
  from Block_BeforeBroadCast_last [OF this c, of seconds s2]
  have "Block_BeforeBroadCast L (server_backend E) slot ?w = (Ret (respond CMD_NULL []),
      ?w\<lparr>bw_srv := s2, bw_cache := c, bw_sleeps := bw_sleeps ?w @ [1000000000 * (12 * seconds + ?d)]\<rparr>)"
    using assms(5) sec d by (simp add: GetIntervalPerSlot_run [OF assms(7)])
  with first show ?thesis by (simp add: gbind_def gret_run)
qed

theorem delays_add_up_witness:
  "\<exists>t. gbind (DelayForReceiveBlock s_lib (server_backend s_env) 6)
      (\<lambda>r1. gbind (Block_BeforeBroadCast s_lib (server_backend s_env) 6) (\<lambda>r2. gret (Cmd r1, Cmd r2))) s_world =
      (Ret (CMD_UPDATE_STATE, CMD_NULL), t) \<and> bw_sleeps t = [4000000000, 28000000000]"
proof -
  have r1: "receiving_turn (server_backend s_env) 6 (bw_srv s_world) = (Ret (LastAttacker 2), s_server\<lparr>gw_clock := Suc (Suc (Suc 0))\<rparr>)"
    using s_receiving [of 0] by (simp add: s_world_def s_server_def)
  have r2: "receiving_turn (server_backend s_env) 6 (s_server\<lparr>gw_clock := Suc (Suc (Suc 0))\<rparr>) =
      (Ret (LastAttacker 2), s_server\<lparr>gw_clock := Suc (Suc (Suc (Suc (Suc (Suc 0)))))\<rparr>)"
    using s_receiving [of "Suc (Suc (Suc 0))"] by simp
  show ?thesis
    using delays_add_up [OF r1 _ _ _ _ r2, of 4 2 s_lib] s_config
    by (simp add: s_lib_def rest_of_epoch_def s_world_def)
qed

section \<open>Slots, node, settings\<close>

text \<open>
  While the chain configuration is in the cache, every slot lies between the first and the
  last slot that \<^verbatim>\<open>SlotTool\<close> computes for its epoch, and an epoch has as many slots as
  configured; nothing is fetched.
\<close>
theorem slot_in_its_epoch:
  assumes "config_has SLOTS_PER_EPOCH n s" and "0 \<le> slot" and "slot + n < 2 ^ 63"
  shows "\<exists>epoch first. SlotToEpoch (Server_SlotsPerEpoch E) slot s = (Ret epoch, s) \<and>
    EpochStart (Server_SlotsPerEpoch E) epoch s = (Ret first, s) \<and>
    EpochEnd (Server_SlotsPerEpoch E) epoch s = (Ret (first + n - 1), s) \<and>
    first \<le> slot \<and> slot \<le> first + n - 1"
  by (rule srv_slots.slot_in_epoch [OF assms])

theorem slot_in_its_epoch_witness:
  "\<exists>epoch first. SlotToEpoch (Server_SlotsPerEpoch s_env) 6 s_server = (Ret epoch, s_server) \<and>
    EpochStart (Server_SlotsPerEpoch s_env) epoch s_server = (Ret first, s_server) \<and> first \<le> 6"
  using slot_in_its_epoch [OF s_config(1), of 6 s_env] by auto

text \<open>
  C34. The chain configuration is fetched once: a call with an empty cache makes one request and
  caches exactly the string entries of the answer, whatever the order in which Go iterates
  over them; every later call gives the same numbers and makes no request.
\<close>
theorem config_fetched_once:
  assumes "gw_config s = []" and "env_ok E" and "all_strings (spec_answer E s)" and "spec_answer E s \<noteq> []"
  shows "\<exists>t. GetBeaconConfig E s = (Ret (gw_config t), t) \<and>
    (\<forall>key. map_of (gw_config t) key = map_option string_of (map_of (spec_answer E s) key)) \<and>
    GetBeaconConfig E t = (Ret (gw_config t), t) \<and>
    (\<forall>key. GetIntConfig E key t =
       (Ret (case map_of (spec_answer E s) key of None \<Rightarrow> (0, None) | Some j \<Rightarrow> Atoi (string_of j)), t))"
proof -
  note fetch = GetBeaconConfig_fetch [OF assms(1-3)]
  let ?t = "s\<lparr>gw_clock := Suc (Suc (gw_clock s)), gw_config := fetched E s\<rparr>"
  obtain k j es where "spec_answer E s = (k, j) # es" using assms(4) by (cases "spec_answer E s") auto
  then have "map_of (fetched E s) k \<noteq> None" by (simp add: map_of_fetched [OF assms(2)])
  then have ne: "fetched E s \<noteq> []" by auto
  show ?thesis
    by (rule exI [of _ ?t])
      (use fetch ne in \<open>auto simp: map_of_fetched [OF assms(2)] GetBeaconConfig_cached GetIntConfig_cached
         split: option.split\<close>)
qed

theorem config_fetched_once_witness:
  "\<exists>t. GetBeaconConfig s_env (NewBeaconGwClient ''node'') = (Ret (gw_config t), t) \<and>
     GetIntConfig s_env SLOTS_PER_EPOCH t = (Ret (4, None), t)"
proof -
  have a: "spec_answer s_env (NewBeaconGwClient ''node'') =
      [(''SLOTS_PER_EPOCH'', JStr ''4''), (''SECONDS_PER_SLOT'', JStr ''2'')]"
    by code_simp
  have "Atoi ''4'' = (4, None)" by (simp add: Atoi_def ParseInt_def ParseUint_def digit_val_def)
  then show ?thesis
    using config_fetched_once [of "NewBeaconGwClient ''node''" s_env] s_env_ok
    unfolding a by (auto simp: NewBeaconGwClient_def all_strings_def SLOTS_PER_EPOCH_def string_of_def)
qed

text \<open>
  C38. The fallback epoch length of six slots is not used when the node does not answer: the
  client reports the length zero without an error, and every operation that asks for the
  proposer of a slot panics with a division by zero.
\<close>
theorem silent_node_panics:
  assumes "silent E" and "gw_config s = []"
  shows "\<exists>t u. GetSlotsPerEpoch E s = (Ret 0, t) \<and>
    GetValidatorByProposeSlot E slot s = (Panic DivideByZero, u)"
proof -
  from silent_IntConfig [OF assms] obtain t where "GetIntConfig E SLOTS_PER_EPOCH s = (Ret (0, None), t)" by blast
  then have "GetSlotsPerEpoch E s = (Ret 0, t)" by (simp add: GetSlotsPerEpoch_def gbind_def gret_run)
  with silent_propose_slot [OF assms] show ?thesis by blast
qed

theorem silent_node_panics_witness:
  "\<exists>t u. GetSlotsPerEpoch \<lparr>env_net = \<lambda>_ _. HttpFailed, env_order = \<lambda>n m. [0..<m]\<rparr> (s_server\<lparr>gw_config := []\<rparr>) = (Ret 0, t) \<and>
    GetValidatorByProposeSlot \<lparr>env_net = \<lambda>_ _. HttpFailed, env_order = \<lambda>n m. [0..<m]\<rparr> 6 (s_server\<lparr>gw_config := []\<rparr>) =
      (Panic DivideByZero, u)"
  by (rule silent_node_panics) (simp_all add: silent_def env_ok_def)

section \<open>The endpoint\<close>





section \<open>Settings and reports\<close>

text \<open>
  C33. The settings that a client writes are the settings it reads back, for blocks and for
  attestations; writing the one leaves the other, the attackers and the validator set alone.
\<close>
theorem settings_roundtrip:
  assumes "is_i64 (bst_BroadCastDelay b)" and "is_i64 (ast_BroadCastDelay a)"
  shows "(\<exists>t. Block_UpdateStrategy (server_backend E) (Some (BlockStrategy_json b)) s = (Ret False, t) \<and>
      Block_GetStrategy (server_backend E) cliInfo t = (Ret (BlockStrategy_json b), t) \<and>
      st_Attest (srv_strategy t) = st_Attest (srv_strategy s) \<and> st_Validators (srv_strategy t) = st_Validators (srv_strategy s) \<and>
      srv_validatorSetInfo t = srv_validatorSetInfo s) \<and>
    (\<exists>t. Attest_UpdateStrategy (server_backend E) (Some (AttestStrategy_json a)) s = (Ret False, t) \<and>
      Attest_GetStrategy (server_backend E) t = (Ret (AttestStrategy_json a), t) \<and>
      st_Block (srv_strategy t) = st_Block (srv_strategy s) \<and> st_Validators (srv_strategy t) = st_Validators (srv_strategy s) \<and>
      srv_validatorSetInfo t = srv_validatorSetInfo s)"
  using srv.Block_Update_Get [OF assms(1)] srv.Attest_Update_Get [OF assms(2)] by blast

theorem settings_roundtrip_witness:
  "(\<exists>t. Block_UpdateStrategy (server_backend s_env) (Some (BlockStrategy_json defaultBlockStrategy)) s_server = (Ret False, t) \<and>
      Block_GetStrategy (server_backend s_env) [] t = (Ret (BlockStrategy_json defaultBlockStrategy), t)) \<and>
    (\<exists>t. Attest_UpdateStrategy (server_backend s_env) (Some (AttestStrategy_json defaultAttestStrategy)) s_server = (Ret False, t) \<and>
      Attest_GetStrategy (server_backend s_env) t = (Ret (AttestStrategy_json defaultAttestStrategy), t))"
  using settings_roundtrip [of defaultBlockStrategy defaultAttestStrategy s_env s_server "[]"]
  by (auto simp: defaultBlockStrategy_def defaultAttestStrategy_def is_i64_def)



end
